(* ===== verification/Prelude.thy ===== *)
theory Prelude
  imports Main "HOL-Library.Sublist" "HOL-Library.Word"
begin

text \<open>
  Shared vocabulary of the development: the outcome of a Go call that may panic, Go's 64-bit
  signed integers and durations, decimal printing (the \<open>%d\<close> verb), and the generic lemmas on
  lists and maps that the component theories use. Nothing here models a file of the repository.
\<close>

named_theorems go_defs \<open>definitions of model operations, unfolded together\<close>
named_theorems frame_simps \<open>fields an operation leaves alone\<close>

section \<open>Outcomes\<close>

text \<open>
  A Go call returns or panics. Errors are ordinary values of the return type; \<open>Panic\<close> carries
  the panic message. A call that blocks is never a value: blocking is a matter of the step
  relations of the components that use channels.
\<close>

datatype 'a go = Ret 'a | Panic string

fun go_bind :: "'a go \<Rightarrow> ('a \<Rightarrow> 'b go) \<Rightarrow> 'b go" where
  "go_bind (Ret x) f = f x"
| "go_bind (Panic m) f = Panic m"

lemma go_bind_assoc: "go_bind (go_bind x f) g = go_bind x (\<lambda>a. go_bind (f a) g)"
  by (cases x) simp_all

lemma go_bind_Ret [simp]: "go_bind x Ret = x"
  by (cases x) simp_all

lemma go_bind_eq_Ret [simp]: "go_bind x f = Ret b \<longleftrightarrow> (\<exists>a. x = Ret a \<and> f a = Ret b)"
  by (cases x) auto

section \<open>Integers and durations\<close>

text \<open>
  \<open>int\<close> and \<open>time.Duration\<close> are 64-bit two's complement on the platforms the program is built
  for. \<open>i64\<close> is the wrap-around of every arithmetic result; \<open>quot_i64\<close> is Go's division, which
  truncates towards zero.
\<close>

definition i64 :: "int \<Rightarrow> int" where
  "i64 x = (x + 2 ^ 63) mod 2 ^ 64 - 2 ^ 63"

definition quot_i64 :: "int \<Rightarrow> int \<Rightarrow> int" where
  "quot_i64 a b = i64 (sgn a * sgn b * (\<bar>a\<bar> div \<bar>b\<bar>))"

definition in_i64 :: "int \<Rightarrow> bool" where
  "in_i64 x \<longleftrightarrow> - (2 ^ 63) \<le> x \<and> x < 2 ^ 63"

lemma i64_id [simp]: "in_i64 x \<Longrightarrow> i64 x = x"
  by (simp add: i64_def in_i64_def)

lemma in_i64_i64 [simp]: "in_i64 (i64 x)"
proof -
  have "0 \<le> (x + 2 ^ 63) mod 2 ^ 64" and "(x + 2 ^ 63) mod 2 ^ 64 < (2 ^ 64 :: int)"
    by (simp_all only: pos_mod_sign pos_mod_bound zero_less_numeral zero_less_power)
  then show ?thesis by (simp add: i64_def in_i64_def)
qed

lemma quot_i64_nonneg: "0 \<le> a \<Longrightarrow> 0 < b \<Longrightarrow> in_i64 a \<Longrightarrow> quot_i64 a b = a div b"
proof -
  assume a: "0 \<le> a" "0 < b" "in_i64 a"
  have "a div b \<le> a" using a zdiv_mono2 [of a 1 b] by simp
  moreover have "0 \<le> a div b" using a by (simp add: pos_imp_zdiv_nonneg_iff)
  ultimately have "in_i64 (a div b)" using a by (auto simp: in_i64_def)
  moreover have "sgn a * sgn b * (\<bar>a\<bar> div \<bar>b\<bar>) = a div b"
    using a by (cases "a = 0") (auto simp: sgn_if)
  ultimately show ?thesis by (simp add: quot_i64_def)
qed

text \<open>Durations are nanoseconds.\<close>

type_synonym duration = int

definition Second :: duration where "Second = 10 ^ 9"

lemma Second_eq: "Second = 1000000000"
  by (simp add: Second_def)

section \<open>Decimal printing\<close>

definition digit_char :: "nat \<Rightarrow> char" where
  "digit_char d = char_of (48 + d)"

fun show_nat :: "nat \<Rightarrow> string" where
  "show_nat n = (if n < 10 then [digit_char n] else show_nat (n div 10) @ [digit_char (n mod 10)])"

declare show_nat.simps [simp del]

definition show_int :: "int \<Rightarrow> string" where
  "show_int i = (if i < 0 then CHR ''-'' # show_nat (nat (- i)) else show_nat (nat i))"

lemma show_nat_nonempty: "show_nat n \<noteq> []"
  by (subst show_nat.simps) simp

section \<open>Lists\<close>

lemma list_all2_map_iff: "list_all2 (\<lambda>x y. y = f x) xs ys \<longleftrightarrow> ys = map f xs"
  by (induction xs arbitrary: ys) (auto simp: list_all2_Cons1)

lemma take_drop_prefix: "prefix p s \<Longrightarrow> p @ drop (length p) s = s"
  by (auto simp: prefix_def)

lemma nth_Cons_append_last: "(a # xs @ [b]) ! Suc (length xs) = b"
  by simp

lemma map_filter_all_Some:
  "(\<And>k. k \<in> set ks \<Longrightarrow> f k \<noteq> None) \<Longrightarrow> List.map_filter (\<lambda>v. v) (map f ks) = map (\<lambda>k. the (f k)) ks"
proof (induction ks)
  case (Cons k ks)
  then obtain v where "f k = Some v" by force
  with Cons show ?case by (simp add: List.map_filter_simps)
qed (simp add: List.map_filter_simps)

section \<open>Maps\<close>

lemma map_upd_other [simp]: "k' \<noteq> k \<Longrightarrow> (m(k \<mapsto> v)) k' = m k'"
  by simp

text \<open>Restricting a map to what is left after deleting a list of keys, one by one.\<close>

lemma fold_delete_eq: "fold (\<lambda>k m. m(k := None)) ks m = m |` (- set ks)"
  by (induction ks arbitrary: m) (auto simp: restrict_map_def fun_eq_iff)

lemma fold_delete_dom: "dom m \<subseteq> set ks \<Longrightarrow> fold (\<lambda>k m. m(k := None)) ks m = Map.empty"
  by (auto simp: fold_delete_eq restrict_map_def fun_eq_iff)

end
