(* ===== verification/Errors.thy ===== *)
theory Errors
  imports Prelude
begin

text \<open>
  Error values: \<open>pkg/errors/errors.go\<close> (the typed error), \<open>pkg/http/errors.go\<close> (its mapping to
  an HTTP status) and \<open>pkg/grpc/error.go\<close> (its mapping to a gRPC code), with Go's wrapping
  (\<open>fmt.Errorf("ctx: %w", err)\<close>) and \<open>errors.As\<close>.
\<close>

section \<open>pkg/errors\<close>

text \<open>\<open>ErrorType\<close> is a named \<open>int\<close>, not a closed enumeration: any value is possible.\<close>

type_synonym ErrorType = int

definition TypeUnauthorized :: ErrorType where "TypeUnauthorized = 0 + 1"
definition TypeBadRequest :: ErrorType where "TypeBadRequest = 1 + 1"
definition TypeInternalServer :: ErrorType where "TypeInternalServer = 2 + 1"

lemmas error_types = TypeUnauthorized_def TypeBadRequest_def TypeInternalServer_def

definition ErrorType_String :: "ErrorType \<Rightarrow> string go" where
  "ErrorType_String t =
     (if t = TypeUnauthorized then Ret ''unauthorized''
      else if t = TypeBadRequest then Ret ''bad_request''
      else if t = TypeInternalServer then Ret ''internal''
      else Panic (''unrecognized error: '' @ show_int t))"

text \<open>
  The error values of the program. \<open>Opaque\<close> is an error with no error inside it: one made by
  \<open>fmt.Errorf\<close> without \<open>%w\<close>, by \<open>errors.New\<close>, or by a library. \<open>Wrapped\<close> is
  \<open>fmt.Errorf("<context>: %w", err)\<close>.
\<close>

datatype go_error =
    Opaque string
  | Wrapped string go_error
  | GenericErr (GenericErr_Type: ErrorType) (GenericErr_Unwrap: go_error)

type_synonym 'a result = "go_error + 'a"

text \<open>
  The text of an error. \<open>GenericErr.Error\<close> formats the type with \<open>%s\<close>; \<open>fmt\<close> turns a panic of
  \<open>String\<close> into text, so printing an error never panics.
\<close>

definition sprintf_stringer :: "string go \<Rightarrow> string" where
  "sprintf_stringer r =
     (case r of Ret s \<Rightarrow> s | Panic m \<Rightarrow> ''%!s(PANIC=String method: '' @ m @ '')'')"

fun Error_text :: "go_error \<Rightarrow> string" where
  "Error_text (Opaque m) = m"
| "Error_text (Wrapped ctx e) = ctx @ '': '' @ Error_text e"
| "Error_text (GenericErr t e) =
     ''['' @ sprintf_stringer (ErrorType_String t) @ '']: '' @ Error_text e"

definition ErrUnauthorized :: "go_error \<Rightarrow> go_error" where
  "ErrUnauthorized cause = GenericErr TypeUnauthorized cause"

definition BadRequest :: "go_error \<Rightarrow> go_error" where
  "BadRequest cause = GenericErr TypeBadRequest cause"

text \<open>\<open>errors.As(err, &gErr)\<close>: the first \<open>GenericErr\<close> from the outside in.\<close>

fun as_GenericErr :: "go_error \<Rightarrow> (ErrorType \<times> go_error) option" where
  "as_GenericErr (Opaque m) = None"
| "as_GenericErr (Wrapped ctx e) = as_GenericErr e"
| "as_GenericErr (GenericErr t e) = Some (t, e)"

text \<open>Wrapping an error in several contexts, the outermost first.\<close>

definition wraps :: "string list \<Rightarrow> go_error \<Rightarrow> go_error" where
  "wraps ctxs e = foldr Wrapped ctxs e"

lemma wraps_simps [simp]:
  "wraps [] e = e"
  "wraps (c # cs) e = Wrapped c (wraps cs e)"
  by (simp_all add: wraps_def)

lemma as_GenericErr_wraps [simp]: "as_GenericErr (wraps cs e) = as_GenericErr e"
  by (induction cs) simp_all

lemma as_GenericErr_constructors [simp]:
  "as_GenericErr (ErrUnauthorized e) = Some (TypeUnauthorized, e)"
  "as_GenericErr (BadRequest e) = Some (TypeBadRequest, e)"
  by (simp_all add: ErrUnauthorized_def BadRequest_def)

section \<open>pkg/http/errors.go\<close>

definition StatusOK :: int where "StatusOK = 200"
definition StatusBadRequest :: int where "StatusBadRequest = 400"
definition StatusUnauthorized :: int where "StatusUnauthorized = 401"
definition StatusInternalServerError :: int where "StatusInternalServerError = 500"

lemmas http_statuses =
  StatusOK_def StatusBadRequest_def StatusUnauthorized_def StatusInternalServerError_def

record http_Err =
  StatusCode :: int
  Details :: string

definition http_Err_Error :: "http_Err \<Rightarrow> string" where
  "http_Err_Error e = ''HTTP error ('' @ show_int (StatusCode e) @ ''): '' @ Details e"

definition DetermineHTTPError :: "go_error \<Rightarrow> http_Err" where
  "DetermineHTTPError err =
     (case as_GenericErr err of
        None \<Rightarrow> \<lparr>StatusCode = StatusInternalServerError, Details = Error_text err\<rparr>
      | Some (t, cause) \<Rightarrow>
          \<lparr>StatusCode =
             (if t = TypeBadRequest then StatusBadRequest
              else if t = TypeUnauthorized then StatusUnauthorized
              else if t = TypeInternalServer then StatusInternalServerError
              else StatusInternalServerError),
           Details = Error_text cause\<rparr>)"

section \<open>pkg/grpc/error.go\<close>

text \<open>The codes of \<open>google.golang.org/grpc/codes\<close> that the program names.\<close>

datatype grpc_code = Internal | InvalidArgument | Unauthenticated

datatype grpc_status = GrpcStatus (grpc_code: grpc_code) (grpc_msg: string)

definition grpc_Error :: "go_error \<Rightarrow> grpc_status" where
  "grpc_Error err =
     (case as_GenericErr err of
        None \<Rightarrow> GrpcStatus Internal (Error_text err)
      | Some (t, cause) \<Rightarrow>
          GrpcStatus
            (if t = TypeBadRequest then InvalidArgument
             else if t = TypeUnauthorized then Unauthenticated
             else if t = TypeInternalServer then Internal
             else Internal)
            (Error_text cause))"

section \<open>Facts\<close>

text \<open>The HTTP status that corresponds to a gRPC code in the two mappings.\<close>

fun http_of_grpc :: "grpc_code \<Rightarrow> int" where
  "http_of_grpc Internal = StatusInternalServerError"
| "http_of_grpc InvalidArgument = StatusBadRequest"
| "http_of_grpc Unauthenticated = StatusUnauthorized"

lemma DetermineHTTPError_plain:
  "as_GenericErr e = None \<Longrightarrow>
   DetermineHTTPError e = \<lparr>StatusCode = StatusInternalServerError, Details = Error_text e\<rparr>"
  by (simp add: DetermineHTTPError_def)

lemma DetermineHTTPError_Unauthorized [simp]:
  "DetermineHTTPError (wraps cs (ErrUnauthorized e)) =
   \<lparr>StatusCode = StatusUnauthorized, Details = Error_text e\<rparr>"
  by (simp add: DetermineHTTPError_def error_types)

lemma StatusCode_cases:
  "StatusCode (DetermineHTTPError e) \<in> {StatusBadRequest, StatusUnauthorized, StatusInternalServerError}"
  by (simp add: DetermineHTTPError_def split: option.split prod.split)

lemma DetermineHTTPError_neq_OK [simp]: "StatusCode (DetermineHTTPError e) \<noteq> StatusOK"
  using StatusCode_cases [of e] by (auto simp: http_statuses)

lemma transports_agree:
  "StatusCode (DetermineHTTPError e) = http_of_grpc (grpc_code (grpc_Error e)) \<and>
   Details (DetermineHTTPError e) = grpc_msg (grpc_Error e)"
  by (simp add: DetermineHTTPError_def grpc_Error_def split: option.split prod.split)

text \<open>C1: Classification survives any amount of wrapping, and the contexts of the wrapping never
  reach the client: a typed error under any list of contexts answers with the status of its type
  and the text of its cause alone, both over HTTP and over gRPC. On every error, typed or not, the two
  transports agree: the HTTP status is the one that corresponds to the gRPC code, with the same text.\<close>

theorem classification_survives_wrapping:
  "DetermineHTTPError (wraps cs (ErrUnauthorized e)) =
     \<lparr>StatusCode = 401, Details = Error_text e\<rparr> \<and>
   DetermineHTTPError (wraps cs (BadRequest e)) =
     \<lparr>StatusCode = 400, Details = Error_text e\<rparr> \<and>
   grpc_Error (wraps cs (ErrUnauthorized e)) = GrpcStatus Unauthenticated (Error_text e) \<and>
   grpc_Error (wraps cs (BadRequest e)) = GrpcStatus InvalidArgument (Error_text e) \<and>
   StatusCode (DetermineHTTPError e) = http_of_grpc (grpc_code (grpc_Error e)) \<and>
   Details (DetermineHTTPError e) = grpc_msg (grpc_Error e)"
  using transports_agree [of e]
  by (simp add: DetermineHTTPError_def grpc_Error_def error_types http_statuses)

end
