(* ===== verification/Slices.thy ===== *)
theory Slices
  imports Errors
begin

text \<open>
  \<open>pkg/slices/slices.go\<close>: the three generic slice helpers, as the loops the code has (index
  loops into a slice made beforehand, an appending loop), and their specifications over \<open>map\<close>
  and \<open>List.map_filter\<close>.
\<close>

section \<open>Map\<close>

text \<open>\<open>zero\<close> is the zero value of the element type, which \<open>make\<close> fills the slice with.\<close>

function Map_loop :: "('i \<Rightarrow> 'o) \<Rightarrow> 'i list \<Rightarrow> nat \<Rightarrow> 'o list \<Rightarrow> 'o list" where
  "Map_loop transform input i result =
     (if i < length result
      then Map_loop transform input (Suc i) (result[i := transform (input ! i)])
      else result)"
  by pat_completeness auto
termination
  by (relation "measure (\<lambda>(f, xs, i, r). length r - i)") auto

declare Map_loop.simps [simp del]

definition slices_Map :: "'o \<Rightarrow> 'i list \<Rightarrow> ('i \<Rightarrow> 'o) \<Rightarrow> 'o list" where
  "slices_Map zero input transform =
     Map_loop transform input 0 (replicate (length input) zero)"

section \<open>MapE\<close>

function MapE_loop :: "('i \<Rightarrow> 'o result) \<Rightarrow> 'i list \<Rightarrow> nat \<Rightarrow> 'o list \<Rightarrow> 'o list result" where
  "MapE_loop transform input i result =
     (if i < length result
      then (case transform (input ! i) of
              Inl err \<Rightarrow> Inl err
            | Inr entry \<Rightarrow> MapE_loop transform input (Suc i) (result[i := entry]))
      else Inr result)"
  by pat_completeness auto
termination
  by (relation "measure (\<lambda>(f, xs, i, r). length r - i)") auto

declare MapE_loop.simps [simp del]

definition MapE :: "'o \<Rightarrow> 'i list \<Rightarrow> ('i \<Rightarrow> 'o result) \<Rightarrow> 'o list result" where
  "MapE zero input transform = MapE_loop transform input 0 (replicate (length input) zero)"

section \<open>FilterMap\<close>

fun FilterMap_loop :: "('i \<Rightarrow> 'o option) \<Rightarrow> 'i list \<Rightarrow> 'o list \<Rightarrow> 'o list" where
  "FilterMap_loop transform [] result = result"
| "FilterMap_loop transform (x # xs) result =
     (case transform x of
        Some entry \<Rightarrow> FilterMap_loop transform xs (result @ [entry])
      | None \<Rightarrow> FilterMap_loop transform xs result)"

definition FilterMap :: "'i list \<Rightarrow> ('i \<Rightarrow> 'o option) \<Rightarrow> 'o list" where
  "FilterMap input transform = FilterMap_loop transform input []"

section \<open>Reference definitions\<close>

text \<open>The monadic map over results: the outputs in order, or the first error.\<close>

fun traverse :: "('i \<Rightarrow> 'o result) \<Rightarrow> 'i list \<Rightarrow> 'o list result" where
  "traverse f [] = Inr []"
| "traverse f (x # xs) =
     (case f x of
        Inl e \<Rightarrow> Inl e
      | Inr y \<Rightarrow> (case traverse f xs of Inl e \<Rightarrow> Inl e | Inr ys \<Rightarrow> Inr (y # ys)))"

lemma traverse_Inr_iff: "traverse f xs = Inr ys \<longleftrightarrow> map f xs = map Inr ys"
proof (induction xs arbitrary: ys)
  case Nil
  then show ?case by auto
next
  case (Cons x xs)
  then show ?case
    by (cases "f x"; cases "traverse f xs") (auto simp: Cons_eq_map_conv map_eq_Cons_conv)
qed

lemma traverse_all_Inr: "(\<And>x. x \<in> set xs \<Longrightarrow> f x = Inr (g x)) \<Longrightarrow> traverse f xs = Inr (map g xs)"
  by (induction xs) simp_all

lemma traverse_Inl_iff:
  "traverse f xs = Inl e \<longleftrightarrow>
   (\<exists>as x bs ys. xs = as @ x # bs \<and> map f as = map Inr ys \<and> f x = Inl e)"
proof (induction xs)
  case Nil
  then show ?case by simp
next
  case (Cons a xs)
  show ?case
  proof (cases "f a")
    case (Inl e')
    then show ?thesis
      by (auto simp: Cons_eq_append_conv map_eq_Cons_conv intro: exI [of _ "[]"])
  next
    case (Inr y)
    have "traverse f (a # xs) = Inl e \<longleftrightarrow> traverse f xs = Inl e"
      using Inr by (auto split: sum.splits)
    also have "\<dots> \<longleftrightarrow> (\<exists>as x bs ys. a # xs = as @ x # bs \<and> map f as = map Inr ys \<and> f x = Inl e)"
      (is "_ \<longleftrightarrow> ?R")
    proof
      assume "traverse f xs = Inl e"
      then obtain as x bs ys where "xs = as @ x # bs" "map f as = map Inr ys" "f x = Inl e"
        using Cons.IH by blast
      with Inr have "a # xs = (a # as) @ x # bs \<and> map f (a # as) = map Inr (y # ys) \<and> f x = Inl e"
        by simp
      then show ?R by blast
    next
      assume ?R
      then obtain as x bs ys where *: "a # xs = as @ x # bs" "map f as = map Inr ys" "f x = Inl e"
        by blast
      with Inr obtain as' where "as = a # as'" by (cases as) auto
      with * have "xs = as' @ x # bs \<and> map f as' = map Inr (tl ys) \<and> f x = Inl e"
        by (cases ys) auto
      then show "traverse f xs = Inl e" using Cons.IH by blast
    qed
    finally show ?thesis .
  qed
qed

section \<open>The loops compute the references\<close>

lemma Map_loop_eq:
  "length result = length input \<Longrightarrow> i \<le> length input \<Longrightarrow>
   Map_loop f input i result = take i result @ map f (drop i input)"
proof (induction f input i result rule: Map_loop.induct)
  case (1 f input i result)
  show ?case
  proof (cases "i < length result")
    case True
    with 1 show ?thesis
      by (subst Map_loop.simps) (simp add: take_Suc_conv_app_nth Cons_nth_drop_Suc [symmetric])
  next
    case False
    with 1 show ?thesis by (subst Map_loop.simps) simp
  qed
qed

lemma MapE_loop_eq:
  "length result = length input \<Longrightarrow> i \<le> length input \<Longrightarrow>
   MapE_loop f input i result =
   (case traverse f (drop i input) of Inl e \<Rightarrow> Inl e | Inr ys \<Rightarrow> Inr (take i result @ ys))"
proof (induction f input i result rule: MapE_loop.induct)
  case (1 f input i result)
  show ?case
  proof (cases "i < length result")
    case True
    with 1 show ?thesis
      by (subst MapE_loop.simps)
        (auto simp: take_Suc_conv_app_nth Cons_nth_drop_Suc [symmetric] split: sum.split)
  next
    case False
    with 1 show ?thesis by (subst MapE_loop.simps) simp
  qed
qed

lemma slices_Map_eq: "slices_Map z xs f = map f xs"
  by (simp add: slices_Map_def Map_loop_eq)

lemma MapE_eq: "MapE z xs f = traverse f xs"
  by (simp add: MapE_def MapE_loop_eq split: sum.split)

lemma FilterMap_loop_eq: "FilterMap_loop f xs acc = acc @ List.map_filter f xs"
  by (induction f xs acc rule: FilterMap_loop.induct)
    (auto simp: List.map_filter_simps split: option.split)

lemma FilterMap_eq: "FilterMap xs f = List.map_filter f xs"
  by (simp add: FilterMap_def FilterMap_loop_eq)

text \<open>The slice loops are their functional specifications: \<open>Map\<close> is the ordinary map,
  \<open>FilterMap\<close> keeps the accepted outputs in order, and \<open>MapE\<close> returns exactly the outputs of all
  elements, or the error of the first failing element with every element before it accepted;
  none of them depends on the zero values the slice is made with.\<close>

theorem slice_loops_correct:
  "slices_Map z xs g = map g xs \<and>
   FilterMap xs h = List.map_filter h xs \<and>
   (MapE z xs f = Inr ys \<longleftrightarrow> map f xs = map Inr ys) \<and>
   (MapE z xs f = Inl e \<longleftrightarrow>
      (\<exists>as x bs vs. xs = as @ x # bs \<and> map f as = map Inr vs \<and> f x = Inl e))"
  by (simp only: slices_Map_eq FilterMap_eq MapE_eq traverse_Inr_iff traverse_Inl_iff)

end
