(* ===== verification/Ident.thy ===== *)
theory Ident
  imports Errors "HOL-Library.Word"
begin

text \<open>
  \<open>pkg/id/id.go\<close>: user identifiers. An \<open>ID\<close> is a UUID, sixteen bytes, here a 128-bit word. The
  operations of \<open>github.com/google/uuid\<close> are the parameter \<open>uuid_lib\<close>; \<open>uuid_laws\<close> states what
  its documentation promises, and \<open>ref_uuid\<close> is an instance that satisfies it.
\<close>

section \<open>The UUID library\<close>

type_synonym uuid = "128 word"

record uuid_lib =
  uuid_String :: "uuid \<Rightarrow> string"
  uuid_Parse :: "string \<Rightarrow> uuid result"

text \<open>
  Documented behaviour: \<open>String\<close> is the 36 byte canonical form, \<open>Parse\<close> (and \<open>ParseBytes\<close>) reads
  it back, and of a 38 byte input only the middle 36 bytes are examined.
\<close>

definition uuid_laws :: "uuid_lib \<Rightarrow> bool" where
  "uuid_laws L \<longleftrightarrow>
     (\<forall>u. length (uuid_String L u) = 36) \<and>
     (\<forall>u. uuid_Parse L (uuid_String L u) = Inr u) \<and>
     (\<forall>u a b. uuid_Parse L (a # uuid_String L u @ [b]) = Inr u)"

lemma uuid_lawsD:
  assumes "uuid_laws L"
  shows "length (uuid_String L u) = 36"
    and "uuid_Parse L (uuid_String L u) = Inr u"
    and "uuid_Parse L (a # uuid_String L u @ [b]) = Inr u"
  using assms by (simp_all add: uuid_laws_def)

section \<open>ID\<close>

datatype ID = ID (uuid_of: uuid)

text \<open>Identifiers are ordered by their value, which gives maps keyed by them a listing.\<close>

instantiation ID :: linorder
begin

definition less_eq_ID :: "ID \<Rightarrow> ID \<Rightarrow> bool" where
  "less_eq_ID a b \<longleftrightarrow> uuid_of a \<le> uuid_of b"

definition less_ID :: "ID \<Rightarrow> ID \<Rightarrow> bool" where
  "less_ID a b \<longleftrightarrow> uuid_of a < uuid_of b"

instance
  by standard (auto simp: less_eq_ID_def less_ID_def ID.expand)

end

text \<open>\<open>NewID\<close> wraps the random value that \<open>uuid.New\<close> returns, which is its argument here.\<close>

definition NewID :: "uuid \<Rightarrow> ID" where
  "NewID random = ID random"

definition FromString :: "uuid_lib \<Rightarrow> string \<Rightarrow> ID go" where
  "FromString L str =
     (case uuid_Parse L str of
        Inl e \<Rightarrow> Panic (Error_text e)
      | Inr u \<Rightarrow> Ret (ID u))"

definition ID_String :: "uuid_lib \<Rightarrow> ID \<Rightarrow> string" where
  "ID_String L i = uuid_String L (uuid_of i)"

text \<open>\<open>copy(dst[lo:hi], src)\<close>: as many bytes as both sides hold.\<close>

definition go_copy :: "'a list \<Rightarrow> nat \<Rightarrow> nat \<Rightarrow> 'a list \<Rightarrow> 'a list" where
  "go_copy dst lo hi src =
     (let n = min (hi - lo) (length src) in take lo dst @ take n src @ drop (lo + n) dst)"

definition ID_MarshalJSON :: "uuid_lib \<Rightarrow> ID \<Rightarrow> string" where
  "ID_MarshalJSON L i =
     (let str = ID_String L i;
          buff = replicate (length str + 2) (CHR 0x00);
          buff = buff[0 := CHR 0x22];
          buff = go_copy buff 1 (length buff - 1) str
      in buff[length buff - 1 := CHR 0x22])"

definition ID_UnmarshalJSON :: "uuid_lib \<Rightarrow> string \<Rightarrow> ID result" where
  "ID_UnmarshalJSON L data =
     (case uuid_Parse L data of Inl e \<Rightarrow> Inl e | Inr u \<Rightarrow> Inr (ID u))"

subsection \<open>Facts\<close>

lemma replicate_ends: "replicate (n + 2) x = x # replicate n x @ [x]"
  by (simp add: replicate_append_same)

lemma ID_MarshalJSON_eq: "ID_MarshalJSON L i = CHR 0x22 # ID_String L i @ [CHR 0x22]"
proof -
  let ?s = "ID_String L i"
  have copied: "go_copy (CHR 0x22 # replicate (length ?s) z @ [z]) 1 (Suc (length ?s)) ?s =
      CHR 0x22 # ?s @ [z]" for z
    by (simp add: go_copy_def Let_def)
  have "(CHR 0x22 # ?s @ [z])[Suc (length ?s) := CHR 0x22] = CHR 0x22 # ?s @ [CHR 0x22]" for z
    by simp
  with copied show ?thesis
    by (simp add: ID_MarshalJSON_def Let_def replicate_ends del: replicate_Suc
        add_2_eq_Suc add_2_eq_Suc')
qed

lemma ID_UnmarshalJSON_MarshalJSON:
  "uuid_laws L \<Longrightarrow> ID_UnmarshalJSON L (ID_MarshalJSON L i) = Inr i"
  by (simp add: ID_MarshalJSON_eq ID_UnmarshalJSON_def ID_String_def uuid_lawsD)

lemma FromString_String: "uuid_laws L \<Longrightarrow> FromString L (ID_String L i) = Ret i"
  by (simp add: FromString_def ID_String_def uuid_lawsD)

lemma ID_String_inj: "uuid_laws L \<Longrightarrow> ID_String L i = ID_String L j \<longleftrightarrow> i = j"
  by (metis FromString_String go.inject(1))

lemma FromString_eq_Ret_iff: "FromString L s = Ret i \<longleftrightarrow> uuid_Parse L s = Inr (uuid_of i)"
  by (cases i) (simp add: FromString_def split: sum.split)

section \<open>An instance of the library\<close>

text \<open>
  The canonical textual form computed on the 128-bit value: 32 hexadecimal digits with dashes
  after 8, 12, 16 and 20 of them. Reading accepts the four documented lengths (canonical,
  canonical in two delimiting bytes, \<open>urn:uuid:\<close> prefix, 32 bare digits).
\<close>

fun hex_digits :: "nat \<Rightarrow> nat \<Rightarrow> nat list" where
  "hex_digits 0 n = []"
| "hex_digits (Suc k) n = hex_digits k (n div 16) @ [n mod 16]"

definition unhex :: "nat list \<Rightarrow> nat" where
  "unhex ds = foldl (\<lambda>a d. a * 16 + d) 0 ds"

definition hex_char :: "nat \<Rightarrow> char" where
  "hex_char d = (if d < 10 then char_of (48 + d) else char_of (87 + d))"

definition hex_val :: "char \<Rightarrow> nat option" where
  "hex_val c =
     (let n = (of_char c :: nat) in
      if 48 \<le> n \<and> n \<le> 57 then Some (n - 48)
      else if 97 \<le> n \<and> n \<le> 102 then Some (n - 87)
      else if 65 \<le> n \<and> n \<le> 70 then Some (n - 55)
      else None)"

definition dashed :: "string \<Rightarrow> string" where
  "dashed h = take 8 h @ ''-'' @ take 4 (drop 8 h) @ ''-'' @ take 4 (drop 12 h) @ ''-'' @
     take 4 (drop 16 h) @ ''-'' @ drop 20 h"

definition undashed :: "string \<Rightarrow> string option" where
  "undashed s =
     (if length s = 36 \<and> s ! 8 = CHR ''-'' \<and> s ! 13 = CHR ''-'' \<and> s ! 18 = CHR ''-'' \<and> s ! 23 = CHR ''-''
      then Some (take 8 s @ take 4 (drop 9 s) @ take 4 (drop 14 s) @ take 4 (drop 19 s) @ drop 24 s)
      else None)"

fun hex_vals :: "string \<Rightarrow> nat list option" where
  "hex_vals [] = Some []"
| "hex_vals (c # cs) =
     (case hex_val c of None \<Rightarrow> None
      | Some v \<Rightarrow> (case hex_vals cs of None \<Rightarrow> None | Some vs \<Rightarrow> Some (v # vs)))"

definition ref_uuid_String :: "uuid \<Rightarrow> string" where
  "ref_uuid_String u = dashed (map hex_char (hex_digits 32 (unat u)))"

definition ref_uuid_Parse :: "string \<Rightarrow> uuid result" where
  "ref_uuid_Parse s =
     (let body =
        (if length s = 36 then undashed s
         else if length s = 38 then undashed (take 36 (drop 1 s))
         else if length s = 45 then undashed (drop 9 s)
         else if length s = 32 then Some s
         else None)
      in case Option.bind body hex_vals of
           None \<Rightarrow> Inl (Opaque ''invalid UUID format'')
         | Some ds \<Rightarrow> Inr (of_nat (unhex ds)))"

definition ref_uuid :: uuid_lib where
  "ref_uuid = \<lparr>uuid_String = ref_uuid_String, uuid_Parse = ref_uuid_Parse\<rparr>"

lemma length_hex_digits [simp]: "length (hex_digits k n) = k"
  by (induction k arbitrary: n) simp_all

lemma hex_digits_less: "d \<in> set (hex_digits k n) \<Longrightarrow> d < 16"
  by (induction k arbitrary: n) auto

lemma unhex_hex_digits: "unhex (hex_digits k n) = n mod 16 ^ k"
proof (induction k arbitrary: n)
  case 0
  then show ?case by (simp add: unhex_def)
next
  case (Suc k)
  have "unhex (hex_digits (Suc k) n) = unhex (hex_digits k (n div 16)) * 16 + n mod 16"
    by (simp add: unhex_def)
  also have "\<dots> = n mod 16 ^ Suc k"
    by (simp add: Suc.IH mod_mult2_eq mult.commute)
  finally show ?case .
qed

lemma hex_val_hex_char: "d < 16 \<Longrightarrow> hex_val (hex_char d) = Some d"
  by (auto simp: hex_val_def hex_char_def Let_def)

lemma hex_vals_map: "(\<And>d. d \<in> set ds \<Longrightarrow> d < 16) \<Longrightarrow> hex_vals (map hex_char ds) = Some ds"
  by (induction ds) (simp_all add: hex_val_hex_char)

lemma length_dashed: "length h = 32 \<Longrightarrow> length (dashed h) = 36"
  by (simp add: dashed_def)

lemma undashed_dashed:
  assumes "length h = 32"
  shows "undashed (dashed h) = Some h"
proof -
  define a b c d e where parts: "a = take 8 h" "b = take 4 (drop 8 h)" "c = take 4 (drop 12 h)"
    "d = take 4 (drop 16 h)" "e = drop 20 h"
  have len: "length a = 8" "length b = 4" "length c = 4" "length d = 4" "length e = 12"
    using assms by (simp_all add: parts)
  have h: "h = a @ b @ c @ d @ e"
    using append_take_drop_id [of 8 h] append_take_drop_id [of 4 "drop 8 h"]
      append_take_drop_id [of 4 "drop 12 h"] append_take_drop_id [of 4 "drop 16 h"]
    by (simp add: parts)
  have "dashed h = a @ ''-'' @ b @ ''-'' @ c @ ''-'' @ d @ ''-'' @ e"
    by (simp add: dashed_def parts)
  then show ?thesis
    by (simp add: undashed_def h len nth_append)
qed

lemma ref_uuid_laws: "uuid_laws ref_uuid"
proof -
  have len: "length (ref_uuid_String u) = 36" for u
    by (simp add: ref_uuid_String_def length_dashed)
  have "(16::nat) ^ 32 = 2 ^ LENGTH(128)" by simp
  then have "unat u mod 16 ^ 32 = unat u" for u :: uuid
    by (metis mod_less unsigned_less)
  then have body: "Option.bind (undashed (ref_uuid_String u)) hex_vals = Some (hex_digits 32 (unat u)) \<and>
      (of_nat (unhex (hex_digits 32 (unat u))) :: uuid) = u" for u
    by (simp add: ref_uuid_String_def undashed_dashed hex_vals_map hex_digits_less unhex_hex_digits
        del: hex_digits.simps)
  show ?thesis
    using len body by (simp add: uuid_laws_def ref_uuid_def ref_uuid_Parse_def)
qed

section \<open>Properties\<close>

text \<open>C4: The JSON encoding of an identifier is its canonical text between two quotes, and decoding
  it gives the identifier back; parsing the text of an identifier never panics and gives it back.\<close>

theorem ID_json_roundtrip:
  assumes "uuid_laws L"
  shows "ID_MarshalJSON L i = ''\"'' @ ID_String L i @ ''\"'' \<and>
    ID_UnmarshalJSON L (ID_MarshalJSON L i) = Inr i \<and>
    FromString L (ID_String L i) = Ret i"
  using assms by (simp add: ID_MarshalJSON_eq ID_UnmarshalJSON_MarshalJSON [unfolded ID_MarshalJSON_eq]
      FromString_String)

theorem ID_json_roundtrip_witness:
  "ID_UnmarshalJSON ref_uuid (ID_MarshalJSON ref_uuid (ID 0xe8eeb5232cc94f24b8780ad97aef5c90)) =
     Inr (ID 0xe8eeb5232cc94f24b8780ad97aef5c90)"
  using ID_json_roundtrip [OF ref_uuid_laws] by blast

end
