(* ===== verification/Json.thy ===== *)
theory Json
  imports Ident
begin

text \<open>
  The part of Go's \<open>encoding/json\<close> that the program's messages go through: string escaping as
  \<open>json.Marshal\<close> does it (HTML-safe, UTF-8 aware), the scanner, unescaping, and the decoding of an
  object into the fields of a struct (key matching, \<open>null\<close>, type mismatches, duplicate keys).
  The tree keeps the raw text of string and number literals, because a field with an
  \<open>UnmarshalJSON\<close> method is handed that raw text. The main fact is that what \<open>Marshal\<close> writes is
  read back: \<open>parse_json_render\<close> for trees and \<open>json_unescape_escape\<close> for strings.
\<close>

section \<open>UTF-8\<close>

abbreviation byte_val :: "char \<Rightarrow> nat" where
  "byte_val c \<equiv> of_char c"

definition is_cont :: "char \<Rightarrow> bool" where
  "is_cont c \<longleftrightarrow> 0x80 \<le> byte_val c \<and> byte_val c \<le> 0xBF"

text \<open>
  Length of the sequence a leading byte announces (0: not a leading byte) with the range allowed for
  the second byte, as the decoder of \<open>unicode/utf8\<close> tabulates them.
\<close>

definition utf8_first :: "nat \<Rightarrow> nat \<times> nat \<times> nat" where
  "utf8_first b =
     (if b < 0x80 then (1, 0, 0)
      else if b < 0xC2 then (0, 0, 0)
      else if b < 0xE0 then (2, 0x80, 0xBF)
      else if b = 0xE0 then (3, 0xA0, 0xBF)
      else if b = 0xED then (3, 0x80, 0x9F)
      else if b < 0xF0 then (3, 0x80, 0xBF)
      else if b = 0xF0 then (4, 0x90, 0xBF)
      else if b < 0xF4 then (4, 0x80, 0xBF)
      else if b = 0xF4 then (4, 0x80, 0x8F)
      else (0, 0, 0))"

text \<open>The length of the well-formed UTF-8 sequence at the head of a string; 0 if there is none.\<close>

fun utf8_len :: "string \<Rightarrow> nat" where
  "utf8_len [] = 0"
| "utf8_len (c # cs) =
     (let (n, lo, hi) = utf8_first (byte_val c) in
      if n \<le> 1 then n
      else if n \<le> Suc (length cs) \<and> lo \<le> byte_val (hd cs) \<and> byte_val (hd cs) \<le> hi \<and>
              list_all is_cont (take (n - 2) (tl cs))
      then n else 0)"

declare utf8_len.simps(2) [simp del]

lemma utf8_len_first:
  "utf8_len (c # cs) = 0 \<or>
   utf8_len (c # cs) = fst (utf8_first (byte_val c)) \<and> utf8_len (c # cs) \<le> Suc (length cs)"
  by (auto simp: utf8_len.simps split: prod.splits)

lemma utf8_len_le: "utf8_len s \<le> length s"
proof (cases s)
  case (Cons c cs)
  then show ?thesis using utf8_len_first [of c cs] by auto
qed simp

lemma utf8_len_append:
  assumes "utf8_len s \<noteq> 0"
  shows "utf8_len (s @ t) = utf8_len s"
proof (cases s)
  case (Cons c cs)
  with assms show ?thesis
    by (cases cs) (auto simp: utf8_len.simps split: prod.splits if_splits)
qed (use assms in simp)

lemma utf8_len_take:
  assumes "utf8_len s \<noteq> 0"
  shows "utf8_len (take (utf8_len s) s) = utf8_len s"
proof (cases s)
  case (Cons c cs)
  obtain n lo hi where f: "utf8_first (byte_val c) = (n, lo, hi)" by (metis prod_cases3)
  have n: "utf8_len (c # cs) = n" and le: "n \<le> Suc (length cs)"
    using assms Cons f utf8_len_first [of c cs] by auto
  obtain m where m: "n = Suc m" using assms Cons n by (cases n) auto
  have "n \<le> 1 \<or> (lo \<le> byte_val (hd cs) \<and> byte_val (hd cs) \<le> hi \<and>
      list_all is_cont (take (n - 2) (tl cs)))"
    using assms Cons f by (auto simp: utf8_len.simps split: if_splits)
  then show ?thesis
    using le f unfolding Cons n m
    by (cases cs; cases m) (auto simp: utf8_len.simps take_tl split: if_splits)
qed (use assms in simp)

function valid_utf8 :: "string \<Rightarrow> bool" where
  "valid_utf8 s \<longleftrightarrow>
     (if s = [] then True
      else if utf8_len s = 0 then False
      else valid_utf8 (drop (utf8_len s) s))"
  by pat_completeness auto
termination
  by (relation "measure length") auto

declare valid_utf8.simps [simp del]

lemma valid_utf8_Nil [simp]: "valid_utf8 []"
  by (subst valid_utf8.simps) simp

lemma utf8_len_ascii: "byte_val c < 0x80 \<Longrightarrow> utf8_len (c # cs) = 1"
  by (simp add: utf8_len.simps utf8_first_def)

lemma valid_utf8_ascii: "(\<And>c. c \<in> set s \<Longrightarrow> byte_val c < 0x80) \<Longrightarrow> valid_utf8 s"
proof (induction s)
  case Nil
  then show ?case by simp
next
  case (Cons c s)
  then show ?case by (subst valid_utf8.simps) (simp add: utf8_len_ascii)
qed

definition utf8_encode :: "nat \<Rightarrow> string" where
  "utf8_encode r =
     (if r < 0x80 then [char_of r]
      else if r < 0x800 then [char_of (0xC0 + r div 64), char_of (0x80 + r mod 64)]
      else if r < 0x10000 then
        [char_of (0xE0 + r div 4096), char_of (0x80 + r div 64 mod 64), char_of (0x80 + r mod 64)]
      else
        [char_of (0xF0 + r div 262144), char_of (0x80 + r div 4096 mod 64),
         char_of (0x80 + r div 64 mod 64), char_of (0x80 + r mod 64)])"

text \<open>U+FFFD, which replaces what is not valid UTF-8.\<close>

definition replacement :: string where
  "replacement = utf8_encode 0xFFFD"

section \<open>String literals\<close>

abbreviation dquote :: char where "dquote \<equiv> CHR 0x22"
abbreviation backslash :: char where "backslash \<equiv> CHR 0x5C"

text \<open>\<open>Marshal\<close> escapes the quote, the backslash, control characters and \<open><\<close>, \<open>>\<close>, \<open>&\<close>.\<close>

definition escape_ascii :: "char \<Rightarrow> string" where
  "escape_ascii c =
     (let b = byte_val c in
      if c = dquote \<or> c = backslash then [backslash, c]
      else if b = 10 then [backslash, CHR ''n'']
      else if b = 13 then [backslash, CHR ''r'']
      else if b = 9 then [backslash, CHR ''t'']
      else if b < 0x20 \<or> c = CHR ''<'' \<or> c = CHR ''>'' \<or> c = CHR ''&''
      then [backslash, CHR ''u'', CHR ''0'', CHR ''0'', hex_char (b div 16), hex_char (b mod 16)]
      else [c])"

definition is_line_sep :: "string \<Rightarrow> bool" where
  "is_line_sep s \<longleftrightarrow> map byte_val (take 3 s) = [0xE2, 0x80, 0xA8] \<or> map byte_val (take 3 s) = [0xE2, 0x80, 0xA9]"

function json_escape :: "string \<Rightarrow> string" where
  "json_escape [] = []"
| "json_escape (c # cs) =
     (let s = c # cs; n = utf8_len s in
      if byte_val c < 0x80 then escape_ascii c @ json_escape cs
      else if n = 0 then [backslash] @ ''ufffd'' @ json_escape cs
      else if is_line_sep s
      then [backslash] @ ''u202'' @ [hex_char (byte_val (s ! 2) mod 16)] @ json_escape (drop n s)
      else take n s @ json_escape (drop n s))"
  by pat_completeness auto
termination
  by (relation "measure length") auto

text \<open>Four hexadecimal digits of a \<open>\u\<close> escape, and what follows them.\<close>

fun hex4 :: "string \<Rightarrow> (nat \<times> string) option" where
  "hex4 (a # b # c # d # r) =
     (case (hex_val a, hex_val b, hex_val c, hex_val d) of
        (Some w, Some x, Some y, Some z) \<Rightarrow> Some (((w * 16 + x) * 16 + y) * 16 + z, r)
      | _ \<Rightarrow> None)"
| "hex4 _ = None"

lemma hex4_length: "hex4 s = Some (n, r) \<Longrightarrow> length r < length s"
  by (induction s rule: hex4.induct) (auto split: option.splits)

fun after_u :: "string \<Rightarrow> (nat \<times> string) option" where
  "after_u (a # b # r) = (if a = backslash \<and> b = CHR ''u'' then hex4 r else None)"
| "after_u _ = None"

lemma after_u_length: "after_u s = Some (n, r) \<Longrightarrow> length r < length s"
  by (induction s rule: after_u.induct) (auto split: if_splits dest: hex4_length)

definition one_char_escape :: "char \<Rightarrow> char option" where
  "one_char_escape e =
     (if e = dquote \<or> e = backslash \<or> e = CHR ''/'' then Some e
      else if e = CHR ''b'' then Some (CHR 0x08)
      else if e = CHR ''f'' then Some (CHR 0x0C)
      else if e = CHR ''n'' then Some (CHR 0x0A)
      else if e = CHR ''r'' then Some (CHR 0x0D)
      else if e = CHR ''t'' then Some (CHR 0x09)
      else None)"

text \<open>
  Reading the body of a string literal. \<open>None\<close>: not the body of a valid literal. Surrogate pairs
  are combined, lone surrogates and invalid UTF-8 become U+FFFD.
\<close>

function json_unescape :: "string \<Rightarrow> string option" where
  "json_unescape [] = Some []"
| "json_unescape (c # cs) =
     (if c = backslash then
        (case cs of
           [] \<Rightarrow> None
         | e # r \<Rightarrow>
             (case one_char_escape e of
                Some x \<Rightarrow> map_option (Cons x) (json_unescape r)
              | None \<Rightarrow>
                  if e = CHR ''u'' then
                    (case hex4 r of
                       None \<Rightarrow> None
                     | Some (u, r1) \<Rightarrow>
                         if 0xD800 \<le> u \<and> u < 0xE000 then
                           (case after_u r1 of
                              Some (u2, r2) \<Rightarrow>
                                if u < 0xDC00 \<and> 0xDC00 \<le> u2 \<and> u2 < 0xE000
                                then map_option (append (utf8_encode ((u - 0xD800) * 1024 + (u2 - 0xDC00) + 0x10000)))
                                       (json_unescape r2)
                                else map_option (append replacement) (json_unescape r1)
                            | None \<Rightarrow> map_option (append replacement) (json_unescape r1))
                         else map_option (append (utf8_encode u)) (json_unescape r1))
                  else None))
      else if c = dquote \<or> byte_val c < 0x20 then None
      else if byte_val c < 0x80 then map_option (Cons c) (json_unescape cs)
      else if utf8_len (c # cs) = 0 then map_option (append replacement) (json_unescape cs)
      else map_option (append (take (utf8_len (c # cs)) (c # cs)))
             (json_unescape (drop (utf8_len (c # cs)) (c # cs))))"
  by pat_completeness auto
termination
  by (relation "measure length") (auto dest!: hex4_length after_u_length)

declare json_escape.simps(2) [simp del] json_unescape.simps(2) [simp del]

text \<open>The scanner's view of a literal: the raw body up to the closing quote, and the rest.\<close>

fun cons_fst :: "'a list \<Rightarrow> ('a list \<times> 'b) option \<Rightarrow> ('a list \<times> 'b) option" where
  "cons_fst p None = None"
| "cons_fst p (Some (xs, r)) = Some (p @ xs, r)"

function scan_string :: "string \<Rightarrow> (string \<times> string) option" where
  "scan_string [] = None"
| "scan_string (c # cs) =
     (if c = dquote then Some ([], cs)
      else if c = backslash then
        (case cs of
           [] \<Rightarrow> None
         | e # r \<Rightarrow>
             if one_char_escape e \<noteq> None then cons_fst [c, e] (scan_string r)
             else if e = CHR ''u'' then
               (case hex4 r of
                  None \<Rightarrow> None
                | Some (_, r1) \<Rightarrow> cons_fst (c # e # take 4 r) (scan_string r1))
             else None)
      else if byte_val c < 0x20 then None
      else cons_fst [c] (scan_string cs))"
  by pat_completeness auto
termination
  by (relation "measure length") (auto dest!: hex4_length)

declare scan_string.simps(2) [simp del]

lemma cons_fst_eq_Some: "cons_fst p x = Some (ys, r) \<longleftrightarrow> (\<exists>xs. x = Some (xs, r) \<and> ys = p @ xs)"
  by (cases x) auto

lemma scan_string_length: "scan_string s = Some (b, r) \<Longrightarrow> length r < length s"
proof (induction s arbitrary: b rule: scan_string.induct)
  case 1
  then show ?case by simp
next
  case (2 c cs)
  then show ?case
    by (subst (asm) scan_string.simps)
      (fastforce split: if_splits list.splits option.splits prod.splits
        simp: cons_fst_eq_Some dest: hex4_length)
qed

section \<open>Literals are read back\<close>

lemma char_eqI: "byte_val c = byte_val d \<Longrightarrow> c = d"
  by (metis char_of_char)

lemma byte_val_less [simp]: "byte_val c < 256"
  by simp

lemma hex4_low_byte:
  "b < 256 \<Longrightarrow>
   hex4 (CHR ''0'' # CHR ''0'' # hex_char (b div 16) # hex_char (b mod 16) # r) = Some (b, r)"
  by (simp add: hex_val_hex_char) (simp add: hex_val_def Let_def)

lemma one_char_escape_u [simp]: "one_char_escape (CHR ''u'') = None"
  by (simp add: one_char_escape_def)

lemma json_unescape_u:
  "hex4 r = Some (u, r1) \<Longrightarrow> \<not> (0xD800 \<le> u \<and> u < 0xE000) \<Longrightarrow>
   json_unescape (backslash # CHR ''u'' # r) = map_option (append (utf8_encode u)) (json_unescape r1)"
  by (subst json_unescape.simps) auto

lemma json_unescape_escape_ascii:
  assumes "byte_val c < 0x80"
  shows "json_unescape (escape_ascii c @ r) = map_option (Cons c) (json_unescape r)"
proof -
  let ?b = "byte_val c"
  consider "c = dquote \<or> c = backslash" | "c = CHR 0x0A" | "c = CHR 0x0D" | "c = CHR 0x09"
    | (u) "c \<noteq> dquote" "c \<noteq> backslash" "?b \<noteq> 10" "?b \<noteq> 13" "?b \<noteq> 9"
          "?b < 0x20 \<or> c = CHR ''<'' \<or> c = CHR ''>'' \<or> c = CHR ''&''"
    | (plain) "c \<noteq> dquote" "c \<noteq> backslash" "0x20 \<le> ?b"
          "\<not> (c = CHR ''<'' \<or> c = CHR ''>'' \<or> c = CHR ''&'')"
  proof -
    have "?b = 10 \<Longrightarrow> c = CHR 0x0A" "?b = 13 \<Longrightarrow> c = CHR 0x0D" "?b = 9 \<Longrightarrow> c = CHR 0x09"
      by (rule char_eqI, simp)+
    then show ?thesis using that by (meson not_le)
  qed
  then show ?thesis
  proof cases
    case u
    then have "escape_ascii c = [backslash, CHR ''u'', CHR ''0'', CHR ''0'',
        hex_char (?b div 16), hex_char (?b mod 16)]"
      by (simp add: escape_ascii_def Let_def)
    moreover have "utf8_encode ?b = [c]"
      using assms by (simp add: utf8_encode_def)
    ultimately show ?thesis
      using assms json_unescape_u [OF hex4_low_byte [of ?b r]]
      by simp (simp add: fun_eq_iff cong: option.map_cong)
  next
    case plain
    then have "escape_ascii c = [c]"
      by (auto simp: escape_ascii_def Let_def)
    with plain assms show ?thesis
      by (simp add: json_unescape.simps)
  qed (auto simp: escape_ascii_def json_unescape.simps one_char_escape_def split: option.split)
qed

lemma utf8_first_multi:
  assumes "utf8_first b = (n, lo, hi)" and "1 < n"
  shows "0x80 \<le> b \<and> 0x80 \<le> lo \<and> n \<le> 4"
  using assms by (auto simp: utf8_first_def split: if_splits)

lemma utf8_len_bytes:
  assumes "1 < utf8_len s" and "c \<in> set (take (utf8_len s) s)"
  shows "0x80 \<le> byte_val c"
proof (cases s)
  case (Cons a as)
  obtain n lo hi where f: "utf8_first (byte_val a) = (n, lo, hi)" by (metis prod_cases3)
  have n: "utf8_len (a # as) = n" "n \<le> Suc (length as)"
    using assms(1) Cons f utf8_len_first [of a as] by auto
  have multi: "0x80 \<le> byte_val a" "0x80 \<le> lo"
    using utf8_first_multi [OF f] assms(1) Cons n by auto
  have cond: "lo \<le> byte_val (hd as)" "list_all is_cont (take (n - 2) (tl as))"
    using assms(1) Cons f by (auto simp: utf8_len.simps split: if_splits)
  obtain m where m: "n = Suc (Suc m)" using assms(1) Cons n by (cases n; cases "n - 1") auto
  then obtain a1 as1 where as: "as = a1 # as1" using n by (cases as) auto
  have "c \<in> {a, a1} \<union> set (take m as1)"
    using assms(2) Cons n m as by auto
  then show ?thesis
    using multi cond as m by (auto simp: list_all_iff is_cont_def)
qed (use assms in simp)

lemma json_unescape_multi:
  assumes "1 < utf8_len s"
  shows "json_unescape (take (utf8_len s) s @ r) =
    map_option (append (take (utf8_len s) s)) (json_unescape r)"
proof -
  let ?p = "take (utf8_len s) s"
  have len: "utf8_len (?p @ r) = utf8_len s"
    using assms utf8_len_append [of ?p r] utf8_len_take [of s] by simp
  have lp: "length ?p = utf8_len s" using utf8_len_le [of s] by simp
  obtain a p where p: "?p = a # p" using assms by (cases s; cases "utf8_len s") auto
  have "0x80 \<le> byte_val a" using utf8_len_bytes [OF assms, of a] p by simp
  then have "a \<noteq> backslash" "a \<noteq> dquote" "\<not> byte_val a < 0x20" "\<not> byte_val a < 0x80" by auto
  then have "json_unescape (a # p @ r) =
      map_option (append (take (utf8_len (a # p @ r)) (a # p @ r)))
        (json_unescape (drop (utf8_len (a # p @ r)) (a # p @ r)))"
    using len p assms by (subst json_unescape.simps) auto
  moreover have "take (utf8_len (a # p @ r)) (a # p @ r) = a # p"
    and "drop (utf8_len (a # p @ r)) (a # p @ r) = r"
    using len lp p by (metis append_Cons append_eq_conv_conj)+
  ultimately show ?thesis using p by simp
qed

lemma is_line_sep_cases:
  assumes "is_line_sep s"
  obtains x r where "s = CHR 0xE2 # CHR 0x80 # x # r" and "x = CHR 0xA8 \<or> x = CHR 0xA9"
proof -
  have "length (map byte_val (take 3 s)) = 3"
    using assms unfolding is_line_sep_def by (elim disjE) simp_all
  then obtain a b x r where s: "s = a # b # x # r"
    by (cases s; cases "tl s"; cases "tl (tl s)") (auto simp: min_def split: if_splits)
  with assms have "byte_val a = 0xE2" "byte_val b = 0x80" "byte_val x \<in> {0xA8, 0xA9}"
    by (auto simp: is_line_sep_def)
  then have "a = CHR 0xE2" "b = CHR 0x80" "x = CHR 0xA8 \<or> x = CHR 0xA9"
    using char_eqI [of a "CHR 0xE2"] char_eqI [of b "CHR 0x80"]
      char_eqI [of x "CHR 0xA8"] char_eqI [of x "CHR 0xA9"] by auto
  with s that show ?thesis by blast
qed

lemma json_unescape_line_sep:
  assumes "is_line_sep s"
  shows "json_unescape (backslash # ''u202'' @ hex_char (byte_val (s ! 2) mod 16) # r) =
    map_option (append (take (utf8_len s) s)) (json_unescape r)"
  using assms
proof (cases rule: is_line_sep_cases)
  case (1 x t)
  have n: "utf8_len s = 3"
    using 1 by (auto simp: utf8_len.simps utf8_first_def is_cont_def)
  have h: "hex4 (CHR ''2'' # CHR ''0'' # CHR ''2'' # hex_char d # q) = Some (0x2020 + d, q)"
    if "d < 16" for d q
    using that by (simp add: hex_val_hex_char) (simp add: hex_val_def Let_def)
  have "byte_val x mod 16 = 8 \<and> x = CHR 0xA8 \<or> byte_val x mod 16 = 9 \<and> x = CHR 0xA9"
    using 1(2) by auto
  moreover have "utf8_encode 0x2028 = [CHR 0xE2, CHR 0x80, CHR 0xA8]"
    "utf8_encode 0x2029 = [CHR 0xE2, CHR 0x80, CHR 0xA9]"
    by (simp_all add: utf8_encode_def char_of_eq_iff)
  ultimately show ?thesis
    using n 1 json_unescape_u [OF h [of 8 r]] json_unescape_u [OF h [of 9 r]] by auto
qed

lemma json_escape_steps:
  "byte_val c < 0x80 \<Longrightarrow> json_escape (c # cs) = escape_ascii c @ json_escape cs"
  "\<not> byte_val c < 0x80 \<Longrightarrow> utf8_len (c # cs) = 0 \<Longrightarrow>
     json_escape (c # cs) = backslash # ''ufffd'' @ json_escape cs"
  "\<not> byte_val c < 0x80 \<Longrightarrow> utf8_len (c # cs) \<noteq> 0 \<Longrightarrow> is_line_sep (c # cs) \<Longrightarrow>
     json_escape (c # cs) = backslash # ''u202'' @ hex_char (byte_val ((c # cs) ! 2) mod 16) #
       json_escape (drop (utf8_len (c # cs)) (c # cs))"
  "\<not> byte_val c < 0x80 \<Longrightarrow> utf8_len (c # cs) \<noteq> 0 \<Longrightarrow> \<not> is_line_sep (c # cs) \<Longrightarrow>
     json_escape (c # cs) = take (utf8_len (c # cs)) (c # cs) @
       json_escape (drop (utf8_len (c # cs)) (c # cs))"
  by (subst json_escape.simps, simp add: Let_def)+

lemma utf8_len_multi: "\<not> byte_val c < 0x80 \<Longrightarrow> utf8_len (c # cs) \<noteq> 0 \<Longrightarrow> 1 < utf8_len (c # cs)"
  using utf8_len_first [of c cs] by (auto simp: utf8_first_def split: if_splits)

lemma valid_utf8_step:
  "valid_utf8 (c # cs) \<Longrightarrow> utf8_len (c # cs) \<noteq> 0 \<and> valid_utf8 (drop (utf8_len (c # cs)) (c # cs))"
  by (subst (asm) valid_utf8.simps) (auto split: if_splits)

lemma json_unescape_escape: "valid_utf8 s \<Longrightarrow> json_unescape (json_escape s) = Some s"
proof (induction "length s" arbitrary: s rule: less_induct)
  case less
  show ?case
  proof (cases s)
    case Nil
    then show ?thesis by simp
  next
    case (Cons c cs)
    let ?n = "utf8_len s"
    have ne: "?n \<noteq> 0" and v: "valid_utf8 (drop ?n s)"
      using valid_utf8_step less.prems Cons by blast+
    then have IH: "json_unescape (json_escape (drop ?n s)) = Some (drop ?n s)"
      using less.hyps [of "drop ?n s"] Cons by simp
    consider "byte_val c < 0x80" | "\<not> byte_val c < 0x80" "is_line_sep s"
      | "\<not> byte_val c < 0x80" "\<not> is_line_sep s" by blast
    then show ?thesis
    proof cases
      case 1
      then show ?thesis
        using IH Cons by (simp add: json_escape_steps json_unescape_escape_ascii utf8_len_ascii)
    next
      case 2
      then show ?thesis
        using IH ne Cons json_unescape_line_sep [OF 2(2), of "json_escape (drop ?n s)"]
          json_escape_steps(3) [of c cs] by (metis append_take_drop_id option.simps(9))
    next
      case 3
      then show ?thesis
        using IH ne Cons json_unescape_multi [of s "json_escape (drop ?n s)"] utf8_len_multi [of c cs]
          json_escape_steps(4) [of c cs] by (metis append_take_drop_id option.simps(9))
    qed
  qed
qed

text \<open>An escaped body is scanned up to the closing quote, whatever bytes it came from.\<close>

definition scans :: "string \<Rightarrow> bool" where
  "scans b \<longleftrightarrow> (\<forall>r. scan_string (b @ dquote # r) = Some (b, r))"

lemma scans_Nil [simp]: "scans []"
  by (simp add: scans_def scan_string.simps)

lemma scans_plain: "c \<noteq> dquote \<Longrightarrow> c \<noteq> backslash \<Longrightarrow> 0x20 \<le> byte_val c \<Longrightarrow> scans b \<Longrightarrow> scans (c # b)"
  by (simp add: scans_def scan_string.simps)

lemma scans_high: "(\<And>c. c \<in> set p \<Longrightarrow> 0x80 \<le> byte_val c) \<Longrightarrow> scans b \<Longrightarrow> scans (p @ b)"
proof (induction p)
  case (Cons c p)
  then have "scans (p @ b)" and "0x80 \<le> byte_val c" by simp_all
  then show ?case by (auto intro!: scans_plain)
qed simp

lemma scans_short: "one_char_escape e \<noteq> None \<Longrightarrow> scans b \<Longrightarrow> scans (backslash # e # b)"
  by (auto simp: scans_def scan_string.simps)

lemma scans_u:
  assumes "hex_val w \<noteq> None" "hex_val x \<noteq> None" "hex_val y \<noteq> None" "hex_val z \<noteq> None" "scans b"
  shows "scans (backslash # CHR ''u'' # w # x # y # z # b)"
  using assms by (auto simp: scans_def scan_string.simps split: option.split)

lemma scans_escape_ascii:
  assumes "byte_val c < 0x80" and "scans b"
  shows "scans (escape_ascii c @ b)"
proof -
  have "hex_val (CHR ''0'') = Some 0" by (simp add: hex_val_def Let_def)
  moreover have "hex_val (hex_char (byte_val c div 16)) = Some (byte_val c div 16)"
    "hex_val (hex_char (byte_val c mod 16)) = Some (byte_val c mod 16)"
    using assms(1) by (simp_all add: hex_val_hex_char)
  ultimately show ?thesis
    using assms by (simp add: escape_ascii_def Let_def scans_short scans_u scans_plain
        one_char_escape_def del: One_nat_def)
qed

lemma scans_json_escape: "scans (json_escape s)"
proof (induction "length s" arbitrary: s rule: less_induct)
  case less
  show ?case
  proof (cases s)
    case (Cons c cs)
    let ?n = "utf8_len s"
    have IH1: "scans (json_escape cs)" using less Cons by simp
    have IH2: "?n \<noteq> 0 \<Longrightarrow> scans (json_escape (drop ?n s))" using less Cons by simp
    have hex: "hex_val (CHR ''u'') = None" "hex_val (CHR ''f'') \<noteq> None" "hex_val (CHR ''d'') \<noteq> None"
      "hex_val (CHR ''2'') \<noteq> None" "hex_val (CHR ''0'') \<noteq> None"
      by (simp_all add: hex_val_def Let_def)
    consider "byte_val c < 0x80" | "\<not> byte_val c < 0x80" "?n = 0"
      | "\<not> byte_val c < 0x80" "?n \<noteq> 0" "is_line_sep s"
      | "\<not> byte_val c < 0x80" "?n \<noteq> 0" "\<not> is_line_sep s" by blast
    then show ?thesis
    proof cases
      case 1
      then show ?thesis using IH1 Cons by (simp add: json_escape_steps scans_escape_ascii)
    next
      case 2
      then show ?thesis
        using IH1 Cons json_escape_steps(2) [of c cs] hex by (auto intro!: scans_u)
    next
      case 3
      then show ?thesis
        using IH2 Cons json_escape_steps(3) [of c cs] hex
          hex_val_hex_char [of "byte_val (s ! 2) mod 16"] by (auto intro!: scans_u)
    next
      case 4
      have "\<And>x. x \<in> set (take ?n s) \<Longrightarrow> 0x80 \<le> byte_val x"
        using utf8_len_bytes utf8_len_multi 4 Cons by blast
      then show ?thesis
        using 4 IH2 Cons json_escape_steps(4) [of c cs] scans_high by metis
    qed
  qed simp
qed

section \<open>JSON texts\<close>

text \<open>
  The syntax tree. String and number literals keep their raw text: the body of a string between
  the quotes, escapes included.
\<close>

datatype json =
    JNull
  | JBool bool
  | JNum string
  | JStr string
  | JArr "json list"
  | JObj "(string \<times> json) list"

fun render :: "json \<Rightarrow> string" and render_elems :: "json list \<Rightarrow> string"
  and render_members :: "(string \<times> json) list \<Rightarrow> string" where
  "render JNull = ''null''"
| "render (JBool b) = (if b then ''true'' else ''false'')"
| "render (JNum n) = n"
| "render (JStr b) = dquote # b @ [dquote]"
| "render (JArr vs) = CHR ''['' # (case vs of [] \<Rightarrow> '']'' | _ \<Rightarrow> render_elems vs)"
| "render (JObj ms) = CHR ''{'' # (case ms of [] \<Rightarrow> ''}'' | _ \<Rightarrow> render_members ms)"
| "render_elems [] = []"
| "render_elems (v # vs) = render v @ (case vs of [] \<Rightarrow> '']'' | _ \<Rightarrow> CHR '','' # render_elems vs)"
| "render_members [] = []"
| "render_members ((k, v) # ms) =
     dquote # k @ dquote # CHR '':'' # render v @
       (case ms of [] \<Rightarrow> ''}'' | _ \<Rightarrow> CHR '','' # render_members ms)"

definition is_ws :: "char \<Rightarrow> bool" where
  "is_ws c \<longleftrightarrow> c = CHR '' '' \<or> c = CHR 0x09 \<or> c = CHR 0x0A \<or> c = CHR 0x0D"

definition skip_ws :: "string \<Rightarrow> string" where
  "skip_ws s = dropWhile is_ws s"

definition is_digit :: "char \<Rightarrow> bool" where
  "is_digit c \<longleftrightarrow> 48 \<le> byte_val c \<and> byte_val c \<le> 57"

text \<open>A number literal: sign, integer part without leading zeros, fraction, exponent.\<close>

definition scan_digits :: "string \<Rightarrow> (string \<times> string) option" where
  "scan_digits s =
     (let d = takeWhile is_digit s in if d = [] then None else Some (d, dropWhile is_digit s))"

definition scan_sign :: "char list \<Rightarrow> string \<Rightarrow> string \<times> string" where
  "scan_sign signs s = (case s of c # r \<Rightarrow> if c \<in> set signs then ([c], r) else ([], s) | [] \<Rightarrow> ([], s))"

definition scan_int_part :: "string \<Rightarrow> (string \<times> string) option" where
  "scan_int_part s =
     (case s of c # r \<Rightarrow> if c = CHR ''0'' then Some ([c], r) else scan_digits s | [] \<Rightarrow> None)"

definition scan_frac :: "string \<Rightarrow> (string \<times> string) option" where
  "scan_frac s =
     (case s of c # r \<Rightarrow> if c = CHR ''.'' then cons_fst [c] (scan_digits r) else Some ([], s)
      | [] \<Rightarrow> Some ([], s))"

definition scan_exp :: "string \<Rightarrow> (string \<times> string) option" where
  "scan_exp s =
     (case s of
        c # r \<Rightarrow>
          if c = CHR ''e'' \<or> c = CHR ''E''
          then (case scan_sign ''+-'' r of (sg, r') \<Rightarrow> cons_fst (c # sg) (scan_digits r'))
          else Some ([], s)
      | [] \<Rightarrow> Some ([], s))"

definition scan_number :: "string \<Rightarrow> (string \<times> string) option" where
  "scan_number s =
     (case scan_sign ''-'' s of (sg, r) \<Rightarrow>
        (case scan_int_part r of None \<Rightarrow> None
         | Some (i, r1) \<Rightarrow>
             (case scan_frac r1 of None \<Rightarrow> None
              | Some (f, r2) \<Rightarrow> cons_fst (sg @ i @ f) (scan_exp r2))))"

definition scan_literal :: "string \<Rightarrow> json \<Rightarrow> string \<Rightarrow> (json \<times> string) option" where
  "scan_literal lit v s = (if prefix lit s then Some (v, drop (length lit) s) else None)"

text \<open>
  The parser. Each call spends one unit of fuel. Between a call of \<open>parse_value\<close> and the next one
  inside it lie at most two calls and at least one byte, so \<open>2 * length s + 2\<close> units are enough
  for any text (\<open>parse_fuel_enough\<close>). Nesting is limited to 10000 levels,
  as in the library.
\<close>

definition maxNestingDepth :: nat where "maxNestingDepth = 10000"

fun parse_value :: "nat \<Rightarrow> nat \<Rightarrow> string \<Rightarrow> (json \<times> string) option"
  and parse_elems :: "nat \<Rightarrow> nat \<Rightarrow> string \<Rightarrow> (json list \<times> string) option"
  and parse_members :: "nat \<Rightarrow> nat \<Rightarrow> string \<Rightarrow> ((string \<times> json) list \<times> string) option" where
  "parse_value 0 d s = None"
| "parse_value (Suc n) d s =
     (case skip_ws s of
        [] \<Rightarrow> None
      | c # r \<Rightarrow>
          if c = CHR ''{'' then
            (if maxNestingDepth \<le> d then None
             else if take 1 (skip_ws r) = ''}'' then Some (JObj [], tl (skip_ws r))
             else map_option (map_prod JObj id) (parse_members n (Suc d) r))
          else if c = CHR ''['' then
            (if maxNestingDepth \<le> d then None
             else if take 1 (skip_ws r) = '']'' then Some (JArr [], tl (skip_ws r))
             else map_option (map_prod JArr id) (parse_elems n (Suc d) r))
          else if c = dquote then map_option (map_prod JStr id) (scan_string r)
          else if c = CHR ''t'' then scan_literal ''true'' (JBool True) (c # r)
          else if c = CHR ''f'' then scan_literal ''false'' (JBool False) (c # r)
          else if c = CHR ''n'' then scan_literal ''null'' JNull (c # r)
          else map_option (map_prod JNum id) (scan_number (c # r)))"
| "parse_elems 0 d s = None"
| "parse_elems (Suc n) d s =
     (case parse_value n d s of
        None \<Rightarrow> None
      | Some (v, r) \<Rightarrow>
          (case skip_ws r of
             [] \<Rightarrow> None
           | c # r' \<Rightarrow>
               if c = CHR '','' then cons_fst [v] (parse_elems n d r')
               else if c = CHR '']'' then Some ([v], r')
               else None))"
| "parse_members 0 d s = None"
| "parse_members (Suc n) d s =
     (case skip_ws s of
        [] \<Rightarrow> None
      | q # r \<Rightarrow>
          if q \<noteq> dquote then None
          else (case scan_string r of
            None \<Rightarrow> None
          | Some (k, r1) \<Rightarrow>
              (case skip_ws r1 of
                 [] \<Rightarrow> None
               | c \<comment> \<open>colon\<close> # r2 \<Rightarrow>
                   if c \<noteq> CHR '':'' then None
                   else (case parse_value n d r2 of
                     None \<Rightarrow> None
                   | Some (v, r3) \<Rightarrow>
                       (case skip_ws r3 of
                          [] \<Rightarrow> None
                        | e # r4 \<Rightarrow>
                            if e = CHR '','' then cons_fst [(k, v)] (parse_members n d r4)
                            else if e = CHR ''}'' then Some ([(k, v)], r4)
                            else None)))))"

text \<open>\<open>Decoder.Decode\<close> reads one value and leaves the rest; \<open>Unmarshal\<close> wants nothing but
  white space after it.\<close>

definition json_parse_prefix :: "string \<Rightarrow> (json \<times> string) option" where
  "json_parse_prefix s = parse_value (2 * length s + 2) 0 s"

definition json_parse :: "string \<Rightarrow> json option" where
  "json_parse s =
     (case json_parse_prefix s of
        None \<Rightarrow> None
      | Some (v, r) \<Rightarrow> if skip_ws r = [] then Some v else None)"

subsection \<open>The fuel is enough\<close>

lemma length_skip_ws: "length (skip_ws s) \<le> length s"
  by (simp add: skip_ws_def length_dropWhile_le)

lemma skip_ws_length: "skip_ws s = c # r \<Longrightarrow> length r < length s"
  using length_skip_ws [of s] by simp

lemma scan_digits_length: "scan_digits s = Some (d, r) \<Longrightarrow> length r < length s"
proof -
  assume "scan_digits s = Some (d, r)"
  then have "takeWhile is_digit s \<noteq> []" "r = dropWhile is_digit s"
    by (auto simp: scan_digits_def Let_def split: if_splits)
  moreover have "length s = length (takeWhile is_digit s) + length (dropWhile is_digit s)"
    by (metis length_append takeWhile_dropWhile_id)
  ultimately show ?thesis by simp
qed

lemma scan_sign_length: "scan_sign g s = (sg, r) \<Longrightarrow> length r \<le> length s"
  by (auto simp: scan_sign_def split: list.splits if_splits)

lemma scan_int_part_length: "scan_int_part s = Some (d, r) \<Longrightarrow> length r < length s"
  by (auto simp: scan_int_part_def dest: scan_digits_length split: list.splits if_splits)

lemma scan_frac_length: "scan_frac s = Some (d, r) \<Longrightarrow> length r \<le> length s"
  by (fastforce simp: scan_frac_def cons_fst_eq_Some dest: scan_digits_length split: list.splits if_splits)

lemma scan_exp_length: "scan_exp s = Some (d, r) \<Longrightarrow> length r \<le> length s"
  by (fastforce simp: scan_exp_def cons_fst_eq_Some dest: scan_digits_length scan_sign_length
      split: list.splits if_splits prod.splits)

lemma scan_number_length: "scan_number s = Some (d, r) \<Longrightarrow> length r < length s"
proof -
  assume *: "scan_number s = Some (d, r)"
  obtain sg r0 where s: "scan_sign ''-'' s = (sg, r0)" by fastforce
  with * obtain i r1 f r2 e where "scan_int_part r0 = Some (i, r1)" "scan_frac r1 = Some (f, r2)"
      "scan_exp r2 = Some (e, r)"
    by (auto simp: scan_number_def cons_fst_eq_Some split: option.splits)
  with s show ?thesis
    using scan_sign_length scan_int_part_length scan_frac_length scan_exp_length by fastforce
qed

lemma scan_literal_length: "lit \<noteq> [] \<Longrightarrow> scan_literal lit v s = Some (w, r) \<Longrightarrow> length r < length s"
  by (auto simp: scan_literal_def prefix_def split: if_splits)

lemmas scan_lengths = scan_string_length scan_number_length scan_literal_length skip_ws_length

lemmas literal_lengths =
  scan_literal_length [of "''true''", simplified] scan_literal_length [of "''false''", simplified]
  scan_literal_length [of "''null''", simplified]

lemma parse_value_unfold:
  assumes "parse_value (Suc n) d s = Some (v, r)"
  shows "\<exists>c t. skip_ws s = c # t \<and>
     (length r < Suc (length t) \<or> (\<exists>ms. parse_members n (Suc d) t = Some (ms, r)) \<or>
      (\<exists>vs. parse_elems n (Suc d) t = Some (vs, r)))"
proof (cases "skip_ws s")
  case Nil
  with assms show ?thesis by simp
next
  case (Cons c t)
  have "length (tl (skip_ws t)) < Suc (length t)"
    using length_skip_ws [of t] by simp
  with assms Cons show ?thesis
    by (auto split: if_splits dest: literal_lengths dest!: scan_string_length scan_number_length)
qed

lemma parse_elems_unfold:
  "parse_elems (Suc n) d s = Some (vs, r) \<Longrightarrow>
   \<exists>v r1 c t. parse_value n d s = Some (v, r1) \<and> skip_ws r1 = c # t \<and>
     (r = t \<or> (\<exists>vs'. parse_elems n d t = Some (vs', r)))"
  by (auto split: option.splits list.splits if_splits simp: cons_fst_eq_Some)

lemma parse_members_unfold:
  "parse_members (Suc n) d s = Some (ms, r) \<Longrightarrow>
   \<exists>q t k r1 c r2 v r3 e r4. skip_ws s = q # t \<and> scan_string t = Some (k, r1) \<and>
     skip_ws r1 = c # r2 \<and> parse_value n d r2 = Some (v, r3) \<and> skip_ws r3 = e # r4 \<and>
     (r = r4 \<or> (\<exists>ms'. parse_members n d r4 = Some (ms', r)))"
  by (auto split: option.splits list.splits if_splits simp: cons_fst_eq_Some)

lemma parse_length:
  "parse_value n d s = Some (v, r) \<Longrightarrow> length r < length s"
  "parse_elems n d s = Some (vs, r) \<Longrightarrow> length r < length s"
  "parse_members n d s = Some (ms, r) \<Longrightarrow> length r < length s"
proof (induction n arbitrary: d s v r vs ms)
  case 0
  { case 1 then show ?case by simp next case 2 then show ?case by simp next case 3 then show ?case by simp }
next
  case (Suc n)
  { case 1
    then obtain c t where "skip_ws s = c # t"
      "length r < Suc (length t) \<or> (\<exists>ms. parse_members n (Suc d) t = Some (ms, r)) \<or>
       (\<exists>vs. parse_elems n (Suc d) t = Some (vs, r))"
      using parse_value_unfold by blast
    then show ?case using Suc.IH skip_ws_length [of s] by (fastforce dest: less_trans)
  next
    case 2
    then obtain w r1 c t where "parse_value n d s = Some (w, r1)" "skip_ws r1 = c # t"
      "r = t \<or> (\<exists>vs'. parse_elems n d t = Some (vs', r))"
      using parse_elems_unfold by blast
    then have "length r1 < length s" "length t < length r1" "r = t \<or> length r < length t"
      using Suc.IH(1,2) skip_ws_length by blast+
    then show ?case by auto
  next
    case 3
    from parse_members_unfold [OF 3] obtain q t k r1 c r2 w r3 e r4 where "skip_ws s = q # t" "scan_string t = Some (k, r1)"
      "skip_ws r1 = c # r2" "parse_value n d r2 = Some (w, r3)" "skip_ws r3 = e # r4"
      "r = r4 \<or> (\<exists>ms'. parse_members n d r4 = Some (ms', r))"
      by (elim exE conjE) (rule that)
    then have "length t < length s" "length r1 < length t" "length r2 < length r1"
      "length r3 < length r2" "length r4 < length r3" "r = r4 \<or> length r < length r4"
      using Suc.IH(1,3) skip_ws_length scan_string_length by blast+
    then show ?case by auto
  }
qed

lemma parse_fuel_enough:
  "2 * length s < n \<Longrightarrow> 2 * length s < m \<Longrightarrow> parse_value n d s = parse_value m d s"
  "2 * length s + 1 < n \<Longrightarrow> 2 * length s + 1 < m \<Longrightarrow> parse_elems n d s = parse_elems m d s"
  "2 * length s + 1 < n \<Longrightarrow> 2 * length s + 1 < m \<Longrightarrow> parse_members n d s = parse_members m d s"
proof (induction n arbitrary: d s m)
  case 0
  { case 1 then show ?case by simp next case 2 then show ?case by simp next case 3 then show ?case by simp }
next
  case (Suc n)
  { case 1
    then obtain m' where m: "m = Suc m'" by (cases m) auto
    show ?case
    proof (cases "skip_ws s")
      case ct: (Cons c t)
      have "parse_members n (Suc d) t = parse_members m' (Suc d) t"
        "parse_elems n (Suc d) t = parse_elems m' (Suc d) t"
        using Suc.IH(2,3) [of t m' "Suc d"] skip_ws_length [OF ct] 1 m by simp_all
      with ct show ?thesis by (simp add: m)
    qed (simp add: m)
  next
    case 2
    then obtain m' where m: "m = Suc m'" by (cases m) auto
    have v: "parse_value n d s = parse_value m' d s"
      using Suc.IH(1) [of s m' d] 2 m by simp
    show ?case
    proof (cases "parse_value m' d s")
      case vr: (Some wr)
      obtain w r where wr: "wr = (w, r)" by fastforce
      show ?thesis
      proof (cases "skip_ws r")
        case ct: (Cons c t)
        have "parse_elems n d t = parse_elems m' d t"
          using Suc.IH(2) [of t m' d] skip_ws_length [OF ct] parse_length(1) [OF vr [unfolded wr]] 2 m
          by simp
        with v vr wr ct show ?thesis by (simp add: m)
      qed (use v vr wr m in simp)
    qed (use v m in simp)
  next
    case 3
    then obtain m' where m: "m = Suc m'" by (cases m) auto
    show ?case
    proof (cases "skip_ws s")
      case qt: (Cons q t)
      show ?thesis
      proof (cases "scan_string t")
        case k: (Some kr)
        obtain k r1 where kr: "kr = (k, r1)" by fastforce
        show ?thesis
        proof (cases "skip_ws r1")
          case cr: (Cons c r2)
          have len: "length r2 + 3 \<le> length s"
            using skip_ws_length [OF qt] skip_ws_length [OF cr] scan_string_length k kr by fastforce
          then have v: "parse_value n d r2 = parse_value m' d r2"
            using Suc.IH(1) [of r2 m' d] 3 m by simp
          show ?thesis
          proof (cases "parse_value m' d r2")
            case wv: (Some wr)
            obtain w r3 where wr: "wr = (w, r3)" by fastforce
            show ?thesis
            proof (cases "skip_ws r3")
              case er: (Cons e r4)
              have "parse_members n d r4 = parse_members m' d r4"
                using Suc.IH(3) [of r4 m' d] skip_ws_length [OF er]
                  parse_length(1) [OF wv [unfolded wr]] len 3 m by simp
              with qt k kr cr v wv wr er show ?thesis by (simp add: m)
            qed (use qt k kr cr v wv wr m in simp)
          qed (use qt k kr cr v m in simp)
        qed (use qt k kr m in simp)
      qed (use qt m in simp)
    qed (use m in simp)
  }
qed

lemma parse_value_more_fuel:
  "2 * length s + 2 \<le> n \<Longrightarrow> parse_value n 0 s = json_parse_prefix s"
  unfolding json_parse_prefix_def by (rule parse_fuel_enough(1)) simp_all

subsection \<open>A rendered tree is read back\<close>

text \<open>
  Trees the program writes: no numbers, literals that scan, nesting within the limit (\<open>d\<close> is the
  depth at which the tree stands).
\<close>

fun wf_json :: "nat \<Rightarrow> json \<Rightarrow> bool" and wf_elems :: "nat \<Rightarrow> json list \<Rightarrow> bool"
  and wf_members :: "nat \<Rightarrow> (string \<times> json) list \<Rightarrow> bool" where
  "wf_json d JNull = True"
| "wf_json d (JBool b) = True"
| "wf_json d (JNum n) = False"
| "wf_json d (JStr b) = scans b"
| "wf_json d (JArr vs) = (d < maxNestingDepth \<and> wf_elems (Suc d) vs)"
| "wf_json d (JObj ms) = (d < maxNestingDepth \<and> wf_members (Suc d) ms)"
| "wf_elems d [] = True"
| "wf_elems d (v # vs) = (wf_json d v \<and> wf_elems d vs)"
| "wf_members d [] = True"
| "wf_members d ((k, v) # ms) = (scans k \<and> wf_json d v \<and> wf_members d ms)"

lemma skip_ws_Cons [simp]: "skip_ws (c # r) = (if is_ws c then skip_ws r else c # r)"
  by (simp add: skip_ws_def)

lemma skip_ws_Nil [simp]: "skip_ws [] = []"
  by (simp add: skip_ws_def)

lemma render_head:
  "wf_json d v \<Longrightarrow> \<exists>c r. render v = c # r \<and> \<not> is_ws c \<and> c \<noteq> CHR '']''"
  by (cases v) (auto simp: is_ws_def)

lemma scan_string_scans: "scans b \<Longrightarrow> scan_string (b @ dquote # r) = Some (b, r)"
  by (simp add: scans_def)

lemma parse_render:
  "wf_json d v \<Longrightarrow> length (render v) < n \<Longrightarrow> parse_value n d (render v @ rest) = Some (v, rest)"
  "wf_elems d vs \<Longrightarrow> vs \<noteq> [] \<Longrightarrow> length (render_elems vs) < n \<Longrightarrow>
     parse_elems n d (render_elems vs @ rest) = Some (vs, rest)"
  "wf_members d ms \<Longrightarrow> ms \<noteq> [] \<Longrightarrow> length (render_members ms) < n \<Longrightarrow>
     parse_members n d (render_members ms @ rest) = Some (ms, rest)"
proof (induction d v and d vs and d ms arbitrary: n rest and n rest and n rest
    rule: wf_json_wf_elems_wf_members.induct)
  case (1 d)
  then show ?case by (cases n) (auto simp: is_ws_def scan_literal_def)
next
  case (2 d b)
  then show ?case by (cases n) (auto simp: is_ws_def scan_literal_def)
next
  case (3 d m)
  then show ?case by simp
next
  case (4 d b)
  then show ?case by (cases n) (auto simp: is_ws_def scan_string_scans)
next
  case (5 d vs)
  obtain m where n: "n = Suc m" using "5.prems" by (cases n) auto
  show ?case
  proof (cases vs)
    case Nil
    with "5.prems" n show ?thesis by (simp add: is_ws_def)
  next
    case (Cons v vs')
    with "5.prems" obtain c r where "render v = c # r" "\<not> is_ws c" "c \<noteq> CHR '']''"
      using render_head [of "Suc d" v] by auto
    with "5.prems" n Cons show ?thesis
      using "5.IH" [of m rest] by (simp add: is_ws_def)
  qed
next
  case (6 d ms)
  obtain m where n: "n = Suc m" using "6.prems" by (cases n) auto
  show ?case
  proof (cases ms)
    case Nil
    with "6.prems" n show ?thesis by (simp add: is_ws_def)
  next
    case (Cons kv ms')
    with "6.prems" n show ?thesis
      using "6.IH" [of m rest] by (cases kv) (simp add: is_ws_def)
  qed
next
  case (7 d)
  then show ?case by simp
next
  case (8 d v vs)
  obtain m where n: "n = Suc m" using "8.prems" by (cases n) auto
  have v: "parse_value m d (render v @ r) = Some (v, r)" for r
    using "8.IH"(1) [of m r] "8.prems" n by (cases vs) auto
  show ?case
  proof (cases vs)
    case Nil
    with v n show ?thesis by (simp add: is_ws_def)
  next
    case (Cons w ws)
    have "render v \<noteq> []" using render_head [of d v] "8.prems" by auto
    then have "parse_elems m d (render_elems vs @ rest) = Some (vs, rest)"
      using "8.IH"(2) [of m rest] "8.prems" n Cons by (cases "render v") auto
    with v n Cons show ?thesis by (simp add: is_ws_def)
  qed
next
  case (9 d)
  then show ?case by simp
next
  case (10 d k v ms)
  obtain m where n: "n = Suc m" using "10.prems" by (cases n) auto
  have v: "parse_value m d (render v @ r) = Some (v, r)" for r
    using "10.IH"(1) [of m r] "10.prems" n by (cases ms) auto
  have k: "scan_string (k @ dquote # r) = Some (k, r)" for r
    using "10.prems" by (simp add: scan_string_scans)
  show ?case
  proof (cases ms)
    case Nil
    with v k n show ?thesis by (simp add: is_ws_def)
  next
    case (Cons w ws)
    have "parse_members m d (render_members ms @ rest) = Some (ms, rest)"
      using "10.IH"(2) [of m rest] "10.prems" n Cons by auto
    with v k n Cons show ?thesis by (simp add: is_ws_def)
  qed
qed

lemma json_parse_prefix_render: "wf_json 0 v \<Longrightarrow> json_parse_prefix (render v) = Some (v, [])"
  unfolding json_parse_prefix_def
  using parse_render(1) [of 0 v "2 * length (render v) + 2" "[]"] by (simp del: parse_value.simps)

lemma json_parse_render: "wf_json 0 v \<Longrightarrow> json_parse (render v) = Some v"
  by (simp add: json_parse_def json_parse_prefix_render)

section \<open>Structs\<close>

text \<open>
  Object keys match a field name exactly or up to letter case; the fold also identifies the two
  non-ASCII letters whose case folding is \<open>k\<close> and \<open>s\<close> (U+212A and U+017F).
\<close>

definition lower_byte :: "char \<Rightarrow> char" where
  "lower_byte c = (if 65 \<le> byte_val c \<and> byte_val c \<le> 90 then char_of (byte_val c + 32) else c)"

fun fold_key :: "string \<Rightarrow> string" where
  "fold_key [] = []"
| "fold_key (a # r) =
     (if take 3 (a # r) = [CHR 0xE2, CHR 0x84, CHR 0xAA] then CHR ''k'' # fold_key (drop 2 r)
      else if take 2 (a # r) = [CHR 0xC5, CHR 0xBF] then CHR ''s'' # fold_key (drop 1 r)
      else lower_byte a # fold_key r)"

text \<open>
  Storing a value into one field of a struct: done, done with a type error remembered (decoding
  goes on and reports the first one at the end), or stopped by an \<open>UnmarshalJSON\<close> method.
\<close>

datatype 'a field_res = Stored 'a | Saved go_error 'a | Aborted go_error

type_synonym 'a field_setter = "json \<Rightarrow> 'a \<Rightarrow> 'a field_res"

definition find_field :: "(string \<times> 'a field_setter) list \<Rightarrow> string \<Rightarrow> 'a field_setter option" where
  "find_field flds key =
     (case map_of flds key of
        Some f \<Rightarrow> Some f
      | None \<Rightarrow> map_option snd (List.find (\<lambda>(n, f). fold_key n = fold_key key) flds))"

definition type_error :: go_error where
  "type_error = Opaque ''json: cannot unmarshal value into Go struct field''"

fun decode_members ::
  "(string \<times> 'a field_setter) list \<Rightarrow> (string \<times> json) list \<Rightarrow> go_error option \<Rightarrow> 'a \<Rightarrow> 'a result" where
  "decode_members flds [] saved x = (case saved of None \<Rightarrow> Inr x | Some e \<Rightarrow> Inl e)"
| "decode_members flds ((raw, v) # ms) saved x =
     (case Option.bind (json_unescape raw) (find_field flds) of
        None \<Rightarrow> decode_members flds ms saved x
      | Some f \<Rightarrow>
          (case f v x of
             Stored y \<Rightarrow> decode_members flds ms saved y
           | Saved e y \<Rightarrow> decode_members flds ms (case saved of None \<Rightarrow> Some e | _ \<Rightarrow> saved) y
           | Aborted e \<Rightarrow> Inl e))"

text \<open>\<open>null\<close> leaves the struct as it is.\<close>

fun decode_struct :: "(string \<times> 'a field_setter) list \<Rightarrow> 'a \<Rightarrow> json \<Rightarrow> 'a result" where
  "decode_struct flds x (JObj ms) = decode_members flds ms None x"
| "decode_struct flds x JNull = Inr x"
| "decode_struct flds x v = Inl type_error"

fun set_string :: "(string \<Rightarrow> 'a \<Rightarrow> 'a) \<Rightarrow> 'a field_setter" where
  "set_string upd (JStr raw) x =
     (case json_unescape raw of Some s \<Rightarrow> Stored (upd s x) | None \<Rightarrow> Saved type_error x)"
| "set_string upd JNull x = Stored x"
| "set_string upd v x = Saved type_error x"

text \<open>
  A field whose type has an \<open>UnmarshalJSON\<close> method gets the raw text of the value; no such method
  of the program accepts an array or an object.
\<close>

fun raw_scalar :: "json \<Rightarrow> string option" where
  "raw_scalar (JArr vs) = None"
| "raw_scalar (JObj ms) = None"
| "raw_scalar v = Some (render v)"

definition set_custom :: "(string \<Rightarrow> 'b result) \<Rightarrow> ('b \<Rightarrow> 'a \<Rightarrow> 'a) \<Rightarrow> 'a field_setter" where
  "set_custom un upd v x =
     (case raw_scalar v of
        None \<Rightarrow> Aborted type_error
      | Some raw \<Rightarrow> (case un raw of Inl e \<Rightarrow> Aborted e | Inr y \<Rightarrow> Stored (upd y x)))"

definition syntax_error :: go_error where
  "syntax_error = Opaque ''invalid JSON''"

definition json_Unmarshal :: "(string \<times> 'a field_setter) list \<Rightarrow> 'a \<Rightarrow> string \<Rightarrow> 'a result" where
  "json_Unmarshal flds x data =
     (case json_parse data of None \<Rightarrow> Inl syntax_error | Some v \<Rightarrow> decode_struct flds x v)"

definition json_Decode :: "(string \<times> 'a field_setter) list \<Rightarrow> 'a \<Rightarrow> string \<Rightarrow> 'a result" where
  "json_Decode flds x body =
     (case json_parse_prefix body of
        None \<Rightarrow> Inl syntax_error
      | Some (v, _) \<Rightarrow> decode_struct flds x v)"

text \<open>Marshalling a string value and a struct of named members.\<close>

definition json_string :: "string \<Rightarrow> json" where
  "json_string s = JStr (json_escape s)"

lemma wf_json_string [simp]: "wf_json d (json_string s)"
  by (simp add: json_string_def scans_json_escape)

lemma set_string_json_string [simp]:
  "valid_utf8 s \<Longrightarrow> set_string upd (json_string s) x = Stored (upd s x)"
  by (simp add: json_string_def json_unescape_escape)

lemma json_Unmarshal_render:
  "wf_json 0 v \<Longrightarrow> json_Unmarshal flds x (render v) = decode_struct flds x v"
  by (simp add: json_Unmarshal_def json_parse_render)

lemma json_Decode_render:
  "wf_json 0 v \<Longrightarrow> json_Decode flds x (render v) = decode_struct flds x v"
  by (simp add: json_Decode_def json_parse_prefix_render)

text \<open>A key made of plain bytes stands for itself.\<close>

definition plain_key :: "string \<Rightarrow> bool" where
  "plain_key k \<longleftrightarrow>
     list_all (\<lambda>c. c \<noteq> dquote \<and> c \<noteq> backslash \<and> 0x20 \<le> byte_val c \<and> byte_val c < 0x80) k"

lemma plain_key_unescape: "plain_key k \<Longrightarrow> json_unescape k = Some k"
  by (induction k) (simp_all add: plain_key_def json_unescape.simps)

lemma plain_key_scans: "plain_key k \<Longrightarrow> scans k"
  by (induction k) (simp_all add: plain_key_def scans_plain)

lemma maxNestingDepth_pos [simp]: "0 < maxNestingDepth"
  by (simp add: maxNestingDepth_def)

end
