(* ===== verification/HttpKit.thy ===== *)
theory HttpKit
  imports Errors Json
begin

text \<open>
  \<open>pkg/http\<close> and \<open>pkg/http/middleware\<close>: handlers and middlewares, the router builder, the JSON
  responses, the request logger, and the client. A handler maps a request and the state (the
  response writer and whatever \<open>'s\<close> the handlers of a program work on) to the next state, or
  panics. The third-party request multiplexer, the metrics middleware and the HTTP transport are
  parameters.
\<close>

section \<open>Requests and the response writer\<close>

text \<open>Header keys are in their canonical form, as the server delivers them. \<open>rq_ctx\<close> is the context.\<close>

record 'c request =
  rq_method :: string
  rq_path :: string
  rq_headers :: "(string \<times> string) list"
  rq_body :: string
  rq_ctx :: 'c

definition header_Get :: "string \<Rightarrow> (string \<times> string) list \<Rightarrow> string" where
  "header_Get k hs = (case map_of hs k of None \<Rightarrow> [] | Some v \<Rightarrow> v)"

text \<open>
  The writer of \<open>net/http\<close>: the header map that handlers edit, the status and the header that went
  out (fixed by the first \<open>WriteHeader\<close>), the body, and the argument of every \<open>WriteHeader\<close> call.
\<close>

record response_writer =
  w_header :: "(string \<times> string) list"
  w_status :: "int option"
  w_sent :: "(string \<times> string) list"
  w_body :: string
  w_calls :: "int list"

definition fresh_writer :: response_writer where
  "fresh_writer = \<lparr>w_header = [], w_status = None, w_sent = [], w_body = [], w_calls = []\<rparr>"

definition send_header :: "int \<Rightarrow> response_writer \<Rightarrow> response_writer" where
  "send_header code w =
     (if w_status w = None then w\<lparr>w_status := Some code, w_sent := w_header w\<rparr> else w)"

definition w_WriteHeader :: "int \<Rightarrow> response_writer \<Rightarrow> response_writer" where
  "w_WriteHeader code w = (send_header code w)\<lparr>w_calls := w_calls w @ [code]\<rparr>"

definition w_Write :: "string \<Rightarrow> response_writer \<Rightarrow> response_writer" where
  "w_Write b w = (let w1 = send_header StatusOK w in w1\<lparr>w_body := w_body w1 @ b\<rparr>)"

definition w_AddHeader :: "string \<Rightarrow> string \<Rightarrow> response_writer \<Rightarrow> response_writer" where
  "w_AddHeader k v w = w\<lparr>w_header := w_header w @ [(k, v)]\<rparr>"

type_synonym ('c, 's) handler = "'c request \<Rightarrow> response_writer \<times> 's \<Rightarrow> (response_writer \<times> 's) go"
type_synonym ('c, 's) middleware = "('c, 's) handler \<Rightarrow> ('c, 's) handler"

section \<open>headers.go and json.go\<close>

definition HeaderContentType :: string where "HeaderContentType = ''Content-Type''"
definition ContentTypeJSON :: string where "ContentTypeJSON = ''application/json''"

text \<open>A response value: a Go string, a value that is encoded to a JSON tree, or one whose encoding fails;
  then nothing is written, and the error is only logged.\<close>

datatype resp_val = RespString string | RespJSON json | RespUnencodable go_error

definition newline :: string where "newline = [CHR 0x0A]"

definition writeJsonBody :: "resp_val \<Rightarrow> response_writer \<Rightarrow> response_writer" where
  "writeJsonBody val w =
     (let w1 = w_AddHeader HeaderContentType ContentTypeJSON w in
      case val of
        RespString s \<Rightarrow> w_Write s w1
      | RespJSON t \<Rightarrow> w_Write (render t @ newline) w1
      | RespUnencodable err \<Rightarrow> w1)"

definition JSONErrorResponse :: "string \<Rightarrow> resp_val" where
  "JSONErrorResponse details = RespJSON (JObj [(''details'', json_string details)])"

definition RespondWithJSONError :: "go_error \<Rightarrow> response_writer \<Rightarrow> response_writer" where
  "RespondWithJSONError err w =
     (let httpErr = DetermineHTTPError err in
      writeJsonBody (JSONErrorResponse (Details httpErr)) (w_WriteHeader (StatusCode httpErr) w))"

definition RespondWithJSON :: "resp_val \<Rightarrow> response_writer \<Rightarrow> response_writer" where
  "RespondWithJSON val w = writeJsonBody val (w_WriteHeader StatusOK w)"

definition DefaultOKResponse :: resp_val where
  "DefaultOKResponse = RespString ([CHR ''{'', dquote] @ ''status'' @ [dquote] @ '': '' @ [dquote] @ ''ok'' @ [dquote, CHR ''}''])"

section \<open>router.go\<close>

text \<open>
  A route is a path with its handler and the methods it accepts (none listed: all). The multiplexer that all
  subgroups of a builder share is the list of routes, which is threaded separately.
\<close>

record ('c, 's) route =
  rt_path :: string
  rt_methods :: "string list"
  rt_handler :: "('c, 's) handler"

record ('c, 's) RouterBuilder =
  rb_handlersAdded :: bool
  rb_middlewares :: "('c, 's) middleware list"

definition NewRouterBuilder :: "('c, 's) RouterBuilder" where
  "NewRouterBuilder = \<lparr>rb_handlersAdded = False, rb_middlewares = []\<rparr>"

definition SubGroup :: "('c, 's) RouterBuilder \<Rightarrow> ('c, 's) RouterBuilder" where
  "SubGroup b = \<lparr>rb_handlersAdded = False, rb_middlewares = rb_middlewares b\<rparr>"

fun wrap_loop :: "('c, 's) middleware list \<Rightarrow> ('c, 's) handler \<Rightarrow> ('c, 's) handler" where
  "wrap_loop [] h = h"
| "wrap_loop (m # ms) h = wrap_loop ms (m h)"

definition wrap :: "('c, 's) RouterBuilder \<Rightarrow> ('c, 's) handler \<Rightarrow> ('c, 's) handler" where
  "wrap b h = wrap_loop (rb_middlewares b) h"

text \<open>The function that a JSON handler is made of: it returns a value or an error.\<close>

type_synonym ('c, 's) json_func =
  "'c request \<Rightarrow> response_writer \<times> 's \<Rightarrow> (resp_val result \<times> response_writer \<times> 's) go"

definition json_handler :: "('c, 's) json_func \<Rightarrow> ('c, 's) handler" where
  "json_handler f req st =
     go_bind (f req st)
       (\<lambda>(r, w, s). case r of
          Inl err \<Rightarrow> Ret (RespondWithJSONError err w, s)
        | Inr respObj \<Rightarrow> Ret (RespondWithJSON respObj w, s))"

definition HandleJSONFunc ::
  "string \<Rightarrow> string list \<Rightarrow> ('c, 's) json_func \<Rightarrow> ('c, 's) RouterBuilder \<Rightarrow> ('c, 's) route list \<Rightarrow>
    ('c, 's) RouterBuilder \<times> ('c, 's) route list" where
  "HandleJSONFunc path methods f b mux =
     (b\<lparr>rb_handlersAdded := True\<rparr>,
      mux @ [\<lparr>rt_path = path, rt_methods = methods, rt_handler = wrap b (json_handler f)\<rparr>])"

definition HandleFunc ::
  "string \<Rightarrow> string list \<Rightarrow> ('c, 's) handler \<Rightarrow> ('c, 's) RouterBuilder \<Rightarrow> ('c, 's) route list \<Rightarrow>
    ('c, 's) RouterBuilder \<times> ('c, 's) route list" where
  "HandleFunc path methods h b mux =
     (b, mux @ [\<lparr>rt_path = path, rt_methods = methods, rt_handler = wrap b h\<rparr>])"

definition With :: "('c, 's) middleware list \<Rightarrow> ('c, 's) RouterBuilder \<Rightarrow> ('c, 's) RouterBuilder go" where
  "With ms b =
     (if rb_handlersAdded b then Panic ''cannot add middlewares once some handlers are configured''
      else Ret (b\<lparr>rb_middlewares := rb_middlewares b @ ms\<rparr>))"

text \<open>
  The multiplexer serves a request: \<open>serve\<close> is the third-party dispatch. What the program relies
  on: a request whose path and method belong to exactly one route is served by it, and a request
  whose path no route has is answered with 404 without touching the state.
\<close>

type_synonym ('c, 's) dispatch = "('c, 's) route list \<Rightarrow> ('c, 's) handler"

definition serves :: "('c, 's) route \<Rightarrow> 'c request \<Rightarrow> bool" where
  "serves rt req \<longleftrightarrow> rt_path rt = rq_path req \<and> (rt_methods rt = [] \<or> rq_method req \<in> set (rt_methods rt))"

definition StatusNotFound :: int where "StatusNotFound = 404"

definition dispatch_laws :: "('c, 's) dispatch \<Rightarrow> bool" where
  "dispatch_laws serve \<longleftrightarrow>
     (\<forall>pre rt post req. serves rt req \<longrightarrow> (\<forall>r \<in> set (pre @ post). rt_path r \<noteq> rq_path req) \<longrightarrow>
        serve (pre @ rt # post) req = rt_handler rt req) \<and>
     (\<forall>mux req w s. (\<forall>r \<in> set mux. rt_path r \<noteq> rq_path req) \<longrightarrow>
        (\<exists>w'. serve mux req (w, s) = Ret (w', s) \<and> (w_status w = None \<longrightarrow> w_status w' = Some StatusNotFound)))"

lemma dispatch_distinct:
  assumes "dispatch_laws serve" and "distinct (map rt_path mux)" and "rt \<in> set mux" and "serves rt req"
  shows "serve mux req = rt_handler rt req"
proof -
  obtain pre post where mux: "mux = pre @ rt # post" using split_list [OF assms(3)] by blast
  have "rt_path rt = rq_path req" using assms(4) by (simp add: serves_def)
  moreover have "\<forall>r \<in> set (pre @ post). rt_path r \<noteq> rt_path rt"
    using assms(2) unfolding mux by (auto simp: image_iff)
  ultimately have other: "\<forall>r \<in> set (pre @ post). rt_path r \<noteq> rq_path req" by simp
  have "serve (pre @ rt # post) req = rt_handler rt req"
    using assms(1) [unfolded dispatch_laws_def, THEN conjunct1, rule_format, OF assms(4)] other by simp
  then show ?thesis by (simp only: mux)
qed

section \<open>middleware/request_logging.go\<close>

record log_entry =
  le_method :: string
  le_path :: string
  le_status_code :: int

text \<open>
  The logger wraps the writer so that the argument of the handler's last \<open>WriteHeader\<close> is captured;
  \<open>record_log\<close> is the call of the logging library.
\<close>

definition captured :: "response_writer \<Rightarrow> response_writer \<Rightarrow> int" where
  "captured before after =
     (if length (w_calls after) = length (w_calls before) then 0 else last (w_calls after))"

definition RequestLogger :: "(log_entry \<Rightarrow> 's \<Rightarrow> 's) \<Rightarrow> ('c, 's) middleware" where
  "RequestLogger record_log next_handler r st =
     go_bind (next_handler r st)
       (\<lambda>(w, s). Ret (w, record_log
          \<lparr>le_method = rq_method r, le_path = rq_path r, le_status_code = captured (fst st) w\<rparr> s))"

section \<open>client.go\<close>

record Response =
  resp_StatusCode :: int
  resp_Body :: string

text \<open>The library's side of a request: its construction, the round trip, and reading the body.\<close>

record 's http_lib =
  lib_NewRequest :: "string \<Rightarrow> string \<Rightarrow> go_error option"
  lib_Do :: "string \<Rightarrow> string \<Rightarrow> string \<Rightarrow> (string \<times> string) list \<Rightarrow> 's \<Rightarrow> (int \<times> string result) result \<times> 's"

record Client =
  baseAddress :: string

definition NewClient :: "string \<Rightarrow> Client" where "NewClient address = \<lparr>baseAddress = address\<rparr>"

definition client_url :: "Client \<Rightarrow> string \<Rightarrow> string" where
  "client_url c path = ''http://'' @ baseAddress c @ path"

definition client_execute ::
  "'s http_lib \<Rightarrow> Client \<Rightarrow> string \<Rightarrow> string \<Rightarrow> string \<Rightarrow> (string \<times> string) list \<Rightarrow> 's \<Rightarrow> Response result \<times> 's" where
  "client_execute H c method path body headers s =
     (case lib_NewRequest H method (client_url c path) of
        Some err \<Rightarrow> (Inl (Wrapped ''creating request'' err), s)
      | None \<Rightarrow>
          (case lib_Do H method (client_url c path) body headers s of
             (Inl err, s') \<Rightarrow> (Inl (Wrapped ''executing request'' err), s')
           | (Inr (code, Inl err), s') \<Rightarrow> (Inl (Wrapped ''reading response body'' err), s')
           | (Inr (code, Inr resBody), s') \<Rightarrow> (Inr \<lparr>resp_StatusCode = code, resp_Body = resBody\<rparr>, s')))"

definition MethodGet :: string where "MethodGet = ''GET''"
definition MethodPost :: string where "MethodPost = ''POST''"

definition client_Get :: "'s http_lib \<Rightarrow> Client \<Rightarrow> string \<Rightarrow> 's \<Rightarrow> Response result \<times> 's" where
  "client_Get H c path = client_execute H c MethodGet path [] []"

definition client_GetWithHeaders where
  "client_GetWithHeaders H c path headers = client_execute H c MethodGet path [] headers"

definition client_Post :: "'s http_lib \<Rightarrow> Client \<Rightarrow> string \<Rightarrow> string \<Rightarrow> 's \<Rightarrow> Response result \<times> 's" where
  "client_Post H c path body = client_execute H c MethodPost path body []"

definition client_PostWithHeaders where
  "client_PostWithHeaders H c path body headers = client_execute H c MethodPost path body headers"

section \<open>server.go\<close>

record ('c, 's) Server =
  hs_Handler :: "('c, 's) handler"
  hs_WriteTimeout :: duration
  hs_ReadTimeout :: duration
  hs_IdleTimeout :: duration

definition NewServer :: "('c, 's) handler \<Rightarrow> ('c, 's) Server" where
  "NewServer h =
     \<lparr>hs_Handler = h, hs_WriteTimeout = Second * 15, hs_ReadTimeout = Second * 15, hs_IdleTimeout = Second * 60\<rparr>"

text \<open>The shutdown is that of the library, with the caller's context.\<close>

definition server_Shutdown :: "('x \<Rightarrow> 's \<Rightarrow> go_error option \<times> 's) \<Rightarrow> 'x \<Rightarrow> 's \<Rightarrow> go_error option \<times> 's" where
  "server_Shutdown lib_Shutdown ctx s = lib_Shutdown ctx s"

definition ErrServerClosed :: go_error where "ErrServerClosed = Opaque ''http: Server closed''"

text \<open>\<open>served\<close> is what \<open>Serve\<close> of the library returns.\<close>

definition server_Start :: "go_error option \<Rightarrow> go_error option" where
  "server_Start served = (if served \<noteq> None \<and> served \<noteq> Some ErrServerClosed then served else None)"


section \<open>Responses\<close>

lemma send_header_simps [frame_simps]:
  "w_header (send_header code w) = w_header w" "w_body (send_header code w) = w_body w"
  "w_calls (send_header code w) = w_calls w"
  by (simp_all add: send_header_def)

lemma w_Write_simps [frame_simps]:
  "w_header (w_Write b w) = w_header w" "w_calls (w_Write b w) = w_calls w"
  "w_body (w_Write b w) = w_body w @ b"
  "w_status w \<noteq> None \<Longrightarrow> w_status (w_Write b w) = w_status w"
  "w_status w \<noteq> None \<Longrightarrow> w_sent (w_Write b w) = w_sent w"
  by (auto simp: w_Write_def Let_def send_header_def)

lemma w_WriteHeader_simps [frame_simps]:
  "w_status w = None \<Longrightarrow> w_status (w_WriteHeader code w) = Some code"
  "w_status w = None \<Longrightarrow> w_sent (w_WriteHeader code w) = w_header w"
  "w_header (w_WriteHeader code w) = w_header w" "w_body (w_WriteHeader code w) = w_body w"
  "w_calls (w_WriteHeader code w) = w_calls w @ [code]"
  by (simp_all add: w_WriteHeader_def send_header_def)

definition resp_text :: "resp_val \<Rightarrow> string" where
  "resp_text val = (case val of RespString s \<Rightarrow> s | RespJSON t \<Rightarrow> render t @ newline | RespUnencodable err \<Rightarrow> [])"

lemma writeJsonBody_simps [frame_simps]:
  "w_calls (writeJsonBody val w) = w_calls w"
  "w_body (writeJsonBody val w) = w_body w @ resp_text val"
  "w_header (writeJsonBody val w) = w_header w @ [(HeaderContentType, ContentTypeJSON)]"
  "w_status w \<noteq> None \<Longrightarrow> w_status (writeJsonBody val w) = w_status w"
  "w_status w \<noteq> None \<Longrightarrow> w_sent (writeJsonBody val w) = w_sent w"
  by (simp_all add: writeJsonBody_def Let_def w_AddHeader_def resp_text_def frame_simps split: resp_val.split)

lemma RespondWithJSON_simps:
  assumes "w_status w = None"
  shows "w_status (RespondWithJSON val w) = Some StatusOK" "w_sent (RespondWithJSON val w) = w_header w"
    "w_body (RespondWithJSON val w) = w_body w @ resp_text val"
    "w_header (RespondWithJSON val w) = w_header w @ [(HeaderContentType, ContentTypeJSON)]"
    "w_calls (RespondWithJSON val w) = w_calls w @ [StatusOK]"
  using assms by (simp_all add: RespondWithJSON_def frame_simps)

lemma RespondWithJSONError_simps:
  assumes "w_status w = None"
  shows "w_status (RespondWithJSONError err w) = Some (StatusCode (DetermineHTTPError err))"
    "w_sent (RespondWithJSONError err w) = w_header w"
    "w_body (RespondWithJSONError err w) =
       w_body w @ resp_text (JSONErrorResponse (Details (DetermineHTTPError err)))"
    "w_header (RespondWithJSONError err w) = w_header w @ [(HeaderContentType, ContentTypeJSON)]"
    "w_calls (RespondWithJSONError err w) = w_calls w @ [StatusCode (DetermineHTTPError err)]"
  using assms by (simp_all add: RespondWithJSONError_def Let_def frame_simps)

text \<open>What a client that decodes an error body gets.\<close>

definition decode_details :: "string \<Rightarrow> string result" where
  "decode_details = json_Decode [(''details'', set_string (\<lambda>d _. d))] []"

lemma json_Decode_line: "wf_json 0 v \<Longrightarrow> json_Decode flds x (render v @ rest) = decode_struct flds x v"
proof -
  assume v: "wf_json 0 v"
  have "json_parse_prefix (render v @ rest) = Some (v, rest)"
    unfolding json_parse_prefix_def
    using parse_render(1) [OF v, of "2 * length (render v @ rest) + 2" rest] by (simp del: parse_value.simps)
  then show ?thesis by (simp add: json_Decode_def)
qed

lemma decode_details_error:
  assumes "valid_utf8 details"
  shows "decode_details (resp_text (JSONErrorResponse details)) = Inr details"
proof -
  have key: "plain_key ''details''" by (simp add: plain_key_def)
  let ?t = "JObj [(''details'', json_string details)]"
  have "resp_text (JSONErrorResponse details) = render ?t @ newline"
    by (simp add: resp_text_def JSONErrorResponse_def del: render.simps)
  moreover have "wf_json 0 ?t" using plain_key_scans [OF key] by simp
  ultimately have "decode_details (resp_text (JSONErrorResponse details)) =
      decode_struct [(''details'', set_string (\<lambda>d _. d))] [] ?t"
    by (simp only: decode_details_def json_Decode_line)
  then show ?thesis
    using assms plain_key_unescape [OF key] by (simp add: find_field_def)
qed

section \<open>Middlewares\<close>

lemma wrap_loop_append: "wrap_loop (ms @ ms') h = wrap_loop ms' (wrap_loop ms h)"
  by (induction ms arbitrary: h) simp_all

lemma With_Ret: "With ms b = Ret b' \<longleftrightarrow> \<not> rb_handlersAdded b \<and> b' = b\<lparr>rb_middlewares := rb_middlewares b @ ms\<rparr>"
  by (auto simp: With_def)

section \<open>A concrete multiplexer\<close>

text \<open>A multiplexer that serves the first route that matches.\<close>

definition ref_serve :: "('c, 's) dispatch" where
  "ref_serve mux req st =
     (case List.find (\<lambda>rt. rt_path rt = rq_path req) mux of
        None \<Rightarrow> (case st of (w, s) \<Rightarrow> Ret (w_WriteHeader StatusNotFound w, s))
      | Some rt \<Rightarrow> if rt_methods rt = [] \<or> rq_method req \<in> set (rt_methods rt) then rt_handler rt req st
                   else (case st of (w, s) \<Rightarrow> Ret (w_WriteHeader 405 w, s)))"

lemma find_route_absent: "\<forall>r \<in> set mux. rt_path r \<noteq> p \<Longrightarrow> List.find (\<lambda>rt. rt_path rt = p) mux = None"
  by (induction mux) auto

lemma find_route: "rt_path rt = p \<Longrightarrow> \<forall>r \<in> set pre. rt_path r \<noteq> p \<Longrightarrow>
    List.find (\<lambda>rt. rt_path rt = p) (pre @ rt # post) = Some rt"
  by (induction pre) auto

lemma ref_serve_laws: "dispatch_laws ref_serve"
  unfolding dispatch_laws_def
proof (intro conjI allI impI)
  fix pre post :: "('a, 'b) route list" and rt :: "('a, 'b) route" and req :: "'a request"
  assume "serves rt req" "\<forall>r \<in> set (pre @ post). rt_path r \<noteq> rq_path req"
  then show "ref_serve (pre @ rt # post) req = rt_handler rt req"
    using find_route [of rt "rq_path req" pre post] by (auto simp: serves_def ref_serve_def fun_eq_iff)
next
  fix mux :: "('a, 'b) route list" and req :: "'a request" and w and s :: 'b
  assume "\<forall>r \<in> set mux. rt_path r \<noteq> rq_path req"
  then show "\<exists>w'. ref_serve mux req (w, s) = Ret (w', s) \<and> (w_status w = None \<longrightarrow> w_status w' = Some StatusNotFound)"
    using find_route_absent [of mux "rq_path req"] by (simp add: ref_serve_def frame_simps)
qed

section \<open>Groups of routes\<close>

text \<open>
  What a caller does with a builder: adding middlewares, registering handlers, and opening a group with
  a body of its own. \<open>run_ops\<close> does it with the builder's operations, on the list of routes that all groups
  share; \<open>spec_ops\<close> says which routes that makes.
\<close>

datatype ('c, 's) router_op =
    OpWith "('c, 's) middleware list"
  | OpJSON string "string list" "('c, 's) json_func"
  | OpRaw string "string list" "('c, 's) handler"
  | OpGroup "('c, 's) router_op list"

fun run_ops :: "('c, 's) router_op list \<Rightarrow> ('c, 's) RouterBuilder \<Rightarrow> ('c, 's) route list \<Rightarrow> ('c, 's) route list go" where
  "run_ops [] b mux = Ret mux"
| "run_ops (OpWith ms # ops) b mux = go_bind (With ms b) (\<lambda>b. run_ops ops b mux)"
| "run_ops (OpJSON p methods f # ops) b mux = (case HandleJSONFunc p methods f b mux of (b, mux) \<Rightarrow> run_ops ops b mux)"
| "run_ops (OpRaw p methods h # ops) b mux = (case HandleFunc p methods h b mux of (b, mux) \<Rightarrow> run_ops ops b mux)"
| "run_ops (OpGroup body # ops) b mux = go_bind (run_ops body (SubGroup b) mux) (run_ops ops b)"

fun spec_ops :: "('c, 's) router_op list \<Rightarrow> ('c, 's) middleware list \<Rightarrow> ('c, 's) route list" where
  "spec_ops [] ms = []"
| "spec_ops (OpWith new # ops) ms = spec_ops ops (ms @ new)"
| "spec_ops (OpJSON p methods f # ops) ms =
     \<lparr>rt_path = p, rt_methods = methods, rt_handler = foldl (\<lambda>h m. m h) (json_handler f) ms\<rparr> # spec_ops ops ms"
| "spec_ops (OpRaw p methods h # ops) ms =
     \<lparr>rt_path = p, rt_methods = methods, rt_handler = foldl (\<lambda>h m. m h) h ms\<rparr> # spec_ops ops ms"
| "spec_ops (OpGroup body # ops) ms = spec_ops body ms @ spec_ops ops ms"

text \<open>No middleware is added to a group after one of its own JSON handlers.\<close>

fun ops_ordered :: "bool \<Rightarrow> ('c, 's) router_op list \<Rightarrow> bool" where
  "ops_ordered added [] = True"
| "ops_ordered added (OpWith ms # ops) = (\<not> added \<and> ops_ordered added ops)"
| "ops_ordered added (OpJSON p methods f # ops) = ops_ordered True ops"
| "ops_ordered added (OpRaw p methods h # ops) = ops_ordered added ops"
| "ops_ordered added (OpGroup body # ops) = (ops_ordered False body \<and> ops_ordered added ops)"

lemma wrap_loop_foldl: "wrap_loop ms h = foldl (\<lambda>h m. m h) h ms"
  by (induction ms arbitrary: h) simp_all

lemma run_ops_spec:
  "run_ops ops b mux =
     (if ops_ordered (rb_handlersAdded b) ops then Ret (mux @ spec_ops ops (rb_middlewares b))
      else Panic ''cannot add middlewares once some handlers are configured'')"
proof (induction ops b mux rule: run_ops.induct)
  case (2 ms ops b mux)
  then show ?case by (simp add: With_def)
next
  case (3 p methods f ops b mux)
  then show ?case by (simp add: HandleJSONFunc_def wrap_def wrap_loop_foldl)
next
  case (4 p methods h ops b mux)
  then show ?case by (simp add: HandleFunc_def wrap_def wrap_loop_foldl)
next
  case (5 body ops b mux)
  then show ?case by (simp add: SubGroup_def)
qed simp

text \<open>The content type that the JSON responses set never goes out: it is added to the header after the status
  has been written, when the header has already been sent as it was before.\<close>

lemma content_type_never_sent:
  assumes "w_status w = None"
  shows "w_sent (RespondWithJSON val w) = w_header w \<and> w_sent (RespondWithJSONError err w) = w_header w \<and>
    (HeaderContentType, ContentTypeJSON) \<in> set (w_header (RespondWithJSON val w)) \<and>
    (HeaderContentType, ContentTypeJSON) \<in> set (w_header (RespondWithJSONError err w))"
  by (simp add: RespondWithJSON_simps [OF assms] RespondWithJSONError_simps [OF assms])

section \<open>Properties\<close>

text \<open>C22: A handler's error reaches the client whole: on an untouched response the status is the one
  of the error's class, the body decodes to the error's text, and the request log shows the same
  status; on success the status is 200 and the log says so. The content type of either response never
  reaches the client: it is added to the header that was sent before.\<close>

theorem json_responses_truthful:
  assumes "f r (w, s) = Ret (res, w, s')" and "w_status w = None" and "w_body w = []"
    and "RequestLogger record_log (json_handler f) r (w, s) = Ret (w', s'')"
  shows "w_sent w' = w_header w \<and> (HeaderContentType, ContentTypeJSON) \<in> set (w_header w') \<and>
    (case res of
      Inl err \<Rightarrow> w_status w' = Some (StatusCode (DetermineHTTPError err)) \<and>
        (valid_utf8 (Details (DetermineHTTPError err)) \<longrightarrow>
           decode_details (w_body w') = Inr (Details (DetermineHTTPError err))) \<and>
        s'' = record_log \<lparr>le_method = rq_method r, le_path = rq_path r,
                le_status_code = StatusCode (DetermineHTTPError err)\<rparr> s'
    | Inr val \<Rightarrow> w_status w' = Some StatusOK \<and> w_body w' = resp_text val \<and>
        s'' = record_log \<lparr>le_method = rq_method r, le_path = rq_path r, le_status_code = StatusOK\<rparr> s')"
proof (cases res)
  case (Inl err)
  then have "w' = RespondWithJSONError err w"
    "s'' = record_log \<lparr>le_method = rq_method r, le_path = rq_path r,
       le_status_code = StatusCode (DetermineHTTPError err)\<rparr> s'"
    using assms(1,4) RespondWithJSONError_simps(5) [OF assms(2)]
    by (auto simp: RequestLogger_def json_handler_def captured_def)
  with Inl show ?thesis
    using RespondWithJSONError_simps(1,3) [OF assms(2)] content_type_never_sent [OF assms(2)] assms(3) decode_details_error
    by simp
next
  case (Inr val)
  then have "w' = RespondWithJSON val w"
    "s'' = record_log \<lparr>le_method = rq_method r, le_path = rq_path r, le_status_code = StatusOK\<rparr> s'"
    using assms(1,4) RespondWithJSON_simps(5) [OF assms(2)]
    by (auto simp: RequestLogger_def json_handler_def captured_def)
  with Inr show ?thesis
    using RespondWithJSON_simps(1,3) [OF assms(2)] content_type_never_sent [OF assms(2)] assms(3) by simp
qed

theorem json_responses_truthful_witness:
  "\<exists>w' s''. RequestLogger (#) (json_handler (\<lambda>r (w, s). Ret (Inl (BadRequest (Opaque ''no'')), w, s)))
      \<lparr>rq_method = MethodPost, rq_path = ''/x'', rq_headers = [], rq_body = [], rq_ctx = ()\<rparr> (fresh_writer, []) =
      Ret (w', s'') \<and> w_status w' = Some 400 \<and> decode_details (w_body w') = Inr ''no'' \<and> w_sent w' = [] \<and>
      map le_status_code s'' = [400]"
proof -
  let ?f = "\<lambda>r (w, s). Ret (Inl (BadRequest (Opaque ''no'')), w, s)"
  let ?r = "\<lparr>rq_method = MethodPost, rq_path = ''/x'', rq_headers = [], rq_body = [], rq_ctx = ()\<rparr>"
  have d: "StatusCode (DetermineHTTPError (BadRequest (Opaque ''no''))) = 400"
    "Details (DetermineHTTPError (BadRequest (Opaque ''no''))) = ''no''"
    by code_simp+
  have "?f ?r (fresh_writer, []) = Ret (Inl (BadRequest (Opaque ''no'')), fresh_writer, [])"
    "w_status fresh_writer = None" "w_body fresh_writer = []" "w_header fresh_writer = []"
    by (simp_all add: fresh_writer_def)
  moreover obtain w' s'' where "RequestLogger (#) (json_handler ?f) ?r (fresh_writer, []) = Ret (w', s'')"
    by (simp add: RequestLogger_def json_handler_def)
  moreover have "valid_utf8 ''no''" by (rule valid_utf8_ascii) auto
  ultimately show ?thesis
    using json_responses_truthful [where f = ?f and r = ?r and w = fresh_writer and s = "[]" and
        res = "Inl (BadRequest (Opaque ''no''))" and s' = "[]" and record_log = "(#)" and w' = w' and s'' = s'']
    by (auto simp: d)
qed

text \<open>C23: The router builder gives every route exactly the middlewares of its group: those that the enclosing
  groups had when it was opened and its own, the first added innermost and the last outermost, no
  matter what sibling groups or later calls do; and configuring panics exactly when a group adds a
  middleware after one of its own JSON handlers.\<close>

theorem router_groups_wrap_their_routes:
  "run_ops ops NewRouterBuilder mux =
     (if ops_ordered False ops then Ret (mux @ spec_ops ops [])
      else Panic ''cannot add middlewares once some handlers are configured'')"
  using run_ops_spec [of ops NewRouterBuilder mux] by (simp add: NewRouterBuilder_def)

end
