(* ===== verification/Clients.thy ===== *)
theory Clients
  imports HttpKit
begin

text \<open>
  The gateway client, \<open>gateway/client/client.go\<close>, and the terminal client on top of it,
  \<open>cliclient/client.go\<close>. The calls of the gateway client that are commented out in the source are
  modelled as what is left of them. The terminal is a list of answers and a list of printed lines.
\<close>

section \<open>gateway/client/client.go\<close>

definition gc_heartBeatInterval :: duration where "gc_heartBeatInterval = 10 * Second"

text \<open>\<open>gc_lastRequestAt\<close> is in Unix seconds. \<open>stopCh\<close> is nil after \<open>Close\<close>; \<open>gc_stopped\<close> tells that the channel
  it was made with is closed.\<close>

record gateway_Client =
  gc_client :: Client
  gc_token :: string
  gc_lastRequestAt :: int
  gc_stopCh :: bool
  gc_stopped :: bool

definition gc_New :: "string \<Rightarrow> gateway_Client" where
  "gc_New address =
     \<lparr>gc_client = NewClient address, gc_token = [], gc_lastRequestAt = 0, gc_stopCh = True, gc_stopped = False\<rparr>"

definition CheckAvailability :: "'s http_lib \<Rightarrow> gateway_Client \<Rightarrow> 's \<Rightarrow> go_error option \<times> 's" where
  "CheckAvailability H c s =
     (case client_Get H (gc_client c) ''/health'' s of
        (Inl err, s') \<Rightarrow> (Some (Wrapped ''executing request'' err), s')
      | (Inr resp, s') \<Rightarrow>
          if resp_StatusCode resp \<noteq> StatusOK
          then (Some (Opaque (''gateway returned status code '' @ show_int (resp_StatusCode resp))), s')
          else (None, s'))"

definition gc_Register :: "string \<Rightarrow> string \<Rightarrow> gateway_Client \<Rightarrow> go_error option \<times> gateway_Client" where
  "gc_Register name password c = (None, c)"

definition gc_Login :: "string \<Rightarrow> string \<Rightarrow> gateway_Client \<Rightarrow> go_error option \<times> gateway_Client" where
  "gc_Login name password c = (None, c)"

definition gc_ActiveUsers :: "gateway_Client \<Rightarrow> string list result" where
  "gc_ActiveUsers c = Inr []"

definition unix :: "int \<Rightarrow> int" where "unix t = t div Second"

definition markAsActive :: "int \<Rightarrow> gateway_Client \<Rightarrow> gateway_Client" where
  "markAsActive now c = c\<lparr>gc_lastRequestAt := unix now\<rparr>"

definition heartbeat :: "'s http_lib \<Rightarrow> gateway_Client \<Rightarrow> 's \<Rightarrow> bool \<times> 's" where
  "heartbeat H c s =
     (case client_PostWithHeaders H (gc_client c) ''/heartbeat'' [] [(''Authorization'', gc_token c)] s of
        (Inl err, s') \<Rightarrow> (False, s')
      | (Inr resp, s') \<Rightarrow> (resp_StatusCode resp = 200, s'))"

text \<open>\<open>now\<close> and \<open>later\<close> are what the two calls of the clock return.\<close>

definition maybeHeartbeat :: "'s http_lib \<Rightarrow> int \<Rightarrow> int \<Rightarrow> gateway_Client \<Rightarrow> 's \<Rightarrow> gateway_Client \<times> 's" where
  "maybeHeartbeat H now later c s =
     (if unix (now - gc_heartBeatInterval) < gc_lastRequestAt c then (c, s)
      else (case heartbeat H c s of
              (True, s') \<Rightarrow> (markAsActive later c, s')
            | (False, s') \<Rightarrow> (c, s')))"

text \<open>The loop, over the times of its rounds and what ended each wait.\<close>

datatype wake = RoundTicked | RoundStopped

fun heartbeatLoop :: "'s http_lib \<Rightarrow> (int \<times> int \<times> wake) list \<Rightarrow> gateway_Client \<Rightarrow> 's \<Rightarrow> bool \<times> gateway_Client \<times> 's" where
  "heartbeatLoop H [] c s = (False, c, s)"
| "heartbeatLoop H ((now, later, w) # rounds) c s =
     (case maybeHeartbeat H now later c s of
        (c', s') \<Rightarrow> (case w of RoundTicked \<Rightarrow> heartbeatLoop H rounds c' s' | RoundStopped \<Rightarrow> (True, c', s')))"

definition gc_Close :: "gateway_Client \<Rightarrow> gateway_Client go" where
  "gc_Close c =
     (if \<not> gc_stopCh c then Ret c
      else if gc_stopped c then Panic ''close of closed channel''
      else Ret (c\<lparr>gc_stopped := True, gc_stopCh := False\<rparr>))"

text \<open>Closing twice is harmless; a client never sends a heartbeat within ten seconds of the last one that
  was answered, to the second.\<close>

lemma gc_Close_twice: "\<exists>c1. gc_Close (gc_New address) = Ret c1 \<and> gc_Close c1 = Ret c1"
  by (simp add: gc_Close_def gc_New_def)

lemma unix_mono: "a \<le> b \<Longrightarrow> unix a \<le> unix b"
  by (simp add: unix_def Second_eq zdiv_mono1)

lemma heartbeat_spacing:
  assumes "maybeHeartbeat H now later c s = (c', s')" and "s' \<noteq> s"
  shows "gc_lastRequestAt c * Second + gc_heartBeatInterval \<le> now"
proof -
  have "\<not> unix (now - gc_heartBeatInterval) < gc_lastRequestAt c"
    using assms by (auto simp: maybeHeartbeat_def split: if_splits)
  then have "gc_lastRequestAt c \<le> (now - gc_heartBeatInterval) div Second" by (simp add: unix_def)
  moreover have "(now - gc_heartBeatInterval) div Second * Second \<le> now - gc_heartBeatInterval" by (simp add: Second_eq)
  ultimately show ?thesis by (simp add: Second_eq)
qed

section \<open>cliclient/client.go\<close>

text \<open>\<open>strconv.Atoi\<close>: an optional sign and decimal digits, in the range of 64 bits; \<open>quote\<close> is how the library
  quotes the text in its errors.\<close>

fun decimal :: "string \<Rightarrow> nat \<Rightarrow> nat option" where
  "decimal [] n = Some n"
| "decimal (c # cs) n =
     (let d = of_char c :: nat in if 48 \<le> d \<and> d \<le> 57 then decimal cs (10 * n + (d - 48)) else None)"

definition Atoi :: "(string \<Rightarrow> string) \<Rightarrow> string \<Rightarrow> int result" where
  "Atoi quote s =
     (let neg = prefix ''-'' s; body = (if neg \<or> prefix ''+'' s then tl s else s) in
      case (if body = [] then None else decimal body 0) of
        None \<Rightarrow> Inl (Opaque (''strconv.Atoi: parsing '' @ quote s @ '': invalid syntax''))
      | Some n \<Rightarrow>
          let v = (if neg then - int n else int n) in
          if in_i64 v then Inr v else Inl (Opaque (''strconv.Atoi: parsing '' @ quote s @ '': value out of range'')))"

text \<open>
  The terminal: what the successive reads return, nothing once the input has ended, and what was
  printed. Clearing the screen runs a program and leaves both alone. \<open>cli_net\<close> is the network.
\<close>

record 's cli =
  cli_gateway :: gateway_Client
  cli_in :: "string list"
  cli_out :: string
  cli_net :: 's

definition newl :: string where "newl = [CHR 0x0A]"

definition print :: "string \<Rightarrow> 's cli \<Rightarrow> 's cli" where "print x a = a\<lparr>cli_out := cli_out a @ x\<rparr>"
definition PrintHeader :: "string \<Rightarrow> 's cli \<Rightarrow> 's cli" where "PrintHeader header = print ([CHR 0x09] @ header @ newl @ newl)"
definition PrintRegular :: "string \<Rightarrow> 's cli \<Rightarrow> 's cli" where "PrintRegular line = print (line @ newl)"
definition PrintNewLine :: "'s cli \<Rightarrow> 's cli" where "PrintNewLine = print newl"
definition ClearScreen :: "'s cli \<Rightarrow> 's cli" where "ClearScreen a = a"

definition Prompt :: "string \<Rightarrow> 's cli \<Rightarrow> string \<times> 's cli" where
  "Prompt question a =
     (let a = print (question @ '': '') a in
      case cli_in a of [] \<Rightarrow> ([], a) | x # xs \<Rightarrow> (x, a\<lparr>cli_in := xs\<rparr>))"

definition PromptPassword :: "string \<Rightarrow> 's cli \<Rightarrow> string \<times> 's cli" where
  "PromptPassword question a =
     (let a = print (question @ '': '') a in
      case cli_in a of [] \<Rightarrow> ([], a) | x # xs \<Rightarrow> (x, print newl (a\<lparr>cli_in := xs\<rparr>)))"

definition printIntro :: "'s cli \<Rightarrow> bool \<times> 's cli" where
  "printIntro a = (True, PrintHeader ''Welcome to OCCA!'' a)"

definition checkGatewayConnectivity :: "'s http_lib \<Rightarrow> string \<Rightarrow> 's cli \<Rightarrow> bool \<times> 's cli" where
  "checkGatewayConnectivity H address a =
     (let a = PrintRegular (''Checking connection to gateway@'' @ address @ '' ...'') a in
      case CheckAvailability H (cli_gateway a) (cli_net a) of
        (Some err, net) \<Rightarrow>
          (False, PrintRegular (''Connecting to gateway failed. Reason: '' @ Error_text err) (a\<lparr>cli_net := net\<rparr>))
      | (None, net) \<Rightarrow> (True, PrintRegular ''Connection to gateway successful!'' (a\<lparr>cli_net := net\<rparr>)))"

definition cli_login :: "'s cli \<Rightarrow> bool \<times> 's cli" where
  "cli_login a =
     (let a = PrintNewLine a;
          (userName, a) = Prompt ''Enter your user name'' a;
          (password, a) = PromptPassword ''Enter your password'' a;
          a = PrintNewLine a in
      case gc_Login userName password (cli_gateway a) of
        (Some err, g) \<Rightarrow> (False, PrintRegular (''Failed to login. Reason: '' @ Error_text err) (a\<lparr>cli_gateway := g\<rparr>))
      | (None, g) \<Rightarrow>
          (True, PrintRegular (''Login successfully. Welcome back, '' @ userName @ ''!'') (a\<lparr>cli_gateway := g\<rparr>)))"

definition printMenu :: "'s cli \<Rightarrow> 's cli" where
  "printMenu a =
     PrintRegular ''3. Exit'' (PrintRegular ''2. Clear screen'' (PrintRegular ''1. Print active users''
       (PrintHeader ''MENU'' (ClearScreen a))))"

definition printActiveUsers :: "'s cli \<Rightarrow> 's cli" where
  "printActiveUsers a =
     (case gc_ActiveUsers (cli_gateway a) of
        Inl err \<Rightarrow> PrintRegular (''Failed to fetch active users. Reason: '' @ Error_text err) a
      | Inr users \<Rightarrow>
          PrintNewLine (fold (\<lambda>u a. PrintRegular (''* '' @ u) a) users (PrintRegular ''Active users:'' a)))"

text \<open>The menu loops until the user leaves; it need not end.\<close>

partial_function (option) menuLoop :: "(string \<Rightarrow> string) \<Rightarrow> 's cli \<Rightarrow> (bool \<times> 's cli) option" where
  "menuLoop quote a =
     (let p = Prompt ''Select the option by entering the number and hitting Enter'' (PrintNewLine a) in
      case Atoi quote (fst p) of
        Inl err \<Rightarrow> menuLoop quote (PrintRegular (''Failed to parse the option. Reason: '' @ Error_text err) (snd p))
      | Inr choice \<Rightarrow>
          if choice = 1 then menuLoop quote (printActiveUsers (snd p))
          else if choice = 2 then menuLoop quote (printMenu (snd p))
          else if choice = 3 then Some (False, PrintRegular ''Good bye!'' (PrintNewLine (snd p)))
          else menuLoop quote (PrintRegular (''Option '' @ show_int choice @ '' not recognized'') (snd p)))"

definition mainMenu :: "(string \<Rightarrow> string) \<Rightarrow> 's cli \<Rightarrow> (bool \<times> 's cli) option" where
  "mainMenu quote a = menuLoop quote (printMenu a)"

text \<open>The stages run until one says no; the exit hooks run after the last one.\<close>

fun run_stages :: "('s cli \<Rightarrow> (bool \<times> 's cli) option) list \<Rightarrow> 's cli \<Rightarrow> 's cli go option" where
  "run_stages [] a = Some (go_bind (gc_Close (cli_gateway a)) (\<lambda>g. Ret (a\<lparr>cli_gateway := g\<rparr>)))"
| "run_stages (stage # stages) a =
     (case stage a of
        None \<Rightarrow> None
      | Some (ok, a') \<Rightarrow> if ok then run_stages stages a' else Some (Ret a'))"

definition cli_Run :: "'s http_lib \<Rightarrow> (string \<Rightarrow> string) \<Rightarrow> string \<Rightarrow> string list \<Rightarrow> 's \<Rightarrow> 's cli go option" where
  "cli_Run H quote address answers net =
     run_stages [Some \<circ> printIntro, Some \<circ> checkGatewayConnectivity H address, Some \<circ> cli_login, mainMenu quote]
       \<lparr>cli_gateway = gc_New address, cli_in = answers, cli_out = [], cli_net = net\<rparr>"

text \<open>\<open>cmd/cliclient/main.go\<close>: \<open>flag\<close> is the address that the command line gives, if any.\<close>

definition gatewayAddress :: "string option \<Rightarrow> string" where
  "gatewayAddress flag = (case flag of None \<Rightarrow> ''localhost:9000'' | Some a \<Rightarrow> a)"

definition cliclient_main :: "'s http_lib \<Rightarrow> (string \<Rightarrow> string) \<Rightarrow> string option \<Rightarrow> string list \<Rightarrow> 's \<Rightarrow> 's cli go option" where
  "cliclient_main H quote flag answers net = cli_Run H quote (gatewayAddress flag) answers net"

section \<open>What the terminal client does\<close>

lemma print_simps [simp]:
  "cli_in (print x a) = cli_in a" "cli_gateway (print x a) = cli_gateway a"
  "cli_in (PrintHeader x a) = cli_in a" "cli_gateway (PrintHeader x a) = cli_gateway a"
  "cli_in (PrintRegular x a) = cli_in a" "cli_gateway (PrintRegular x a) = cli_gateway a"
  "cli_in (PrintNewLine a) = cli_in a" "cli_gateway (PrintNewLine a) = cli_gateway a"
  "cli_in (printMenu a) = cli_in a" "cli_gateway (printMenu a) = cli_gateway a"
  by (simp_all add: print_def PrintHeader_def PrintRegular_def PrintNewLine_def printMenu_def ClearScreen_def)

lemma printActiveUsers_simps [simp]: "cli_in (printActiveUsers a) = cli_in a" "cli_gateway (printActiveUsers a) = cli_gateway a"
  by (simp_all add: printActiveUsers_def gc_ActiveUsers_def)

lemma Prompt_gateway [simp]: "cli_gateway (snd (Prompt question a)) = cli_gateway a"
  "cli_gateway (snd (PromptPassword question a)) = cli_gateway a"
  by (simp_all add: Prompt_def PromptPassword_def Let_def split: list.split)

text \<open>The menu never asks for the next stage, so the exit hooks, and with them the closing of the gateway
  client, never run; and when the input ends, the menu goes on for ever.\<close>

lemma menuLoop_result: "menuLoop quote a = Some r \<Longrightarrow> \<not> fst r \<and> cli_gateway (snd r) = cli_gateway a"
proof (rule menuLoop.raw_induct [where P = "\<lambda>quote a r. \<not> fst r \<and> cli_gateway (snd r) = cli_gateway a"])
  fix loop :: "(string \<Rightarrow> string) \<Rightarrow> 's cli \<Rightarrow> (bool \<times> 's cli) option" and quote a r
  assume IH: "\<And>quote a y. loop quote a = Some y \<Longrightarrow> \<not> fst y \<and> cli_gateway (snd y) = cli_gateway a"
    and "(let p = Prompt ''Select the option by entering the number and hitting Enter'' (PrintNewLine a) in
      case Atoi quote (fst p) of
        Inl err \<Rightarrow> loop quote (PrintRegular (''Failed to parse the option. Reason: '' @ Error_text err) (snd p))
      | Inr choice \<Rightarrow>
          if choice = 1 then loop quote (printActiveUsers (snd p))
          else if choice = 2 then loop quote (printMenu (snd p))
          else if choice = 3 then Some (False, PrintRegular ''Good bye!'' (PrintNewLine (snd p)))
          else loop quote (PrintRegular (''Option '' @ show_int choice @ '' not recognized'') (snd p))) = Some r"
  then show "\<not> fst r \<and> cli_gateway (snd r) = cli_gateway a"
    by (auto simp: Let_def dest!: IH split: sum.splits if_splits)
qed

lemma Atoi_empty: "\<exists>err. Atoi quote [] = Inl err"
  by (simp add: Atoi_def)

lemma menuLoop_end_of_input: "menuLoop quote a = Some r \<Longrightarrow> cli_in a \<noteq> []"
proof (rule menuLoop.raw_induct [where P = "\<lambda>quote a r. cli_in a \<noteq> []"])
  fix loop :: "(string \<Rightarrow> string) \<Rightarrow> 's cli \<Rightarrow> (bool \<times> 's cli) option" and quote a r
  assume IH: "\<And>quote a y. loop quote a = Some y \<Longrightarrow> cli_in a \<noteq> []"
    and run: "(let p = Prompt ''Select the option by entering the number and hitting Enter'' (PrintNewLine a) in
      case Atoi quote (fst p) of
        Inl err \<Rightarrow> loop quote (PrintRegular (''Failed to parse the option. Reason: '' @ Error_text err) (snd p))
      | Inr choice \<Rightarrow>
          if choice = 1 then loop quote (printActiveUsers (snd p))
          else if choice = 2 then loop quote (printMenu (snd p))
          else if choice = 3 then Some (False, PrintRegular ''Good bye!'' (PrintNewLine (snd p)))
          else loop quote (PrintRegular (''Option '' @ show_int choice @ '' not recognized'') (snd p))) = Some r"
  show "cli_in a \<noteq> []"
  proof
    assume "cli_in a = []"
    then have p: "fst (Prompt q (PrintNewLine a)) = []" "cli_in (snd (Prompt q (PrintNewLine a))) = []" for q
      by (simp_all add: Prompt_def Let_def)
    obtain err where "Atoi quote [] = Inl err" using Atoi_empty by blast
    with run p show False by (auto simp: Let_def dest!: IH)
  qed
qed

lemma cli_never_closes_gateway:
  assumes "cli_Run H quote address answers net = Some r"
  shows "\<exists>a. r = Ret a \<and> gc_stopCh (cli_gateway a) \<and> gc_token (cli_gateway a) = []"
proof -
  define a0 where "a0 = \<lparr>cli_gateway = gc_New address, cli_in = answers, cli_out = [], cli_net = net\<rparr>"
  obtain ok1 a1 where check: "checkGatewayConnectivity H address (snd (printIntro a0)) = (ok1, a1)" by (metis surj_pair)
  obtain ok2 a2 where login: "cli_login a1 = (ok2, a2)" by (metis surj_pair)
  have g0: "gc_stopCh (cli_gateway (snd (printIntro a0)))" "gc_token (cli_gateway (snd (printIntro a0))) = []"
    by (simp_all add: a0_def printIntro_def gc_New_def)
  have g1: "cli_gateway a1 = cli_gateway (snd (printIntro a0))"
    using check by (auto simp: checkGatewayConnectivity_def Let_def split: prod.splits option.splits)
  have g2: "cli_gateway a2 = cli_gateway a1"
    using login Prompt_gateway
    by (auto simp: cli_login_def Let_def gc_Login_def split: prod.splits) (metis Prompt_gateway print_simps(8) snd_conv)
  have run: "cli_Run H quote address answers net =
      (if ok1 then if ok2 then run_stages [mainMenu quote] a2 else Some (Ret a2) else Some (Ret a1))"
    using check login by (simp add: cli_Run_def a0_def printIntro_def)
  show ?thesis
  proof (cases "ok1 \<and> ok2")
    case False
    then show ?thesis using assms run g0 g1 g2 by (auto split: if_splits)
  next
    case True
    then obtain x where x: "mainMenu quote a2 = Some x" using assms run by (cases "mainMenu quote a2") auto
    then have "\<not> fst x \<and> cli_gateway (snd x) = cli_gateway a2"
      using menuLoop_result [of quote "printMenu a2" x] by (simp add: mainMenu_def)
    then show ?thesis using assms run True x g0 g1 g2 by (auto simp: split_beta)
  qed
qed

text \<open>Whatever is entered, the login reports success, and no token is ever stored.\<close>

lemma any_password_logs_in: "fst (cli_login a) \<and> (fst (gc_Login name password c) = None)"
  by (simp add: cli_login_def Let_def gc_Login_def split: prod.split)

end
