(* ===== verification/Auth.thy ===== *)
theory Auth
  imports HttpKit Ident
begin

text \<open>
  \<open>pkg/auth\<close> and \<open>pkg/auth/db\<close>: principals in the request context, the HTTP middleware and the gRPC
  interceptor that check a token, the JWT issuer and validator, logging in and registering against
  the users database, and the configuration that builds them. The JWT, bcrypt, gorm and key-parsing
  libraries are parameters; times are nanoseconds since the epoch.
\<close>

section \<open>types.go, context.go, none.go\<close>

record Principal =
  p_ID :: ID
  p_UserName :: string

definition PrincipalFromContext :: "Principal option \<Rightarrow> Principal go" where
  "PrincipalFromContext ctx =
     (case ctx of
        None \<Rightarrow> Panic ''interface conversion: interface {} is nil, not auth.Principal''
      | Some p \<Rightarrow> Ret p)"

definition ContextWithPrincipal :: "Principal option \<Rightarrow> Principal \<Rightarrow> Principal option" where
  "ContextWithPrincipal ctx p = Some p"

text \<open>\<open>u\<close> is the identifier drawn when the package is initialised.\<close>

definition noopPrincipal :: "uuid \<Rightarrow> Principal" where
  "noopPrincipal u = \<lparr>p_ID = NewID u, p_UserName = ''The_User''\<rparr>"

definition noop_Issue :: "Principal \<Rightarrow> string result" where "noop_Issue p = Inr ''token''"
definition noop_Validate :: "uuid \<Rightarrow> string \<Rightarrow> 's \<Rightarrow> Principal result" where
  "noop_Validate u tok s = Inr (noopPrincipal u)"

section \<open>http.go\<close>

text \<open>A validator looks at a token in the current state (it reads the clock).\<close>

type_synonym 's token_validator = "string \<Rightarrow> 's \<Rightarrow> Principal result"

definition bearer :: string where "bearer = ''Bearer ''"

definition strip_bearer :: "string \<Rightarrow> string" where
  "strip_bearer token = (if prefix bearer token then drop (length bearer) token else token)"

definition HTTPTokenAuthorizationMiddleware :: "'s token_validator \<Rightarrow> (Principal option, 's) middleware" where
  "HTTPTokenAuthorizationMiddleware validate next_handler r st =
     (case st of (w, s) \<Rightarrow>
        let token = header_Get ''Authorization'' (rq_headers r) in
        if token = []
        then Ret (RespondWithJSONError (ErrUnauthorized (Opaque ''missing Authorization header'')) w, s)
        else (case validate (strip_bearer token) s of
                Inl err \<Rightarrow> Ret (RespondWithJSONError (ErrUnauthorized err) w, s)
              | Inr prin \<Rightarrow>
                  next_handler (r\<lparr>rq_ctx := ContextWithPrincipal (rq_ctx r) prin\<rparr>) (w, s)))"

definition HTTPNoopMiddleware :: "uuid \<Rightarrow> (Principal option, 's) middleware" where
  "HTTPNoopMiddleware u next_handler r st =
     next_handler (r\<lparr>rq_ctx := ContextWithPrincipal (rq_ctx r) (noopPrincipal u)\<rparr>) st"

section \<open>grpc.go\<close>

text \<open>The metadata of an incoming call, if there is any: the values of each key.\<close>

type_synonym grpc_metadata = "(string \<Rightarrow> string list) option"

type_synonym ('req, 's) stream_handler = "'req \<Rightarrow> 's \<Rightarrow> (grpc_status option \<times> 's) go"
type_synonym ('req, 's) interceptor =
  "('req, 's) stream_handler \<Rightarrow> grpc_metadata \<Rightarrow> ('req, 's) stream_handler"

definition authorizeRequest :: "'s token_validator \<Rightarrow> grpc_metadata \<Rightarrow> 's \<Rightarrow> Principal result" where
  "authorizeRequest validate md s =
     (case md of
        None \<Rightarrow> Inl (Opaque ''missing gRPC metadata'')
      | Some get \<Rightarrow>
          (case get ''authorization'' of
             [token] \<Rightarrow>
               (case validate (strip_bearer token) s of
                  Inl err \<Rightarrow> Inl err
                | Inr prin \<Rightarrow> Inr prin)
           | _ \<Rightarrow> Inl (Opaque ''missing Authorization token'')))"

definition GRPCStreamTokenAuthorizationInterceptor :: "'s token_validator \<Rightarrow> ('req, 's) interceptor" where
  "GRPCStreamTokenAuthorizationInterceptor validate handler md req s =
     (case authorizeRequest validate md s of
        Inl err \<Rightarrow> Ret (Some (grpc_Error (ErrUnauthorized err)), s)
      | Inr _ \<Rightarrow> handler req s)"

definition GRPCStreamNoopInterceptor :: "('req, 's) interceptor" where
  "GRPCStreamNoopInterceptor handler md req s = handler req s"

section \<open>jwt.go\<close>

definition jwtIssuerDomain :: string where "jwtIssuerDomain = ''faustasbutkus.eu''"
definition tokenDuration :: duration where "tokenDuration = 24 * 3600 * Second"

record claims =
  c_Issuer :: string
  c_ExpiresAt :: "int option"
  c_Principal :: Principal

text \<open>
  The library: signing, parsing with the check of the signature and of the time claims that are
  present, and the validator that was built with a required expiry.
\<close>

record ('sk, 'pk) jwt_lib =
  jwt_SignedString :: "'sk \<Rightarrow> claims \<Rightarrow> string result"
  jwt_ParseWithClaims :: "'pk \<Rightarrow> string \<Rightarrow> int \<Rightarrow> claims result"
  jwt_Validate :: "claims \<Rightarrow> int \<Rightarrow> go_error option"

text \<open>Numeric dates are whole seconds.\<close>

definition NewNumericDate :: "int \<Rightarrow> int" where "NewNumericDate t = t div Second"

definition JWTIssuer_Issue :: "('sk, 'pk) jwt_lib \<Rightarrow> 'sk \<Rightarrow> int \<Rightarrow> Principal \<Rightarrow> string result" where
  "JWTIssuer_Issue J key now p =
     jwt_SignedString J key
       \<lparr>c_Issuer = jwtIssuerDomain, c_ExpiresAt = Some (NewNumericDate (now + tokenDuration)),
        c_Principal = p\<rparr>"

definition JWTValidator_Validate ::
  "('sk, 'pk) jwt_lib \<Rightarrow> 'pk \<Rightarrow> ('s \<Rightarrow> int) \<Rightarrow> 's token_validator" where
  "JWTValidator_Validate J key clock token s =
     (case jwt_ParseWithClaims J key token (clock s) of
        Inl err \<Rightarrow> Inl err
      | Inr c \<Rightarrow>
          (case jwt_Validate J c (clock s) of
             Some err \<Rightarrow> Inl err
           | None \<Rightarrow> Inr (c_Principal c)))"

text \<open>
  What the library documents for a key pair: a token signed with the private key parses under the
  public one as long as its expiry lies ahead, nothing parses after its expiry, and the second
  validation succeeds exactly when there is an expiry and it lies ahead. The claims travel as JSON,
  so the user name must be valid UTF-8.
\<close>

definition jwt_unexpired :: "claims \<Rightarrow> int \<Rightarrow> bool" where
  "jwt_unexpired c t \<longleftrightarrow> (case c_ExpiresAt c of None \<Rightarrow> True | Some exp \<Rightarrow> t < exp * Second)"

definition jwt_laws :: "('sk, 'pk) jwt_lib \<Rightarrow> 'sk \<Rightarrow> 'pk \<Rightarrow> bool" where
  "jwt_laws J sk pk \<longleftrightarrow>
     (\<forall>c tok t. jwt_SignedString J sk c = Inr tok \<longrightarrow> valid_utf8 (p_UserName (c_Principal c)) \<longrightarrow>
        (if jwt_unexpired c t then jwt_ParseWithClaims J pk tok t = Inr c
         else \<exists>err. jwt_ParseWithClaims J pk tok t = Inl err)) \<and>
     (\<forall>c t. jwt_Validate J c t = None \<longleftrightarrow> c_ExpiresAt c \<noteq> None \<and> jwt_unexpired c t)"

text \<open>Reading the keys: the file system, PEM and the two key formats; a key of another kind is
  represented by the name of its type.\<close>

record 'k key_lib =
  kl_ReadFile :: "string \<Rightarrow> string result"
  kl_pem_Decode :: "string \<Rightarrow> string option"
  kl_Parse :: "string \<Rightarrow> (string + 'k) result"

definition ReadPublicKey :: "'k key_lib \<Rightarrow> string \<Rightarrow> 'k result" where
  "ReadPublicKey K path =
     (case kl_ReadFile K path of
        Inl err \<Rightarrow> Inl (Wrapped ''reading public key'' err)
      | Inr keyBytes \<Rightarrow>
          (case kl_pem_Decode K keyBytes of
             None \<Rightarrow> Inl (Opaque ''failed to decode PEM block containing public key'')
           | Some block \<Rightarrow>
               (case kl_Parse K block of
                  Inl err \<Rightarrow> Inl err
                | Inr (Inl typ) \<Rightarrow> Inl (Opaque (''expected *rsa.PublicKey, got '' @ typ))
                | Inr (Inr key) \<Rightarrow> Inr key)))"

definition ReadPrivateKey :: "'k key_lib \<Rightarrow> string \<Rightarrow> 'k result" where
  "ReadPrivateKey K path =
     (case kl_ReadFile K path of
        Inl err \<Rightarrow> Inl (Wrapped ''reading private key'' err)
      | Inr keyBytes \<Rightarrow>
          (case kl_pem_Decode K keyBytes of
             None \<Rightarrow> Inl (Opaque ''failed to decode PEM block containing private key'')
           | Some block \<Rightarrow>
               (case kl_Parse K block of
                  Inl err \<Rightarrow> Inl (Wrapped ''parsing private key'' err)
                | Inr (Inl typ) \<Rightarrow> Inl (Opaque (''could not cast '' @ typ @ '' to *rsa.PrivateKey''))
                | Inr (Inr key) \<Rightarrow> Inr key)))"

section \<open>config.go\<close>

record ValidatorConfiguration =
  vc_Type :: string
  vc_PublicKeyPath :: string

definition ValidatorConfigurationNoop :: string where "ValidatorConfigurationNoop = ''noop''"
definition ValidatorConfigurationJWTRSA :: string where "ValidatorConfigurationJWTRSA = ''jwtRSA''"

definition JWTValidatorConfiguration_Build ::
  "('sk, 'pk) jwt_lib \<Rightarrow> 'pk key_lib \<Rightarrow> ('s \<Rightarrow> int) \<Rightarrow> ValidatorConfiguration \<Rightarrow> 's token_validator result" where
  "JWTValidatorConfiguration_Build J K clock c =
     (case ReadPublicKey K (vc_PublicKeyPath c) of
        Inl err \<Rightarrow> Inl (Wrapped ''reading public key'' err)
      | Inr publicKey \<Rightarrow> Inr (JWTValidator_Validate J publicKey clock))"

definition BuildHTTPMiddleware ::
  "('sk, 'pk) jwt_lib \<Rightarrow> 'pk key_lib \<Rightarrow> ('s \<Rightarrow> int) \<Rightarrow> uuid \<Rightarrow> ValidatorConfiguration \<Rightarrow>
    (Principal option, 's) middleware result" where
  "BuildHTTPMiddleware J K clock u c =
     (if vc_Type c = ValidatorConfigurationNoop then Inr (HTTPNoopMiddleware u)
      else if vc_Type c = ValidatorConfigurationJWTRSA then
        (case JWTValidatorConfiguration_Build J K clock c of
           Inl err \<Rightarrow> Inl (Wrapped ''building JWT RSA validator'' err)
         | Inr validator \<Rightarrow> Inr (HTTPTokenAuthorizationMiddleware validator))
      else Inl (Opaque ''auth not configured''))"

definition BuildGRPCStreamInterceptor ::
  "('sk, 'pk) jwt_lib \<Rightarrow> 'pk key_lib \<Rightarrow> ('s \<Rightarrow> int) \<Rightarrow> ValidatorConfiguration \<Rightarrow>
    ('req, 's) interceptor result" where
  "BuildGRPCStreamInterceptor J K clock c =
     (if vc_Type c = ValidatorConfigurationNoop then Inr GRPCStreamNoopInterceptor
      else if vc_Type c = ValidatorConfigurationJWTRSA then
        (case JWTValidatorConfiguration_Build J K clock c of
           Inl err \<Rightarrow> Inl (Wrapped ''building JWT RSA validator'' err)
         | Inr validator \<Rightarrow> Inr (GRPCStreamTokenAuthorizationInterceptor validator))
      else Inl (Opaque ''auth not configured''))"

section \<open>db/users.go and db/model.go\<close>

record User =
  usr_ID :: string
  usr_Username :: string
  usr_Password :: string

definition zero_User :: User where
  "zero_User = \<lparr>usr_ID = [], usr_Username = [], usr_Password = []\<rparr>"

text \<open>
  gorm: inserting a row (after its hook), and a \<open>Find\<close> by user name into a given struct, which is no
  error when there is no such row.
\<close>

record 'g gorm_lib =
  gorm_Insert :: "User \<Rightarrow> 'g \<Rightarrow> go_error option \<times> 'g"
  gorm_Find_username :: "string \<Rightarrow> User \<Rightarrow> 'g \<Rightarrow> go_error option \<times> User"

definition BeforeCreate :: "uuid_lib \<Rightarrow> uuid \<Rightarrow> User \<Rightarrow> User" where
  "BeforeCreate L u user = user\<lparr>usr_ID := ID_String L (NewID u)\<rparr>"

definition UsersDB_Create :: "uuid_lib \<Rightarrow> 'g gorm_lib \<Rightarrow> uuid \<Rightarrow> User \<Rightarrow> 'g \<Rightarrow> go_error option \<times> 'g" where
  "UsersDB_Create L G u user g = gorm_Insert G (BeforeCreate L u user) g"

definition UsersDB_FindByUsername :: "'g gorm_lib \<Rightarrow> string \<Rightarrow> 'g \<Rightarrow> User result" where
  "UsersDB_FindByUsername G username g =
     (case gorm_Find_username G username zero_User g of
        (Some err, _) \<Rightarrow> Inl err
      | (None, user) \<Rightarrow> Inr user)"

text \<open>
  A table view: the rows by their collated user name (the unique key; the collation of the database
  may identify names).
\<close>

definition gorm_laws :: "'g gorm_lib \<Rightarrow> (string \<Rightarrow> string) \<Rightarrow> ('g \<Rightarrow> string \<rightharpoonup> User) \<Rightarrow> ('g \<Rightarrow> bool) \<Rightarrow> bool" where
  "gorm_laws G collate rows up \<longleftrightarrow>
     (\<forall>user g g'. gorm_Insert G user g = (None, g') \<longrightarrow> rows g (collate (usr_Username user)) = None \<and>
        rows g' = (rows g)(collate (usr_Username user) \<mapsto> user)) \<and>
     (\<forall>user g err g'. gorm_Insert G user g = (Some err, g') \<longrightarrow> rows g' = rows g) \<and>
     (\<forall>name dest g. up g \<longrightarrow> gorm_Find_username G name dest g =
        (None, case rows g (collate name) of None \<Rightarrow> dest | Some user \<Rightarrow> user))"

section \<open>registerer.go\<close>

record bcrypt_lib =
  bc_Generate :: "string \<Rightarrow> string \<Rightarrow> string result"
  bc_Compare :: "string \<Rightarrow> string \<Rightarrow> bool"

text \<open>A hash accepts its password (the second argument of \<open>bc_Generate\<close> is the salt), and the empty
  string is no hash.\<close>

definition bcrypt_laws :: "bcrypt_lib \<Rightarrow> bool" where
  "bcrypt_laws B \<longleftrightarrow>
     (\<forall>p salt h. bc_Generate B p salt = Inr h \<longrightarrow> bc_Compare B h p) \<and> (\<forall>p. \<not> bc_Compare B [] p)"

definition Login ::
  "uuid_lib \<Rightarrow> 'g gorm_lib \<Rightarrow> bcrypt_lib \<Rightarrow> (Principal \<Rightarrow> string result) \<Rightarrow> string \<Rightarrow> string \<Rightarrow> 'g \<Rightarrow>
    string result go" where
  "Login L G B issue username password g =
     (case UsersDB_FindByUsername G username g of
        Inl err \<Rightarrow> Ret (Inl (Wrapped ''fetching user'' err))
      | Inr user \<Rightarrow>
          if \<not> bc_Compare B (usr_Password user) password
          then Ret (Inl (ErrUnauthorized (Opaque ''passwords do not match'')))
          else go_bind (FromString L (usr_ID user))
                 (\<lambda>uid. case issue \<lparr>p_ID = uid, p_UserName = username\<rparr> of
                    Inl err \<Rightarrow> Ret (Inl (Wrapped ''issuing token'' err))
                  | Inr token \<Rightarrow> Ret (Inr token)))"

definition Register ::
  "uuid_lib \<Rightarrow> 'g gorm_lib \<Rightarrow> bcrypt_lib \<Rightarrow> uuid \<Rightarrow> string \<Rightarrow> string \<Rightarrow> string \<Rightarrow> 'g \<Rightarrow>
    go_error option \<times> 'g" where
  "Register L G B u salt username password g =
     (case bc_Generate B password salt of
        Inl err \<Rightarrow> (Some (Wrapped ''hashing password'' err), g)
      | Inr hashedPass \<Rightarrow>
          UsersDB_Create L G u \<lparr>usr_ID = [], usr_Username = username, usr_Password = hashedPass\<rparr> g)"

text \<open>\<open>Close\<close> calls itself; it has no other effect.\<close>

partial_function (option) RegistererImpl_Close :: "unit \<Rightarrow> go_error option option" where
  "RegistererImpl_Close s = RegistererImpl_Close s"


lemma RegistererImpl_Close_diverges: "RegistererImpl_Close s = None"
proof -
  have "RegistererImpl_Close s = Some y \<Longrightarrow> False" for y
    by (rule RegistererImpl_Close.raw_induct [where P = "\<lambda>_ _. False"]) auto
  then show ?thesis by (cases "RegistererImpl_Close s") auto
qed

section \<open>The contract of a token validator\<close>

text \<open>
  \<open>authentic token s p\<close>: in the state \<open>s\<close> the token speaks for \<open>p\<close>. A validator accepts only
  authentic tokens; then both transports let a handler see only authenticated requests.
\<close>

locale token_checker =
  fixes validate :: "string \<Rightarrow> 's \<Rightarrow> Principal result" and authentic :: "string \<Rightarrow> 's \<Rightarrow> Principal \<Rightarrow> bool"
  assumes validate_sound: "validate token s = Inr p \<Longrightarrow> authentic token s p"
begin

lemma http_authenticated:
  assumes "w_status w = None"
  shows "(\<exists>p. authentic (strip_bearer (header_Get ''Authorization'' (rq_headers r))) s p \<and>
      HTTPTokenAuthorizationMiddleware validate next_handler r (w, s) = next_handler (r\<lparr>rq_ctx := Some p\<rparr>) (w, s)) \<or>
    (\<exists>w'. HTTPTokenAuthorizationMiddleware validate next_handler r (w, s) = Ret (w', s) \<and>
      w_status w' = Some StatusUnauthorized)"
proof -
  have "StatusCode (DetermineHTTPError (ErrUnauthorized err)) = StatusUnauthorized" for err
    by (simp add: DetermineHTTPError_def ErrUnauthorized_def TypeUnauthorized_def TypeBadRequest_def)
  note unauthorized = this RespondWithJSONError_simps(1) [OF assms]
  show ?thesis
  proof (cases "validate (strip_bearer (header_Get ''Authorization'' (rq_headers r))) s")
    case (Inr p)
    then show ?thesis
      using validate_sound [OF Inr] unauthorized
      by (cases "header_Get ''Authorization'' (rq_headers r) = []")
        (force simp: HTTPTokenAuthorizationMiddleware_def Let_def ContextWithPrincipal_def)+
  qed (use unauthorized in \<open>simp add: HTTPTokenAuthorizationMiddleware_def Let_def\<close>)
qed

lemma grpc_authenticated:
  "(\<exists>get token p. md = Some get \<and> get ''authorization'' = [token] \<and> authentic (strip_bearer token) s p \<and>
      GRPCStreamTokenAuthorizationInterceptor validate handler md req s = handler req s) \<or>
   (\<exists>st. GRPCStreamTokenAuthorizationInterceptor validate handler md req s = Ret (Some st, s) \<and>
      grpc_code st = Unauthenticated)"
proof -
  have u: "grpc_code (grpc_Error (ErrUnauthorized err)) = Unauthenticated" for err
    by (simp add: grpc_Error_def ErrUnauthorized_def TypeUnauthorized_def TypeBadRequest_def)
  show ?thesis
  proof (cases "authorizeRequest validate md s")
    case (Inr p)
    then obtain get token where "md = Some get" "get ''authorization'' = [token]"
      "validate (strip_bearer token) s = Inr p"
      by (auto simp: authorizeRequest_def split: option.splits list.splits sum.splits)
    with Inr validate_sound show ?thesis
      by (auto simp: GRPCStreamTokenAuthorizationInterceptor_def)
  qed (simp add: GRPCStreamTokenAuthorizationInterceptor_def u)
qed

end

text \<open>The two validators of the package. A JWT is authentic when it parses under the key and its
  claims validate; without authentication every token speaks for the one fixed principal.\<close>

definition jwt_authentic :: "('sk, 'pk) jwt_lib \<Rightarrow> 'pk \<Rightarrow> ('s \<Rightarrow> int) \<Rightarrow> string \<Rightarrow> 's \<Rightarrow> Principal \<Rightarrow> bool" where
  "jwt_authentic J pk clock token s p \<longleftrightarrow>
     (\<exists>c. jwt_ParseWithClaims J pk token (clock s) = Inr c \<and> jwt_Validate J c (clock s) = None \<and>
        p = c_Principal c)"

interpretation jwt: token_checker "JWTValidator_Validate J pk clock" "jwt_authentic J pk clock" for J pk clock
  by unfold_locales (auto simp: JWTValidator_Validate_def jwt_authentic_def split: sum.splits option.splits)

interpretation noop: token_checker "noop_Validate u" "\<lambda>token s p. p = noopPrincipal u" for u
  by unfold_locales (simp add: noop_Validate_def)

section \<open>Issued tokens\<close>

lemma jwt_lawsD:
  assumes "jwt_laws J sk pk"
  shows "jwt_SignedString J sk c = Inr tok \<Longrightarrow> valid_utf8 (p_UserName (c_Principal c)) \<Longrightarrow>
      jwt_unexpired c t \<Longrightarrow> jwt_ParseWithClaims J pk tok t = Inr c"
    and "jwt_SignedString J sk c = Inr tok \<Longrightarrow> valid_utf8 (p_UserName (c_Principal c)) \<Longrightarrow>
      \<not> jwt_unexpired c t \<Longrightarrow> \<exists>err. jwt_ParseWithClaims J pk tok t = Inl err"
    and "jwt_Validate J c t = None \<longleftrightarrow> c_ExpiresAt c \<noteq> None \<and> jwt_unexpired c t"
  using assms unfolding jwt_laws_def by (meson | simp)+

lemma issued_token_validity:
  assumes "jwt_laws J sk pk" and "valid_utf8 (p_UserName p)" and "JWTIssuer_Issue J sk now p = Inr token"
  shows "clock s < (now + tokenDuration) div Second * Second \<Longrightarrow> JWTValidator_Validate J pk clock token s = Inr p"
    and "now + tokenDuration \<le> clock s \<Longrightarrow> \<exists>err. JWTValidator_Validate J pk clock token s = Inl err"
proof -
  let ?c = "\<lparr>c_Issuer = jwtIssuerDomain, c_ExpiresAt = Some (NewNumericDate (now + tokenDuration)), c_Principal = p\<rparr>"
  have signed: "jwt_SignedString J sk ?c = Inr token" "valid_utf8 (p_UserName (c_Principal ?c))"
    using assms(2,3) by (simp_all add: JWTIssuer_Issue_def)
  have unexpired: "jwt_unexpired ?c t \<longleftrightarrow> t < (now + tokenDuration) div Second * Second" for t
    by (simp add: jwt_unexpired_def NewNumericDate_def)
  show "JWTValidator_Validate J pk clock token s = Inr p"
    if "clock s < (now + tokenDuration) div Second * Second"
    using that jwt_lawsD(1) [OF assms(1) signed, of "clock s"] jwt_lawsD(3) [OF assms(1), of ?c "clock s"] unexpired
    by (simp add: JWTValidator_Validate_def)
  show "\<exists>err. JWTValidator_Validate J pk clock token s = Inl err" if "now + tokenDuration \<le> clock s"
  proof -
    have "(now + tokenDuration) div Second * Second \<le> now + tokenDuration" by (simp add: Second_eq)
    then have "\<not> jwt_unexpired ?c (clock s)" using that unexpired by simp
    then obtain err where "jwt_ParseWithClaims J pk token (clock s) = Inl err"
      using jwt_lawsD(2) [OF assms(1) signed] by blast
    then show ?thesis by (simp add: JWTValidator_Validate_def)
  qed
qed

section \<open>Registered users\<close>

lemma find_up:
  assumes "gorm_laws G collate rows up" and "up g"
  shows "UsersDB_FindByUsername G name g = Inr (case rows g (collate name) of None \<Rightarrow> zero_User | Some v \<Rightarrow> v)"
  using assms unfolding gorm_laws_def UsersDB_FindByUsername_def by simp

lemma registered_row:
  assumes "gorm_laws G collate rows up" and "Register L G B u salt username password g = (None, g')"
  shows "\<exists>h. bc_Generate B password salt = Inr h \<and> rows g (collate username) = None \<and>
    rows g' = (rows g)(collate username \<mapsto>
      \<lparr>usr_ID = ID_String L (NewID u), usr_Username = username, usr_Password = h\<rparr>)"
proof -
  obtain h where h: "bc_Generate B password salt = Inr h"
    "gorm_Insert G \<lparr>usr_ID = ID_String L (NewID u), usr_Username = username, usr_Password = h\<rparr> g = (None, g')"
    using assms(2) by (auto simp: Register_def UsersDB_Create_def BeforeCreate_def split: sum.splits)
  then show ?thesis
    using assms(1) unfolding gorm_laws_def by (metis User.select_convs(2))
qed

lemma login_of_row:
  assumes "uuid_laws L" and "gorm_laws G collate rows up" and "bcrypt_laws B" and "up g"
    and "rows g (collate name) = Some \<lparr>usr_ID = ID_String L i, usr_Username = username, usr_Password = h\<rparr>"
    and "bc_Generate B password salt = Inr h"
  shows "Login L G B issue name password g =
      Ret (case issue \<lparr>p_ID = i, p_UserName = name\<rparr> of
             Inl err \<Rightarrow> Inl (Wrapped ''issuing token'' err) | Inr token \<Rightarrow> Inr token)"
proof -
  have "bc_Compare B h password" using assms(3,6) unfolding bcrypt_laws_def by blast
  then show ?thesis
    using find_up [OF assms(2,4), of name] assms(5) FromString_String [OF assms(1), of i]
    by (simp add: Login_def split: sum.splits)
qed

text \<open>A failed login does not tell whether the user exists: an unknown name and a wrong password give the
  same error.\<close>

lemma failed_login_reveals_nothing:
  assumes "gorm_laws G collate rows up" and "bcrypt_laws B" and "up g"
    and "\<forall>user. rows g (collate username) = Some user \<longrightarrow> \<not> bc_Compare B (usr_Password user) password"
  shows "\<exists>err. Login L G B issue username password g = Ret (Inl err) \<and>
    err = ErrUnauthorized (Opaque ''passwords do not match'') \<and>
    StatusCode (DetermineHTTPError err) = StatusUnauthorized \<and>
    Details (DetermineHTTPError err) = ''passwords do not match''"
proof -
  have "UsersDB_FindByUsername G username g =
      Inr (case rows g (collate username) of None \<Rightarrow> zero_User | Some v \<Rightarrow> v)"
    using assms(1,3) unfolding gorm_laws_def UsersDB_FindByUsername_def by simp
  moreover have "\<not> bc_Compare B (usr_Password (case rows g (collate username) of None \<Rightarrow> zero_User | Some v \<Rightarrow> v)) password"
    using assms(2,4) by (auto simp: bcrypt_laws_def zero_User_def split: option.split)
  ultimately show ?thesis
    by (simp add: Login_def DetermineHTTPError_def ErrUnauthorized_def TypeUnauthorized_def TypeBadRequest_def)
qed

section \<open>Concrete libraries\<close>

text \<open>A signature that renders nothing secret, a table as an association list and a hash that keeps
  the password: they satisfy the laws and serve the witnesses.\<close>

definition ref_claims :: claims where
  "ref_claims = \<lparr>c_Issuer = jwtIssuerDomain, c_ExpiresAt = Some 86400, c_Principal = \<lparr>p_ID = ID 7, p_UserName = ''bob''\<rparr>\<rparr>"

definition ref_jwt :: "(unit, unit) jwt_lib" where
  "ref_jwt =
     \<lparr>jwt_SignedString = (\<lambda>sk c. if c = ref_claims then Inr ''tok'' else Inl (Opaque ''other claims'')),
      jwt_ParseWithClaims = (\<lambda>pk tok t. if tok = ''tok'' \<and> jwt_unexpired ref_claims t then Inr ref_claims
        else Inl (Opaque ''token is expired'')),
      jwt_Validate = (\<lambda>c t. if c_ExpiresAt c \<noteq> None \<and> jwt_unexpired c t then None else Some (Opaque ''expired''))\<rparr>"

lemma ref_jwt_laws: "jwt_laws ref_jwt () ()"
  by (simp add: jwt_laws_def ref_jwt_def)

definition ref_gorm :: "(string \<times> User) list gorm_lib" where
  "ref_gorm =
     \<lparr>gorm_Insert = (\<lambda>user g. if map_of g (usr_Username user) = None then (None, (usr_Username user, user) # g)
        else (Some (Opaque ''Duplicate entry''), g)),
      gorm_Find_username = (\<lambda>name dest g. (None, case map_of g name of None \<Rightarrow> dest | Some user \<Rightarrow> user))\<rparr>"

lemma ref_gorm_laws: "gorm_laws ref_gorm (\<lambda>n. n) map_of (\<lambda>g. True)"
  by (auto simp: gorm_laws_def ref_gorm_def split: if_splits)

definition ref_bcrypt :: bcrypt_lib where
  "ref_bcrypt = \<lparr>bc_Generate = (\<lambda>p salt. Inr (CHR ''h'' # p)), bc_Compare = (\<lambda>h p. h = CHR ''h'' # p)\<rparr>"

lemma ref_bcrypt_laws: "bcrypt_laws ref_bcrypt"
  by (simp add: bcrypt_laws_def ref_bcrypt_def)

section \<open>Properties\<close>

text \<open>C24: With JWT validation no request gets past the HTTP middleware or the gRPC interceptor without
  a token that parses under the configured key and whose claims validate now; an HTTP handler then
  runs with exactly the principal of the claims, and everything else is answered with 401 or
  Unauthenticated without touching the state.\<close>

theorem handlers_see_authenticated_requests:
  assumes "w_status w = None"
  shows "((\<exists>p. jwt_authentic J pk clock (strip_bearer (header_Get ''Authorization'' (rq_headers r))) s p \<and>
        HTTPTokenAuthorizationMiddleware (JWTValidator_Validate J pk clock) h r (w, s) = h (r\<lparr>rq_ctx := Some p\<rparr>) (w, s)) \<or>
      (\<exists>w'. HTTPTokenAuthorizationMiddleware (JWTValidator_Validate J pk clock) h r (w, s) = Ret (w', s) \<and>
        w_status w' = Some StatusUnauthorized)) \<and>
    ((\<exists>get token p. md = Some get \<and> get ''authorization'' = [token] \<and>
        jwt_authentic J pk clock (strip_bearer token) s p \<and>
        GRPCStreamTokenAuthorizationInterceptor (JWTValidator_Validate J pk clock) g md req s = g req s) \<or>
      (\<exists>st. GRPCStreamTokenAuthorizationInterceptor (JWTValidator_Validate J pk clock) g md req s = Ret (Some st, s) \<and>
        grpc_code st = Unauthenticated))"
  by (rule conjI [OF jwt.http_authenticated [OF assms] jwt.grpc_authenticated])

definition ref_request :: "Principal option request" where
  "ref_request = \<lparr>rq_method = MethodGet, rq_path = ''/x'', rq_headers = [(''Authorization'', ''Bearer tok'')],
     rq_body = [], rq_ctx = None\<rparr>"

theorem handlers_see_authenticated_requests_witness:
  "\<exists>w'. HTTPTokenAuthorizationMiddleware (JWTValidator_Validate ref_jwt () (\<lambda>t. t)) (\<lambda>r st. Panic ''handler'')
     ref_request (fresh_writer, 86400 * Second) = Ret (w', 86400 * Second) \<and> w_status w' = Some StatusUnauthorized"
proof -
  have fresh: "w_status fresh_writer = None" by (simp add: fresh_writer_def)
  have expired: "\<not> jwt_authentic ref_jwt () (\<lambda>t. t) tok (86400 * Second) p" for tok p
    by (simp add: jwt_authentic_def ref_jwt_def jwt_unexpired_def ref_claims_def)
  show ?thesis
    using handlers_see_authenticated_requests [where J = ref_jwt and pk = "()" and clock = "\<lambda>t. t" and
        s = "86400 * Second" and r = ref_request and h = "\<lambda>r st. Panic ''handler''", OF fresh, THEN conjunct1]
    by (simp only: expired simp_thms)
qed

text \<open>C25: A token that the issuer hands out is accepted, and names the principal it was issued for, at
  every moment until a day later, cut down to the second; from a full day on it is refused.\<close>

theorem token_valid_for_a_day:
  assumes "jwt_laws J sk pk" and "valid_utf8 (p_UserName p)" and "JWTIssuer_Issue J sk now p = Inr token"
  shows "(clock s < (now + tokenDuration) div Second * Second \<longrightarrow> JWTValidator_Validate J pk clock token s = Inr p) \<and>
    (now + tokenDuration \<le> clock s \<longrightarrow> (\<exists>err. JWTValidator_Validate J pk clock token s = Inl err)) \<and>
    (now + tokenDuration) div Second * Second \<le> now + tokenDuration \<and>
    now + tokenDuration < (now + tokenDuration) div Second * Second + Second"
  by (intro conjI impI issued_token_validity [OF assms]) (simp_all add: Second_eq)

theorem token_valid_for_a_day_witness:
  "JWTIssuer_Issue ref_jwt () 5 \<lparr>p_ID = ID 7, p_UserName = ''bob''\<rparr> = Inr ''tok'' \<and>
   JWTValidator_Validate ref_jwt () (\<lambda>t. t) ''tok'' (3600 * Second) = Inr \<lparr>p_ID = ID 7, p_UserName = ''bob''\<rparr>"
proof -
  have "valid_utf8 ''bob''" by (rule valid_utf8_ascii) auto
  then have "valid_utf8 (p_UserName \<lparr>p_ID = ID 7, p_UserName = ''bob''\<rparr>)" by simp
  moreover have "JWTIssuer_Issue ref_jwt () 5 \<lparr>p_ID = ID 7, p_UserName = ''bob''\<rparr> = Inr ''tok''"
    by (simp add: JWTIssuer_Issue_def ref_jwt_def ref_claims_def NewNumericDate_def tokenDuration_def Second_eq)
  ultimately show ?thesis
    using token_valid_for_a_day [OF ref_jwt_laws, where s = "3600 * Second" and clock = "\<lambda>t. t"]
    by (auto simp: tokenDuration_def Second_eq)
qed

text \<open>C26: Who registers can log in: after a successful registration, a login under any spelling of the
  user name that the database identifies with it, with the same password, issues a token for the
  principal with the identifier drawn at the registration; the logins of all other users are as
  before; registering the same name again is refused; and a login that fails does not tell whether the
  user exists: an unknown name and a wrong password give the same error, answered with 401.\<close>

theorem registered_user_can_login:
  assumes "uuid_laws L" and "gorm_laws G collate rows up" and "bcrypt_laws B"
    and "Register L G B u salt username password g = (None, g')" and "up g" and "up g'"
    and "collate name = collate username"
  shows "Login L G B issue name password g' =
      Ret (case issue \<lparr>p_ID = NewID u, p_UserName = name\<rparr> of
             Inl err \<Rightarrow> Inl (Wrapped ''issuing token'' err) | Inr token \<Rightarrow> Inr token) \<and>
    (\<forall>other pw. collate other \<noteq> collate username \<longrightarrow>
       Login L G B issue other pw g' = Login L G B issue other pw g) \<and>
    (\<forall>u2 salt2 pw2. fst (Register L G B u2 salt2 username pw2 g') \<noteq> None) \<and>
    (\<forall>other pw. (\<forall>user. rows g' (collate other) = Some user \<longrightarrow> \<not> bc_Compare B (usr_Password user) pw) \<longrightarrow>
       (\<exists>err. Login L G B issue other pw g' = Ret (Inl err) \<and>
          err = ErrUnauthorized (Opaque ''passwords do not match'') \<and>
          StatusCode (DetermineHTTPError err) = StatusUnauthorized))"
proof -
  obtain h where h: "bc_Generate B password salt = Inr h"
    and rows: "rows g' = (rows g)(collate username \<mapsto>
      \<lparr>usr_ID = ID_String L (NewID u), usr_Username = username, usr_Password = h\<rparr>)"
    using registered_row [OF assms(2,4)] by blast
  have "Login L G B issue name password g' =
      Ret (case issue \<lparr>p_ID = NewID u, p_UserName = name\<rparr> of
             Inl err \<Rightarrow> Inl (Wrapped ''issuing token'' err) | Inr token \<Rightarrow> Inr token)"
    using rows assms(7) by (intro login_of_row [OF assms(1-3,6) _ h]) simp
  moreover have "Login L G B issue other pw g' = Login L G B issue other pw g"
    if "collate other \<noteq> collate username" for other pw
    using find_up [OF assms(2,6), of other] find_up [OF assms(2,5), of other] rows that by (simp add: Login_def)
  moreover have "fst (Register L G B u2 salt2 username pw2 g') \<noteq> None" for u2 salt2 pw2
    using registered_row [OF assms(2), of L B u2 salt2 username pw2 g' "snd (Register L G B u2 salt2 username pw2 g')"] rows
    by (metis fun_upd_same option.distinct(1) prod.collapse)
  moreover have "\<exists>err. Login L G B issue other pw g' = Ret (Inl err) \<and>
      err = ErrUnauthorized (Opaque ''passwords do not match'') \<and>
      StatusCode (DetermineHTTPError err) = StatusUnauthorized"
    if "\<forall>user. rows g' (collate other) = Some user \<longrightarrow> \<not> bc_Compare B (usr_Password user) pw" for other pw
    using failed_login_reveals_nothing [OF assms(2,3,6) that] by blast
  ultimately show ?thesis by blast
qed

theorem registered_user_can_login_witness:
  "\<exists>g'. Register ref_uuid ref_gorm ref_bcrypt 7 [] ''bob'' ''pw'' [] = (None, g') \<and>
     Login ref_uuid ref_gorm ref_bcrypt (\<lambda>p. Inr (p_UserName p)) ''bob'' ''pw'' g' = Ret (Inr ''bob'')"
proof -
  obtain g' where "Register ref_uuid ref_gorm ref_bcrypt 7 [] ''bob'' ''pw'' [] = (None, g')"
    by (simp add: Register_def UsersDB_Create_def ref_bcrypt_def ref_gorm_def BeforeCreate_def)
  with registered_user_can_login [OF ref_uuid_laws ref_gorm_laws ref_bcrypt_laws this TrueI TrueI refl,
      where issue = "\<lambda>p. Inr (p_UserName p)"]
  show ?thesis by simp
qed

text \<open>C27: The two transports authenticate alike. From one configuration both are built or both fail, with the
  same error; and then the same token, sent as the \<open>Authorization\<close> header or as the one \<open>authorization\<close>
  entry of the metadata, either lets both handlers run or is refused by both for the same reason, in
  the form of each transport.\<close>

theorem transports_authenticate_alike:
  assumes "get ''authorization'' = [header_Get ''Authorization'' (rq_headers r)]"
    and "header_Get ''Authorization'' (rq_headers r) \<noteq> []"
  shows "case (BuildHTTPMiddleware J K clock u c, BuildGRPCStreamInterceptor J K clock c) of
      (Inl err, Inl err') \<Rightarrow> err = err'
    | (Inr mw, Inr ic) \<Rightarrow>
        (\<exists>p. mw h r (w, s) = h (r\<lparr>rq_ctx := Some p\<rparr>) (w, s) \<and> ic g (Some get) req s = g req s) \<or>
        (\<exists>err. mw h r (w, s) = Ret (RespondWithJSONError (ErrUnauthorized err) w, s) \<and>
           ic g (Some get) req s = Ret (Some (grpc_Error (ErrUnauthorized err)), s))
    | _ \<Rightarrow> False"
proof -
  have alike: "(\<exists>p. HTTPTokenAuthorizationMiddleware v h r (w, s) = h (r\<lparr>rq_ctx := Some p\<rparr>) (w, s) \<and>
        GRPCStreamTokenAuthorizationInterceptor v g (Some get) req s = g req s) \<or>
      (\<exists>err. HTTPTokenAuthorizationMiddleware v h r (w, s) = Ret (RespondWithJSONError (ErrUnauthorized err) w, s) \<and>
         GRPCStreamTokenAuthorizationInterceptor v g (Some get) req s = Ret (Some (grpc_Error (ErrUnauthorized err)), s))"
    for v
  proof (cases "v (strip_bearer (header_Get ''Authorization'' (rq_headers r))) s")
    case (Inl err)
    with assms show ?thesis
      by (intro disjI2 exI [of _ err]) (simp add: HTTPTokenAuthorizationMiddleware_def Let_def
          GRPCStreamTokenAuthorizationInterceptor_def authorizeRequest_def)
  next
    case (Inr p)
    with assms show ?thesis
      by (intro disjI1 exI [of _ p]) (simp add: HTTPTokenAuthorizationMiddleware_def Let_def
          GRPCStreamTokenAuthorizationInterceptor_def authorizeRequest_def ContextWithPrincipal_def)
  qed
  show ?thesis
  proof (cases "vc_Type c = ValidatorConfigurationNoop")
    case True
    then show ?thesis
      by (auto simp: BuildHTTPMiddleware_def BuildGRPCStreamInterceptor_def HTTPNoopMiddleware_def
          GRPCStreamNoopInterceptor_def ContextWithPrincipal_def)
  next
    case False
    then show ?thesis
      using alike by (auto simp: BuildHTTPMiddleware_def BuildGRPCStreamInterceptor_def split: sum.split)
  qed
qed

definition ref_keys :: "unit key_lib" where
  "ref_keys = \<lparr>kl_ReadFile = (\<lambda>path. Inr ''pem''), kl_pem_Decode = (\<lambda>b. Some ''block''), kl_Parse = (\<lambda>b. Inr (Inr ()))\<rparr>"

theorem transports_authenticate_alike_witness:
  "\<exists>mw ic. BuildHTTPMiddleware ref_jwt ref_keys (\<lambda>t. t) 1 \<lparr>vc_Type = ''jwtRSA'', vc_PublicKeyPath = []\<rparr> = Inr mw \<and>
     BuildGRPCStreamInterceptor ref_jwt ref_keys (\<lambda>t. t) \<lparr>vc_Type = ''jwtRSA'', vc_PublicKeyPath = []\<rparr> = Inr ic \<and>
     ((\<exists>m. mw (\<lambda>r st. Panic ''handler'') ref_request (fresh_writer, 0) = Panic m) \<longrightarrow>
      ic (\<lambda>req s. Ret (None, s)) (Some (\<lambda>k. [''Bearer tok''])) () 0 = Ret (None, 0))"
proof -
  let ?get = "\<lambda>k :: string. [''Bearer tok'']" and ?c = "\<lparr>vc_Type = ''jwtRSA'', vc_PublicKeyPath = []\<rparr>"
  have tok: "?get ''authorization'' = [header_Get ''Authorization'' (rq_headers ref_request)]"
    "header_Get ''Authorization'' (rq_headers ref_request) \<noteq> []"
    by (simp_all add: ref_request_def header_Get_def)
  obtain mw ic where built: "BuildHTTPMiddleware ref_jwt ref_keys (\<lambda>t. t) 1 ?c = Inr mw"
    "BuildGRPCStreamInterceptor ref_jwt ref_keys (\<lambda>t. t) ?c = Inr (ic :: (unit, int) interceptor)"
    by (simp add: BuildHTTPMiddleware_def BuildGRPCStreamInterceptor_def ValidatorConfigurationNoop_def
        ValidatorConfigurationJWTRSA_def JWTValidatorConfiguration_Build_def ReadPublicKey_def ref_keys_def)
  have "ic (\<lambda>req s. Ret (None, s)) (Some ?get) () 0 = Ret (None, 0)"
    if "mw (\<lambda>r st. Panic ''handler'') ref_request (fresh_writer, 0) = Panic m" for m
    using transports_authenticate_alike [where get = ?get and r = ref_request and J = ref_jwt and K = ref_keys and
        clock = "\<lambda>t. t" and u = 1 and c = ?c and h = "\<lambda>r st. Panic ''handler''" and w = fresh_writer and s = 0 and
        g = "\<lambda>req s. Ret (None, s)" and req = "()", OF tok] built that by auto
  with built show ?thesis by blast
qed

end
