(* ===== verification/MemStore.thy ===== *)
theory MemStore
  imports Json Slices "HOL-Library.AList"
begin

text \<open>
  \<open>pkg/memstore\<close>: the shared key/value store. \<open>redis.go\<close> is modelled over the operations of
  \<open>github.com/redis/go-redis\<close>, which are the parameter \<open>redis_lib\<close>; \<open>redis_laws\<close> states the
  documented behaviour of the four commands the code uses against a view of the server (entries with
  an expiry time, and the clock), and \<open>ref_redis\<close> is a server that has it. The locale \<open>store\<close> is
  the interface \<open>Store\<close> as its clients rely on it.
\<close>

section \<open>The Redis client library\<close>

text \<open>
  \<open>'r\<close> is the state of the server and the connection. \<open>Get\<close> of a missing key is the error
  \<open>redis.Nil\<close>; \<open>MGet\<close> returns one entry per key, nil for a missing one.
\<close>

record 'r redis_lib =
  rd_Get :: "string \<Rightarrow> 'r \<Rightarrow> string result"
  rd_Set :: "string \<Rightarrow> string \<Rightarrow> duration \<Rightarrow> 'r \<Rightarrow> go_error option \<times> 'r"
  rd_Keys :: "string \<Rightarrow> 'r \<Rightarrow> string list result"
  rd_MGet :: "string list \<Rightarrow> 'r \<Rightarrow> string option list result"

text \<open>What there is to know about a server: its entries with their expiry times, and the time.\<close>

record redis_view =
  rv_entries :: "string \<rightharpoonup> string \<times> duration"
  rv_now :: duration

definition live :: "redis_view \<Rightarrow> string \<Rightarrow> string option" where
  "live v k =
     (case rv_entries v k of
        None \<Rightarrow> None
      | Some (x, e) \<Rightarrow> if rv_now v < e then Some x else None)"

lemma live_set:
  "live (v\<lparr>rv_entries := (rv_entries v)(k \<mapsto> (x, rv_now v + ttl))\<rparr>) k' =
   (if k' = k then if 0 < ttl then Some x else None else live v k')"
  by (simp add: live_def split: option.split prod.split)

text \<open>A pattern without the characters that KEYS gives a meaning to matches only itself.\<close>

definition glob_literal :: "string \<Rightarrow> bool" where
  "glob_literal p \<longleftrightarrow> list_all (\<lambda>c. c \<notin> {CHR ''*'', CHR ''?'', CHR ''['', CHR 0x5C}) p"

text \<open>
  Documented behaviour while the server answers (\<open>up\<close>): GET, SET with expiry, KEYS of a literal
  prefix followed by \<open>*\<close>, MGET. Reading commands do not change the state, so they return none.
\<close>

definition redis_laws :: "'r redis_lib \<Rightarrow> ('r \<Rightarrow> bool) \<Rightarrow> ('r \<Rightarrow> redis_view) \<Rightarrow> bool" where
  "redis_laws R up view \<longleftrightarrow>
     (\<forall>s k. up s \<longrightarrow>
        (case live (view s) k of
           Some x \<Rightarrow> rd_Get R k s = Inr x
         | None \<Rightarrow> rd_Get R k s = Inl (Opaque ''redis: nil''))) \<and>
     (\<forall>s k x ttl. up s \<longrightarrow> 0 < ttl \<longrightarrow>
        fst (rd_Set R k x ttl s) = None \<and> up (snd (rd_Set R k x ttl s)) \<and>
        view (snd (rd_Set R k x ttl s)) =
          (view s)\<lparr>rv_entries := (rv_entries (view s))(k \<mapsto> (x, rv_now (view s) + ttl))\<rparr>) \<and>
     (\<forall>s p. up s \<longrightarrow> glob_literal p \<longrightarrow>
        (\<exists>ks. rd_Keys R (p @ ''*'') s = Inr ks \<and> distinct ks \<and>
           set ks = {k. prefix p k \<and> live (view s) k \<noteq> None})) \<and>
     (\<forall>s ks. up s \<longrightarrow> ks \<noteq> [] \<longrightarrow> rd_MGet R ks s = Inr (map (live (view s)) ks))"

lemma redis_lawsD:
  assumes "redis_laws R up view" and "up s"
  shows "live (view s) k = Some x \<Longrightarrow> rd_Get R k s = Inr x"
    and "live (view s) k = None \<Longrightarrow> rd_Get R k s = Inl (Opaque ''redis: nil'')"
    and "0 < ttl \<Longrightarrow> fst (rd_Set R k x ttl s) = None"
    and "0 < ttl \<Longrightarrow> up (snd (rd_Set R k x ttl s))"
    and "0 < ttl \<Longrightarrow> view (snd (rd_Set R k x ttl s)) =
          (view s)\<lparr>rv_entries := (rv_entries (view s))(k \<mapsto> (x, rv_now (view s) + ttl))\<rparr>"
    and "glob_literal p \<Longrightarrow> \<exists>ks. rd_Keys R (p @ ''*'') s = Inr ks \<and> distinct ks \<and>
           set ks = {k. prefix p k \<and> live (view s) k \<noteq> None}"
    and "ks \<noteq> [] \<Longrightarrow> rd_MGet R ks s = Inr (map (live (view s)) ks)"
proof -
  note laws = assms(1) [unfolded redis_laws_def]
  note get_law = laws [THEN conjunct1, THEN spec, THEN spec, THEN mp, OF assms(2)]
  note set_law = laws [THEN conjunct2, THEN conjunct1, THEN spec, THEN spec, THEN spec, THEN spec,
      THEN mp, OF assms(2), THEN mp]
  note keys_law = laws [THEN conjunct2, THEN conjunct2, THEN conjunct1, THEN spec, THEN spec,
      THEN mp, OF assms(2), THEN mp]
  note mget_law = laws [THEN conjunct2, THEN conjunct2, THEN conjunct2, THEN spec, THEN spec,
      THEN mp, OF assms(2), THEN mp]
  show "live (view s) k = Some x \<Longrightarrow> rd_Get R k s = Inr x"
    and "live (view s) k = None \<Longrightarrow> rd_Get R k s = Inl (Opaque ''redis: nil'')"
    using get_law [of k] by simp_all
  show "0 < ttl \<Longrightarrow> fst (rd_Set R k x ttl s) = None"
    and "0 < ttl \<Longrightarrow> up (snd (rd_Set R k x ttl s))"
    and "0 < ttl \<Longrightarrow> view (snd (rd_Set R k x ttl s)) =
          (view s)\<lparr>rv_entries := (rv_entries (view s))(k \<mapsto> (x, rv_now (view s) + ttl))\<rparr>"
    using set_law [of ttl k x] by simp_all
  show "glob_literal p \<Longrightarrow> \<exists>ks. rd_Keys R (p @ ''*'') s = Inr ks \<and> distinct ks \<and>
           set ks = {k. prefix p k \<and> live (view s) k \<noteq> None}"
    by (rule keys_law)
  show "ks \<noteq> [] \<Longrightarrow> rd_MGet R ks s = Inr (map (live (view s)) ks)"
    by (rule mget_law)
qed

section \<open>redis.go\<close>

definition separator :: string where "separator = '':''"

record RedisClient =
  rc_prefix :: string

definition NewRedisClient :: "string \<Rightarrow> RedisClient" where
  "NewRedisClient pfx = \<lparr>rc_prefix = pfx @ separator\<rparr>"

definition collectionKey :: "RedisClient \<Rightarrow> string \<Rightarrow> string \<Rightarrow> string" where
  "collectionKey c collection key = rc_prefix c @ collection @ separator @ key"

definition GetCollectionItem :: "'r redis_lib \<Rightarrow> RedisClient \<Rightarrow> string \<Rightarrow> string \<Rightarrow> 'r \<Rightarrow> string result" where
  "GetCollectionItem R c collection key s =
     (case rd_Get R (collectionKey c collection key) s of
        Inl err \<Rightarrow> Inl (Wrapped ''getting item'' err)
      | Inr strResult \<Rightarrow> Inr strResult)"

definition SetCollectionItemWithTTL ::
  "'r redis_lib \<Rightarrow> RedisClient \<Rightarrow> string \<Rightarrow> string \<Rightarrow> string \<Rightarrow> duration \<Rightarrow> 'r \<Rightarrow> go_error option \<times> 'r" where
  "SetCollectionItemWithTTL R c collection key val ttl s =
     rd_Set R (collectionKey c collection key) val ttl s"

text \<open>\<open>s[n:]\<close> panics when \<open>n\<close> exceeds the length.\<close>

definition slice_from :: "nat \<Rightarrow> string \<Rightarrow> string go" where
  "slice_from n s = (if n \<le> length s then Ret (drop n s) else Panic ''slice bounds out of range'')"

fun strip_loop :: "nat \<Rightarrow> string list \<Rightarrow> string list go" where
  "strip_loop prefixLen [] = Ret []"
| "strip_loop prefixLen (s # ss) =
     go_bind (slice_from prefixLen s) (\<lambda>k. go_bind (strip_loop prefixLen ss) (\<lambda>ks. Ret (k # ks)))"

definition ListCollectionKeys ::
  "'r redis_lib \<Rightarrow> RedisClient \<Rightarrow> string \<Rightarrow> 'r \<Rightarrow> string list result go" where
  "ListCollectionKeys R c collection s =
     (case rd_Keys R (collectionKey c collection ''*'') s of
        Inl err \<Rightarrow> Ret (Inl (Wrapped ''listing keys'' err))
      | Inr strResult \<Rightarrow>
          go_bind (strip_loop (length collection) strResult) (\<lambda>ks. Ret (Inr ks)))"

definition listCollectionKeys ::
  "'r redis_lib \<Rightarrow> RedisClient \<Rightarrow> string \<Rightarrow> 'r \<Rightarrow> string list result" where
  "listCollectionKeys R c collection s =
     (case rd_Keys R (collectionKey c collection ''*'') s of
        Inl err \<Rightarrow> Inl (Wrapped ''listing keys'' err)
      | Inr strResult \<Rightarrow> Inr strResult)"

definition ListCollection ::
  "'r redis_lib \<Rightarrow> RedisClient \<Rightarrow> string \<Rightarrow> 'r \<Rightarrow> string list result" where
  "ListCollection R c collection s =
     (case listCollectionKeys R c collection s of
        Inl err \<Rightarrow> Inl err
      | Inr keys \<Rightarrow>
          if length keys = 0 then Inr []
          else (case rd_MGet R keys s of
                  Inl err \<Rightarrow> Inl (Wrapped ''fetching multiple entries'' err)
                | Inr values \<Rightarrow> Inr (FilterMap values (\<lambda>v. v))))"

section \<open>Keys\<close>

text \<open>A collection name that cannot be confused with another one, nor with a pattern.\<close>

definition coll_ok :: "RedisClient \<Rightarrow> string \<Rightarrow> bool" where
  "coll_ok c collection \<longleftrightarrow>
     CHR '':'' \<notin> set collection \<and> glob_literal (rc_prefix c @ collection @ separator)"

lemma append_sep_inj:
  "x \<notin> set a \<Longrightarrow> x \<notin> set b \<Longrightarrow> a @ x # k = b @ x # l \<longleftrightarrow> a = b \<and> k = l"
  by (auto simp: append_eq_append_conv2 append_eq_Cons_conv Cons_eq_append_conv)

lemma collectionKey_inj:
  "CHR '':'' \<notin> set a \<Longrightarrow> CHR '':'' \<notin> set b \<Longrightarrow>
   collectionKey c a k = collectionKey c b l \<longleftrightarrow> a = b \<and> k = l"
  by (simp add: collectionKey_def separator_def append_sep_inj)

lemma collectionKey_same: "collectionKey c a k = collectionKey c a l \<longleftrightarrow> k = l"
  by (simp add: collectionKey_def)

definition collection_prefix :: "RedisClient \<Rightarrow> string \<Rightarrow> string" where
  "collection_prefix c collection = rc_prefix c @ collection @ separator"

lemma collectionKey_prefix: "collectionKey c a k = collection_prefix c a @ k"
  by (simp add: collectionKey_def collection_prefix_def)

lemma keys_of_collection:
  assumes "redis_laws R up view" and "up s" and "glob_literal (collection_prefix c a)"
  obtains ks where "distinct ks"
    and "set ks = {k. live (view s) (collectionKey c a k) \<noteq> None}"
    and "rd_Keys R (collectionKey c a ''*'') s = Inr (map (collectionKey c a) ks)"
proof -
  obtain full where full: "rd_Keys R (collection_prefix c a @ ''*'') s = Inr full" "distinct full"
    "set full = {k. prefix (collection_prefix c a) k \<and> live (view s) k \<noteq> None}"
    using redis_lawsD(6) [OF assms(1,2,3)] by blast
  let ?ks = "map (drop (length (collection_prefix c a))) full"
  have stripped: "map (collectionKey c a) ?ks = full"
    using full(3) by (auto simp: collectionKey_prefix take_drop_prefix intro!: map_idI)
  show ?thesis
  proof (rule that)
    show "distinct ?ks" using stripped full(2) by (metis distinct_map)
    show "set ?ks = {k. live (view s) (collectionKey c a k) \<noteq> None}"
      using full(3) by (auto simp: collectionKey_prefix take_drop_prefix image_iff)
        (metis append_eq_conv_conj prefixI)
    show "rd_Keys R (collectionKey c a ''*'') s = Inr (map (collectionKey c a) ?ks)"
      using full(1) stripped by (simp add: collectionKey_prefix)
  qed
qed

section \<open>The interface\<close>

text \<open>
  \<open>Store\<close> (\<open>types.go\<close>) as its clients rely on it: \<open>item\<close> is the contents, \<open>ready\<close> says that the
  store answers, \<open>coll\<close> which collection names are kept apart.
\<close>

locale store =
  fixes get_item :: "string \<Rightarrow> string \<Rightarrow> 's \<Rightarrow> string result"
    and set_item :: "string \<Rightarrow> string \<Rightarrow> string \<Rightarrow> duration \<Rightarrow> 's \<Rightarrow> go_error option \<times> 's"
    and list_coll :: "string \<Rightarrow> 's \<Rightarrow> string list result"
    and ready :: "'s \<Rightarrow> bool"
    and item :: "'s \<Rightarrow> string \<Rightarrow> string \<Rightarrow> string option"
    and coll :: "string \<Rightarrow> bool"
  assumes get_present: "ready s \<Longrightarrow> item s c k = Some v \<Longrightarrow> get_item c k s = Inr v"
    and get_absent: "ready s \<Longrightarrow> item s c k = None \<Longrightarrow> \<exists>e. get_item c k s = Inl e"
    and set_ok: "ready s \<Longrightarrow> 0 < ttl \<Longrightarrow> fst (set_item c k v ttl s) = None"
    and set_ready: "ready s \<Longrightarrow> 0 < ttl \<Longrightarrow> ready (snd (set_item c k v ttl s))"
    and set_item: "ready s \<Longrightarrow> 0 < ttl \<Longrightarrow> coll c \<Longrightarrow> coll c' \<Longrightarrow>
        item (snd (set_item c k v ttl s)) c' k' = (if c' = c \<and> k' = k then Some v else item s c' k')"
    and list: "ready s \<Longrightarrow> coll c \<Longrightarrow>
        \<exists>ks. distinct ks \<and> set ks = {k. item s c k \<noteq> None} \<and>
          list_coll c s = Inr (map (\<lambda>k. the (item s c k)) ks)"
begin

lemma get_after_set:
  "ready s \<Longrightarrow> 0 < ttl \<Longrightarrow> coll c \<Longrightarrow> get_item c k (snd (set_item c k v ttl s)) = Inr v"
  by (rule get_present) (simp_all add: set_ready set_item)

lemma listed_after_set:
  assumes "ready s" "0 < ttl" "coll c"
  shows "\<exists>vs. list_coll c (snd (set_item c k v ttl s)) = Inr vs \<and> v \<in> set vs"
proof -
  obtain ks where ks: "set ks = {k'. item (snd (set_item c k v ttl s)) c k' \<noteq> None}"
    "list_coll c (snd (set_item c k v ttl s)) =
       Inr (map (\<lambda>k'. the (item (snd (set_item c k v ttl s)) c k')) ks)"
    using list [OF set_ready [OF assms(1,2)] assms(3)] by blast
  then have "k \<in> set ks" using assms by (simp add: set_item)
  then show ?thesis using ks(2) assms by (force simp: set_item)
qed

end

definition redis_ready :: "'r redis_lib \<Rightarrow> ('r \<Rightarrow> bool) \<Rightarrow> ('r \<Rightarrow> redis_view) \<Rightarrow> 'r \<Rightarrow> bool" where
  "redis_ready R up view s \<longleftrightarrow> redis_laws R up view \<and> up s"

definition redis_item :: "RedisClient \<Rightarrow> ('r \<Rightarrow> redis_view) \<Rightarrow> 'r \<Rightarrow> string \<Rightarrow> string \<Rightarrow> string option" where
  "redis_item c view s collection key = live (view s) (collectionKey c collection key)"

lemma ListCollection_eq:
  assumes "redis_ready R up view s" and "coll_ok c a"
  shows "\<exists>ks. distinct ks \<and> set ks = {k. redis_item c view s a k \<noteq> None} \<and>
    ListCollection R c a s = Inr (map (\<lambda>k. the (redis_item c view s a k)) ks)"
proof -
  have laws: "redis_laws R up view" "up s" and lit: "glob_literal (collection_prefix c a)"
    using assms by (simp_all add: redis_ready_def coll_ok_def collection_prefix_def)
  obtain ks where ks: "distinct ks"
    "set ks = {k. live (view s) (collectionKey c a k) \<noteq> None}"
    "rd_Keys R (collectionKey c a ''*'') s = Inr (map (collectionKey c a) ks)"
    by (rule keys_of_collection [OF laws lit])
  have "List.map_filter (\<lambda>v. v) (map (\<lambda>k. live (view s) (collectionKey c a k)) ks) =
      map (\<lambda>k. the (redis_item c view s a k)) ks"
    unfolding redis_item_def by (rule map_filter_all_Some) (use ks(2) in blast)
  then have "ListCollection R c a s = Inr (map (\<lambda>k. the (redis_item c view s a k)) ks)"
    using ks(3) redis_lawsD(7) [OF laws, of "map (collectionKey c a) ks"]
    by (cases "ks = []") (simp_all add: ListCollection_def listCollectionKeys_def FilterMap_eq o_def)
  with ks(1,2) show ?thesis by (auto simp: redis_item_def)
qed

interpretation redis_store: store
  "GetCollectionItem R c" "SetCollectionItemWithTTL R c" "ListCollection R c"
  "redis_ready R up view" "redis_item c view" "coll_ok c"
  for R :: "'r redis_lib" and c up view
proof (unfold_locales, goal_cases)
  case (1 s a k v)
  then show ?case
    using redis_lawsD(1) [of R up view s "collectionKey c a k" v]
    by (simp add: GetCollectionItem_def redis_item_def redis_ready_def)
next
  case (2 s a k)
  then show ?case
    using redis_lawsD(2) [of R up view s "collectionKey c a k"]
    by (simp add: GetCollectionItem_def redis_item_def redis_ready_def)
next
  case (3 s ttl a k v)
  then show ?case
    using redis_lawsD(3) [of R up view s] by (simp add: SetCollectionItemWithTTL_def redis_ready_def)
next
  case (4 s ttl a k v)
  then show ?case
    using redis_lawsD(4) [of R up view s] by (simp add: SetCollectionItemWithTTL_def redis_ready_def)
next
  case (5 s ttl a a' k v k')
  then show ?case
    using redis_lawsD(5) [of R up view s]
    by (simp add: SetCollectionItemWithTTL_def redis_ready_def redis_item_def live_set coll_ok_def
        collectionKey_inj)
next
  case (6 s a)
  then show ?case by (rule ListCollection_eq)
qed

text \<open>The \<open>Store\<close> value the services are built with: its methods.\<close>

record 's Store =
  Store_Get :: "string \<Rightarrow> string \<Rightarrow> 's \<Rightarrow> string result"
  Store_Set :: "string \<Rightarrow> string \<Rightarrow> string \<Rightarrow> duration \<Rightarrow> 's \<Rightarrow> go_error option \<times> 's"
  Store_ListKeys :: "string \<Rightarrow> 's \<Rightarrow> string list result go"
  Store_List :: "string \<Rightarrow> 's \<Rightarrow> string list result"

definition redis_Store :: "'r redis_lib \<Rightarrow> RedisClient \<Rightarrow> 'r Store" where
  "redis_Store R c =
     \<lparr>Store_Get = GetCollectionItem R c, Store_Set = SetCollectionItemWithTTL R c,
      Store_ListKeys = ListCollectionKeys R c, Store_List = ListCollection R c\<rparr>"

lemma redis_Store_simps [simp]:
  "Store_Get (redis_Store R c) = GetCollectionItem R c"
  "Store_Set (redis_Store R c) = SetCollectionItemWithTTL R c"
  "Store_List (redis_Store R c) = ListCollection R c"
  by (simp_all add: redis_Store_def)

text \<open>A client that holds a store: the laws above for the methods of the value it was given.\<close>

locale store_client =
  store "Store_Get st" "Store_Set st" "Store_List st" ready item coll
  for st :: "'s Store" and ready item coll

interpretation redis_client: store_client "redis_Store R c" "redis_ready R up view"
  "redis_item c view" "coll_ok c"
  for R :: "'r redis_lib" and c up view
  by (simp add: store_client_def redis_store.store_axioms)

section \<open>An instance of the library\<close>

text \<open>
  A server kept as an association list of entries with a clock, always reachable. KEYS matches \<open>*\<close>,
  \<open>?\<close> and literal characters.
\<close>

type_synonym ref_server = "(string \<times> string \<times> duration) list \<times> duration"

fun glob_match :: "string \<Rightarrow> string \<Rightarrow> bool" where
  "glob_match [] s = (s = [])"
| "glob_match (c # p) s =
     (if c = CHR ''*'' then glob_match p s \<or> (case s of [] \<Rightarrow> False | _ # t \<Rightarrow> glob_match (c # p) t)
      else case s of [] \<Rightarrow> False | x # t \<Rightarrow> (c = CHR ''?'' \<or> c = x) \<and> glob_match p t)"

definition ref_view :: "ref_server \<Rightarrow> redis_view" where
  "ref_view s = \<lparr>rv_entries = map_of (fst s), rv_now = snd s\<rparr>"

definition ref_redis :: "ref_server redis_lib" where
  "ref_redis =
     \<lparr>rd_Get = (\<lambda>k s. case live (ref_view s) k of
         None \<Rightarrow> Inl (Opaque ''redis: nil'') | Some x \<Rightarrow> Inr x),
      rd_Set = (\<lambda>k x ttl s. (None, (AList.update k (x, snd s + ttl) (fst s), snd s))),
      rd_Keys = (\<lambda>p s. Inr (filter (\<lambda>k. glob_match p k \<and> live (ref_view s) k \<noteq> None)
         (remdups (map fst (fst s))))),
      rd_MGet = (\<lambda>ks s. Inr (map (live (ref_view s)) ks))\<rparr>"

definition ref_advance :: "duration \<Rightarrow> ref_server \<Rightarrow> ref_server" where
  "ref_advance d s = (fst s, snd s + d)"

definition ref_up :: "ref_server \<Rightarrow> bool" where
  "ref_up s = True"

lemma glob_match_star: "glob_match ''*'' s"
  by (induction s) simp_all

lemma glob_match_literal: "glob_literal p \<Longrightarrow> glob_match (p @ ''*'') s = prefix p s"
proof (induction p arbitrary: s)
  case Nil
  then show ?case using glob_match_star by simp
next
  case (Cons c p)
  then show ?case by (cases s) (auto simp: glob_literal_def)
qed

lemma ref_redis_laws: "redis_laws ref_redis ref_up ref_view"
proof -
  have dom: "live (ref_view s) k \<noteq> None \<Longrightarrow> k \<in> fst ` set (fst s)" for s k
    by (auto simp: live_def ref_view_def dest!: map_of_SomeD split: option.splits) force
  show ?thesis
    unfolding redis_laws_def
  proof (intro conjI allI impI, goal_cases)
    case (1 s k)
    then show ?case by (simp add: ref_redis_def split: option.split)
  next
    case (5 s p)
    show ?case
      by (rule exI, rule conjI, simp add: ref_redis_def)
        (use 5 dom [of s] in \<open>auto simp: glob_match_literal\<close>)
  qed (simp_all add: ref_redis_def ref_up_def ref_view_def update_conv' fun_upd_def)
qed

section \<open>Properties\<close>

lemma GetCollectionItem_live:
  assumes "redis_laws R up view" and "up s"
  shows "GetCollectionItem R c a k s =
    (case live (view s) (collectionKey c a k) of
       Some x \<Rightarrow> Inr x | None \<Rightarrow> Inl (Wrapped ''getting item'' (Opaque ''redis: nil'')))"
  using redis_lawsD(1,2) [OF assms, of "collectionKey c a k"]
  by (cases "live (view s) (collectionKey c a k)") (simp_all add: GetCollectionItem_def)

text \<open>C5: What is stored under a key of a collection is what is read back, in every state of the server with
  these entries until the time to live is over; from then on it reads as missing. Of all pairs of a
  collection and a key, what is read changes, whether it was a value or missing, for exactly the pairs whose names, joined with
  the separator, are the same text: without a separator in the collection names, for the
  written pair alone; with one there are others, the key \<open>c\<close> of \<open>a:b\<close> being the key \<open>b:c\<close> of \<open>a\<close>.\<close>

theorem redis_read_your_writes:
  assumes "redis_laws R up view" and "up s" and "0 < ttl"
    and "SetCollectionItemWithTTL R (NewRedisClient p) a k x ttl s = (err, s')"
  shows "err = None \<and> up s' \<and>
    (\<forall>b l. GetCollectionItem R (NewRedisClient p) b l s' =
       (if b @ '':'' @ l = a @ '':'' @ k then Inr x else GetCollectionItem R (NewRedisClient p) b l s)) \<and>
    (CHR '':'' \<notin> set a \<longrightarrow> (\<forall>b l. CHR '':'' \<notin> set b \<longrightarrow> (b @ '':'' @ l = a @ '':'' @ k \<longleftrightarrow> b = a \<and> l = k))) \<and>
    (\<forall>s2. up s2 \<longrightarrow> rv_entries (view s2) = rv_entries (view s') \<longrightarrow>
       GetCollectionItem R (NewRedisClient p) a k s2 =
         (if rv_now (view s2) < rv_now (view s) + ttl then Inr x
          else Inl (Wrapped ''getting item'' (Opaque ''redis: nil''))))"
proof -
  let ?c = "NewRedisClient p"
  note set_law = redis_lawsD(3,4,5) [OF assms(1,2,3), of "collectionKey ?c a k" x]
  have s': "err = None" "up s'" "view s' = (view s)
      \<lparr>rv_entries := (rv_entries (view s))(collectionKey ?c a k \<mapsto> (x, rv_now (view s) + ttl))\<rparr>"
    using set_law assms(4) by (simp_all add: SetCollectionItemWithTTL_def)
  have key: "collectionKey ?c b l = collectionKey ?c a k \<longleftrightarrow> b @ '':'' @ l = a @ '':'' @ k" for b l
    by (simp add: collectionKey_def separator_def)
  have "GetCollectionItem R ?c b l s' =
      (if b @ '':'' @ l = a @ '':'' @ k then Inr x else GetCollectionItem R ?c b l s)" for b l
    using assms(3) unfolding GetCollectionItem_live [OF assms(1,2)] GetCollectionItem_live [OF assms(1) s'(2)] key [symmetric]
    by (simp add: s'(3) live_set)
  moreover have "GetCollectionItem R ?c a k s2 =
      (if rv_now (view s2) < rv_now (view s) + ttl then Inr x
       else Inl (Wrapped ''getting item'' (Opaque ''redis: nil'')))"
    if "up s2" "rv_entries (view s2) = rv_entries (view s')" for s2
    using that by (simp add: GetCollectionItem_live [OF assms(1) that(1)] s'(3) live_def)
  ultimately show ?thesis
    using s'(1,2) by (simp add: append_sep_inj)
qed

theorem redis_read_your_writes_witness:
  "GetCollectionItem ref_redis (NewRedisClient ''occa'') ''a:b'' ''c''
     (snd (SetCollectionItemWithTTL ref_redis (NewRedisClient ''occa'') ''a'' ''b:c'' ''v'' 5 ([], 0)))
   = Inr ''v'' \<and>
   GetCollectionItem ref_redis (NewRedisClient ''occa'') ''a'' ''b''
     (snd (SetCollectionItemWithTTL ref_redis (NewRedisClient ''occa'') ''a'' ''b:c'' ''v'' 5 ([], 0)))
   = GetCollectionItem ref_redis (NewRedisClient ''occa'') ''a'' ''b'' ([], 0)"
  using redis_read_your_writes [OF ref_redis_laws, of "([], 0)" 5 "''occa''" "''a''" "''b:c''" "''v''",
      OF _ _ prod.collapse [symmetric], THEN conjunct2, THEN conjunct2, THEN conjunct1]
  by (simp add: ref_up_def)

text \<open>\<open>ListCollectionKeys\<close> cuts only the length of the collection name off the full Redis key.\<close>

lemma ListCollectionKeys_cut:
  assumes "redis_laws R up view" and "up s" and "coll_ok (NewRedisClient p) a"
  shows "\<exists>ks. set ks = {k. live (view s) (collectionKey (NewRedisClient p) a k) \<noteq> None} \<and>
    ListCollectionKeys R (NewRedisClient p) a s =
      Ret (Inr (map (\<lambda>k. drop (length a) (p @ '':'' @ a @ '':'' @ k)) ks)) \<and>
    (\<forall>k. length (drop (length a) (p @ '':'' @ a @ '':'' @ k)) = length k + length p + 2)"
proof -
  have lit: "glob_literal (collection_prefix (NewRedisClient p) a)"
    using assms(3) by (simp add: coll_ok_def collection_prefix_def)
  obtain ks where ks: "set ks = {k. live (view s) (collectionKey (NewRedisClient p) a k) \<noteq> None}"
    "rd_Keys R (collectionKey (NewRedisClient p) a ''*'') s = Inr (map (collectionKey (NewRedisClient p) a) ks)"
    by (rule keys_of_collection [OF assms(1,2) lit])
  have "strip_loop (length a) (map (collectionKey (NewRedisClient p) a) ks) =
      Ret (map (\<lambda>k. drop (length a) (p @ '':'' @ a @ '':'' @ k)) ks)"
    by (induction ks) (simp_all add: slice_from_def collectionKey_def NewRedisClient_def separator_def)
  moreover have "length (drop (length a) (p @ '':'' @ a @ '':'' @ k)) = length k + length p + 2" for k
    by (simp only: length_drop length_append) simp
  ultimately show ?thesis
    using ks by (intro exI [of _ ks]) (simp add: ListCollectionKeys_def del: length_drop drop_append)
qed

text \<open>C6: Listing a collection returns the live values of exactly its own keys, one for each key, and
  nothing of another collection; with no live key the answer is the empty list. \<open>ListCollectionKeys\<close>,
  though, does not return these keys: it cuts only the length of the collection name off the full Redis key,
  so that every entry it returns is longer than the key it stands for, by the client's prefix and a
  separator, and none is that key.\<close>

theorem ListCollection_exact:
  assumes "redis_laws R up view" and "up s" and "coll_ok (NewRedisClient p) a"
  shows "(\<exists>ks. distinct ks \<and>
      set ks = {k. live (view s) (collectionKey (NewRedisClient p) a k) \<noteq> None} \<and>
      ListCollection R (NewRedisClient p) a s =
        Inr (map (\<lambda>k. the (live (view s) (collectionKey (NewRedisClient p) a k))) ks)) \<and>
    (\<exists>ks. set ks = {k. live (view s) (collectionKey (NewRedisClient p) a k) \<noteq> None} \<and>
      ListCollectionKeys R (NewRedisClient p) a s =
        Ret (Inr (map (\<lambda>k. drop (length a) (p @ '':'' @ a @ '':'' @ k)) ks)) \<and>
      (\<forall>k. length (drop (length a) (p @ '':'' @ a @ '':'' @ k)) = length k + length p + 2))"
proof
  show "\<exists>ks. distinct ks \<and>
      set ks = {k. live (view s) (collectionKey (NewRedisClient p) a k) \<noteq> None} \<and>
      ListCollection R (NewRedisClient p) a s =
        Inr (map (\<lambda>k. the (live (view s) (collectionKey (NewRedisClient p) a k))) ks)"
    using redis_store.list [of R up view s "NewRedisClient p" a] assms
    by (simp add: redis_ready_def redis_item_def)
qed (rule ListCollectionKeys_cut [OF assms])

theorem ListCollection_exact_witness:
  "ListCollection ref_redis (NewRedisClient []) ''c'' ([('':c:k'', ''v'', 9), ('':d:k'', ''w'', 9)], 0) =
     Inr [''v''] \<and>
   (\<exists>ks. set ks = {k. live (ref_view ([('':c:k'', ''v'', 9), ('':d:k'', ''w'', 9)], 0))
        (collectionKey (NewRedisClient []) ''c'' k) \<noteq> None} \<and> length ks = 1) \<and>
   ListCollectionKeys ref_redis (NewRedisClient []) ''c'' ([('':c:k'', ''v'', 9), ('':d:k'', ''w'', 9)], 0) =
     Ret (Inr [''c:k''])"
proof -
  let ?s = "([('':c:k'', ''v'', 9), ('':d:k'', ''w'', 9)], 0)"
  have res: "ListCollection ref_redis (NewRedisClient []) ''c'' ?s = Inr [''v'']" by code_simp
  have keys: "ListCollectionKeys ref_redis (NewRedisClient []) ''c'' ?s = Ret (Inr [''c:k''])" by code_simp
  have "coll_ok (NewRedisClient []) ''c''" by code_simp
  then obtain ks where ks: "set ks = {k. live (ref_view ?s) (collectionKey (NewRedisClient []) ''c'' k) \<noteq> None}"
    and "ListCollection ref_redis (NewRedisClient []) ''c'' ?s =
       Inr (map (\<lambda>k. the (live (ref_view ?s) (collectionKey (NewRedisClient []) ''c'' k))) ks)"
    using ListCollection_exact [OF ref_redis_laws, of ?s "[]" "''c''", THEN conjunct1] by (auto simp: ref_up_def)
  with res have "length ks = 1" by auto
  with res keys ks show ?thesis by blast
qed

end
