(* ===== verification/Rtconn.thy ===== *)
theory Rtconn
  imports MemStore
begin

text \<open>
  \<open>pkg/eventserver/rtconn\<close>: which event server a user is connected to. \<open>heartbeat.go\<close> (one
  goroutine per connected user writes a record with a time to live into the store, again and again
  until it is stopped) and \<open>server_resolver.go\<close> (reads that record). Channels are numbered; a closed
  channel is a member of \<open>closed\<close>; the goroutines are the list \<open>beats\<close>.
\<close>

section \<open>ConnectionInfo\<close>

record ConnectionInfo =
  conn_ServerID :: string

record ServerInformation =
  ServerID :: string

definition ConnectionInfo_Marshall :: "ConnectionInfo \<Rightarrow> string result" where
  "ConnectionInfo_Marshall i = Inr (render (JObj [(''serverID'', json_string (conn_ServerID i))]))"

definition ConnectionInfo_Unmarshall :: "string \<Rightarrow> ConnectionInfo result" where
  "ConnectionInfo_Unmarshall data =
     json_Unmarshal [(''serverID'', set_string (\<lambda>s i. i\<lparr>conn_ServerID := s\<rparr>))] \<lparr>conn_ServerID = []\<rparr> data"

lemma ConnectionInfo_Marshall_Inr:
  "ConnectionInfo_Marshall i = Inr d \<longleftrightarrow> d = render (JObj [(''serverID'', json_string (conn_ServerID i))])"
  by (auto simp: ConnectionInfo_Marshall_def)

lemma ConnectionInfo_roundtrip:
  assumes "valid_utf8 (conn_ServerID i)" and "ConnectionInfo_Marshall i = Inr d"
  shows "ConnectionInfo_Unmarshall d = Inr i"
proof -
  have key: "plain_key ''serverID''" by (simp add: plain_key_def)
  have "json_Unmarshal flds x d = decode_struct flds x (JObj [(''serverID'', json_string (conn_ServerID i))])"
    for flds :: "(string \<times> ConnectionInfo field_setter) list" and x
    using assms(2) plain_key_scans [OF key] unfolding ConnectionInfo_Marshall_Inr
    by (simp only:, intro json_Unmarshal_render) simp
  with assms(1) show ?thesis
    using plain_key_unescape [OF key] by (simp add: ConnectionInfo_Unmarshall_def find_field_def)
qed

section \<open>server_resolver.go\<close>

definition connectionsNamespace :: string where "connectionsNamespace = ''user-connections''"

definition ServerResolver_Resolve :: "uuid_lib \<Rightarrow> 's Store \<Rightarrow> ID \<Rightarrow> 's \<Rightarrow> ServerInformation result" where
  "ServerResolver_Resolve L st userID s =
     (case Store_Get st connectionsNamespace (ID_String L userID) s of
        Inl err \<Rightarrow> Inl (Wrapped ''getting user connection info'' err)
      | Inr data \<Rightarrow>
          (case ConnectionInfo_Unmarshall data of
             Inl err \<Rightarrow> Inl (Wrapped ''unmarshalling conn info'' err)
           | Inr info \<Rightarrow> Inr \<lparr>ServerID = conn_ServerID info\<rparr>))"

section \<open>heartbeat.go: one heartbeat\<close>

definition heartBeatTTL :: duration where "heartBeatTTL = 20 * Second"
definition heartBeatInterval :: duration where "heartBeatInterval = 10 * Second"

text \<open>\<open>rand.Intn\<close> is the argument \<open>intn\<close>; it panics when its argument is not positive.\<close>

definition addJitter :: "(int \<Rightarrow> int) \<Rightarrow> duration \<Rightarrow> duration go" where
  "addJitter intn d =
     (let n = quot_i64 d 10
      in if n \<le> 0 then Panic ''invalid argument to Intn'' else Ret (i64 (d + intn n)))"

definition Intn_ok :: "(int \<Rightarrow> int) \<Rightarrow> bool" where
  "Intn_ok intn \<longleftrightarrow> (\<forall>n>0. 0 \<le> intn n \<and> intn n < n)"

text \<open>
  The loop of \<open>heartBeat\<close>: store, then wait for the ticker or for the stop channel. \<open>waits\<close> says how
  each wait ends; \<open>pass d\<close> is the world after \<open>d\<close> nanoseconds. With no wait left the goroutine is
  still waiting.
\<close>

datatype wait = Ticked | StopReceived
datatype beat_end = StillWaiting | Stopped | StoreFailed go_error

fun heartBeat ::
  "'s Store \<Rightarrow> (duration \<Rightarrow> 's \<Rightarrow> 's) \<Rightarrow> duration \<Rightarrow> string \<Rightarrow> string \<Rightarrow> wait list \<Rightarrow> 's \<Rightarrow> beat_end \<times> 's" where
  "heartBeat st pass period userID data [] s =
     (case Store_Set st connectionsNamespace userID data heartBeatTTL s of
        (Some err, s') \<Rightarrow> (StoreFailed err, s')
      | (None, s') \<Rightarrow> (StillWaiting, s'))"
| "heartBeat st pass period userID data (w # ws) s =
     (case Store_Set st connectionsNamespace userID data heartBeatTTL s of
        (Some err, s') \<Rightarrow> (StoreFailed err, s')
      | (None, s') \<Rightarrow>
          (case w of
             Ticked \<Rightarrow> heartBeat st pass period userID data ws (pass period s')
           | StopReceived \<Rightarrow> (Stopped, s')))"

section \<open>heartbeat.go: the heart beater\<close>

type_synonym chan = nat

definition close_chan :: "chan \<Rightarrow> chan set \<Rightarrow> chan set go" where
  "close_chan c closed =
     (if c \<in> closed then Panic ''close of closed channel'' else Ret (insert c closed))"

datatype beat_pc = AtStore | AtSelect | Returned

record beat =
  b_userID :: string
  b_data :: string
  b_stopCh :: chan
  b_pc :: beat_pc

record heartBeater =
  hb_serverID :: string
  hearts :: "ID \<rightharpoonup> chan"
  hb_closed :: "chan set"
  hb_next :: chan
  beats :: "beat list"

definition NewHeartBeater :: "string \<Rightarrow> heartBeater" where
  "NewHeartBeater serverID =
     \<lparr>hb_serverID = serverID, hearts = Map.empty, hb_closed = {}, hb_next = 0, beats = []\<rparr>"

definition LaunchForUser :: "uuid_lib \<Rightarrow> ID \<Rightarrow> heartBeater \<Rightarrow> go_error option \<times> heartBeater" where
  "LaunchForUser L userID b =
     (if hearts b userID \<noteq> None then (Some (Opaque ''user already has heartbeat''), b)
      else (case ConnectionInfo_Marshall \<lparr>conn_ServerID = hb_serverID b\<rparr> of
              Inl err \<Rightarrow> (Some (Wrapped ''failed to marshall connection info'' err), b)
            | Inr data \<Rightarrow>
                let h = hb_next b in
                (None, b\<lparr>hearts := (hearts b)(userID \<mapsto> h), hb_next := Suc h,
                   beats := beats b @
                     [\<lparr>b_userID = ID_String L userID, b_data = data, b_stopCh = h, b_pc = AtStore\<rparr>]\<rparr>)))"

definition stopForUserWithLock :: "ID \<Rightarrow> heartBeater \<Rightarrow> (go_error option \<times> heartBeater) go" where
  "stopForUserWithLock userID b =
     (case hearts b userID of
        None \<Rightarrow> Ret (Some (Opaque ''user does not have heartbeat''), b)
      | Some h \<Rightarrow>
          go_bind (close_chan h (hb_closed b))
            (\<lambda>cl. Ret (None, b\<lparr>hb_closed := cl, hearts := (hearts b)(userID := None)\<rparr>)))"

definition StopForUser :: "ID \<Rightarrow> heartBeater \<Rightarrow> (go_error option \<times> heartBeater) go" where
  "StopForUser userID b = stopForUserWithLock userID b"

text \<open>
  \<open>Close\<close> ranges over the map while it deletes from it: \<open>order\<close> is the order in which the range
  visits the keys. \<open>app\<close> is \<open>multierr.Append\<close>, which never returns nil.
\<close>

fun hb_Close :: "(go_error option \<Rightarrow> go_error \<Rightarrow> go_error) \<Rightarrow> ID list \<Rightarrow> go_error option \<Rightarrow> heartBeater \<Rightarrow>
    (go_error option \<times> heartBeater) go" where
  "hb_Close app [] multiErr b = Ret (multiErr, b)"
| "hb_Close app (u # order) multiErr b =
     go_bind (stopForUserWithLock u b)
       (\<lambda>(err, b'). hb_Close app order
          (case err of None \<Rightarrow> multiErr | Some e \<Rightarrow> Some (app multiErr e)) b')"

definition range_order :: "('k \<rightharpoonup> 'v) \<Rightarrow> 'k list \<Rightarrow> bool" where
  "range_order m order \<longleftrightarrow> distinct order \<and> set order = dom m"

text \<open>A step of the goroutine at position \<open>i\<close>; \<open>set_beat\<close> moves its program counter.\<close>

definition set_beat :: "nat \<Rightarrow> beat_pc \<Rightarrow> heartBeater \<Rightarrow> heartBeater" where
  "set_beat i pc b = b\<lparr>beats := (beats b)[i := (beats b ! i)\<lparr>b_pc := pc\<rparr>]\<rparr>"

text \<open>
  The transitions: the three calls (each holds the mutex from start to end) and the goroutines'
  own steps. The second component of the state is the store, which other programs share.
\<close>

inductive hb_step ::
  "uuid_lib \<Rightarrow> 's Store \<Rightarrow> (go_error option \<Rightarrow> go_error \<Rightarrow> go_error) \<Rightarrow> heartBeater \<times> 's \<Rightarrow> heartBeater \<times> 's \<Rightarrow> bool"
  for L st app where
  launch: "LaunchForUser L u b = (e, b') \<Longrightarrow> hb_step L st app (b, s) (b', s)"
| stop: "StopForUser u b = Ret (e, b') \<Longrightarrow> hb_step L st app (b, s) (b', s)"
| close: "range_order (hearts b) order \<Longrightarrow> hb_Close app order None b = Ret (e, b') \<Longrightarrow>
    hb_step L st app (b, s) (b', s)"
| stored: "i < length (beats b) \<Longrightarrow> b_pc (beats b ! i) = AtStore \<Longrightarrow>
    Store_Set st connectionsNamespace (b_userID (beats b ! i)) (b_data (beats b ! i)) heartBeatTTL s
      = (None, s') \<Longrightarrow>
    hb_step L st app (b, s) (set_beat i AtSelect b, s')"
| store_failed: "i < length (beats b) \<Longrightarrow> b_pc (beats b ! i) = AtStore \<Longrightarrow>
    Store_Set st connectionsNamespace (b_userID (beats b ! i)) (b_data (beats b ! i)) heartBeatTTL s
      = (Some err, s') \<Longrightarrow>
    hb_step L st app (b, s) (set_beat i Returned b, s')"
| tick: "i < length (beats b) \<Longrightarrow> b_pc (beats b ! i) = AtSelect \<Longrightarrow>
    hb_step L st app (b, s) (set_beat i AtStore b, s)"
| stop_received: "i < length (beats b) \<Longrightarrow> b_pc (beats b ! i) = AtSelect \<Longrightarrow>
    b_stopCh (beats b ! i) \<in> hb_closed b \<Longrightarrow>
    hb_step L st app (b, s) (set_beat i Returned b, s)"
| others: "hb_step L st app (b, s) (b, s')"

inductive hb_reachable ::
  "uuid_lib \<Rightarrow> 's Store \<Rightarrow> (go_error option \<Rightarrow> go_error \<Rightarrow> go_error) \<Rightarrow> string \<Rightarrow> heartBeater \<times> 's \<Rightarrow> bool"
  for L st app serverID where
  hb_start: "hb_reachable L st app serverID (NewHeartBeater serverID, s)"
| hb_next: "hb_reachable L st app serverID x \<Longrightarrow> hb_step L st app x y \<Longrightarrow>
    hb_reachable L st app serverID y"

inductive_cases hb_stepE: "hb_step L st app (b, s) y"

section \<open>The invariant\<close>

text \<open>What a goroutine keeps for its whole life.\<close>

definition beat_key :: "beat \<Rightarrow> chan \<times> string \<times> string" where
  "beat_key x = (b_stopCh x, b_userID x, b_data x)"

text \<open>
  Every registered heart has an open stop channel of its own; no two goroutines share a channel; a
  goroutine whose channel is open belongs to the user registered with that channel, and writes that
  user's key and this server's record. The arguments are the fields of the heart beater it speaks of.
\<close>

definition keys_inv ::
  "uuid_lib \<Rightarrow> string \<Rightarrow> (ID \<rightharpoonup> chan) \<Rightarrow> chan set \<Rightarrow> chan \<Rightarrow> (chan \<times> string \<times> string) list \<Rightarrow> bool" where
  "keys_inv L sid m cl n ks \<longleftrightarrow>
     finite (dom m) \<and> cl \<subseteq> {..<n} \<and>
     (\<forall>u c. m u = Some c \<longrightarrow> c < n \<and> c \<notin> cl) \<and>
     (\<forall>u v c. m u = Some c \<longrightarrow> m v = Some c \<longrightarrow> u = v) \<and>
     distinct (map fst ks) \<and>
     (\<forall>c k d. (c, k, d) \<in> set ks \<longrightarrow>
        c < n \<and> ConnectionInfo_Marshall \<lparr>conn_ServerID = sid\<rparr> = Inr d \<and>
        (c \<notin> cl \<longrightarrow> (\<exists>u. m u = Some c \<and> k = ID_String L u)))"

definition hb_inv :: "uuid_lib \<Rightarrow> string \<Rightarrow> heartBeater \<Rightarrow> bool" where
  "hb_inv L sid b \<longleftrightarrow>
     hb_serverID b = sid \<and>
     keys_inv L sid (hearts b) (hb_closed b) (hb_next b) (map beat_key (beats b))"

lemma keys_inv_owner:
  "keys_inv L sid m cl n ks \<Longrightarrow> (c, k, d) \<in> set ks \<Longrightarrow> c \<notin> cl \<Longrightarrow>
   \<exists>u. m u = Some c \<and> k = ID_String L u"
  unfolding keys_inv_def by blast

lemma keys_inv_launch:
  assumes "keys_inv L sid m cl n ks" and "m u = None"
    and "ConnectionInfo_Marshall \<lparr>conn_ServerID = sid\<rparr> = Inr d"
  shows "keys_inv L sid (m(u \<mapsto> n)) cl (Suc n) (ks @ [(n, ID_String L u, d)])"
proof -
  have "n \<notin> fst ` set ks" using assms(1) by (force simp: keys_inv_def)
  moreover have "\<exists>v. (m(u \<mapsto> n)) v = Some c \<and> k = ID_String L v"
    if h: "(c, k, e) \<in> set ks" "c \<notin> cl" for c k e
  proof -
    obtain v where "m v = Some c" "k = ID_String L v"
      using keys_inv_owner [OF assms(1)] h by blast
    with assms(2) show ?thesis by (intro exI [of _ v]) auto
  qed
  moreover have "m v \<noteq> Some n" for v using assms(1) by (auto simp: keys_inv_def)
  ultimately show ?thesis
    using assms by (auto simp: keys_inv_def less_Suc_eq lessThan_Suc)
qed

lemma keys_inv_stop:
  assumes "keys_inv L sid m cl n ks" and "m u = Some c"
  shows "keys_inv L sid (m(u := None)) (insert c cl) n ks"
proof -
  have "\<exists>v. (m(u := None)) v = Some x \<and> k = ID_String L v"
    if h: "(x, k, e) \<in> set ks" "x \<notin> insert c cl" for x k e
  proof -
    obtain v where "m v = Some x" "k = ID_String L v"
      using keys_inv_owner [OF assms(1)] h by blast
    with assms(2) h show ?thesis by (intro exI [of _ v]) auto
  qed
  moreover have "c < n" using assms by (auto simp: keys_inv_def)
  ultimately show ?thesis
    using assms by (auto simp: keys_inv_def)
qed

lemma beat_key_set_beat [simp]:
  "i < length (beats b) \<Longrightarrow> map beat_key (beats (set_beat i pc b)) = map beat_key (beats b)"
  by (rule nth_equalityI) (auto simp: set_beat_def beat_key_def nth_list_update)

lemma set_beat_frame [simp]:
  "hearts (set_beat i pc b) = hearts b" "hb_closed (set_beat i pc b) = hb_closed b"
  "hb_next (set_beat i pc b) = hb_next b" "hb_serverID (set_beat i pc b) = hb_serverID b"
  "length (beats (set_beat i pc b)) = length (beats b)"
  by (simp_all add: set_beat_def)

lemma hb_inv_set_beat:
  "hb_inv L sid b \<Longrightarrow> i < length (beats b) \<Longrightarrow> hb_inv L sid (set_beat i pc b)"
  by (simp add: hb_inv_def)

lemma hb_inv_New: "hb_inv L serverID (NewHeartBeater serverID)"
  by (simp add: hb_inv_def keys_inv_def NewHeartBeater_def)

lemma LaunchForUser_new:
  "hearts b u = None \<Longrightarrow>
   LaunchForUser L u b =
     (None, b\<lparr>hearts := (hearts b)(u \<mapsto> hb_next b), hb_next := Suc (hb_next b),
        beats := beats b @ [\<lparr>b_userID = ID_String L u,
          b_data = render (JObj [(''serverID'', json_string (hb_serverID b))]),
          b_stopCh = hb_next b, b_pc = AtStore\<rparr>]\<rparr>)"
  by (simp add: LaunchForUser_def ConnectionInfo_Marshall_def Let_def)

lemma LaunchForUser_active:
  "hearts b u \<noteq> None \<Longrightarrow> LaunchForUser L u b = (Some (Opaque ''user already has heartbeat''), b)"
  by (simp add: LaunchForUser_def)

lemma hb_inv_launch:
  assumes "hb_inv L sid b" and "LaunchForUser L u b = (e, b')"
  shows "hb_inv L sid b'"
proof (cases "hearts b u")
  case (Some c)
  with assms show ?thesis by (simp add: LaunchForUser_active)
next
  case None
  with assms show ?thesis
    using keys_inv_launch [of L sid "hearts b" "hb_closed b" "hb_next b" _ u]
    by (auto simp: LaunchForUser_new hb_inv_def beat_key_def ConnectionInfo_Marshall_def)
qed

lemma stopForUser_active:
  assumes "hb_inv L sid b" and "hearts b u = Some c"
  shows "stopForUserWithLock u b =
    Ret (None, b\<lparr>hb_closed := insert c (hb_closed b), hearts := (hearts b)(u := None)\<rparr>)"
  using assms by (auto simp: stopForUserWithLock_def close_chan_def hb_inv_def keys_inv_def)

lemma stopForUser_inactive:
  "hearts b u = None \<Longrightarrow>
   stopForUserWithLock u b = Ret (Some (Opaque ''user does not have heartbeat''), b)"
  by (simp add: stopForUserWithLock_def)

lemma hb_inv_stop:
  assumes "hb_inv L sid b"
  shows "\<exists>e b'. stopForUserWithLock u b = Ret (e, b') \<and> hb_inv L sid b'"
proof (cases "hearts b u")
  case None
  with assms show ?thesis by (simp add: stopForUser_inactive)
next
  case (Some c)
  with assms show ?thesis
    by (auto simp: stopForUser_active hb_inv_def intro: keys_inv_stop)
qed

text \<open>Closing visits registered users only, so it stops every one and reports nothing.\<close>

lemma hb_Close_all:
  assumes "hb_inv L sid b" and "distinct order" and "set order \<subseteq> dom (hearts b)"
  shows "\<exists>b'. hb_Close app order multiErr b = Ret (multiErr, b') \<and> hb_inv L sid b' \<and>
    hearts b' = hearts b |` (- set order) \<and> beats b' = beats b \<and>
    hb_closed b' = hb_closed b \<union> {c. \<exists>u\<in>set order. hearts b u = Some c}"
  using assms
proof (induction order arbitrary: b)
  case Nil
  then show ?case by simp
next
  case (Cons u order)
  then obtain c where c: "hearts b u = Some c" by auto
  let ?b = "b\<lparr>hb_closed := insert c (hb_closed b), hearts := (hearts b)(u := None)\<rparr>"
  have stop: "stopForUserWithLock u b = Ret (None, ?b)"
    using Cons.prems(1) c by (rule stopForUser_active)
  then have "hb_inv L sid ?b" using hb_inv_stop [OF Cons.prems(1), of u] by simp
  moreover have "set order \<subseteq> dom (hearts ?b)" and "distinct order"
    using Cons.prems by auto
  ultimately obtain b' where b': "hb_Close app order multiErr ?b = Ret (multiErr, b')"
    "hb_inv L sid b'" "hearts b' = hearts ?b |` (- set order)" "beats b' = beats ?b"
    "hb_closed b' = hb_closed ?b \<union> {c. \<exists>u\<in>set order. hearts ?b u = Some c}"
    using Cons.IH by blast
  have "hearts b' = hearts b |` (- set (u # order))"
    using b'(3) by (auto simp: restrict_map_def fun_eq_iff)
  moreover have "hb_closed b' = hb_closed b \<union> {c. \<exists>u\<in>set (u # order). hearts b u = Some c}"
    using b'(5) c Cons.prems(2) by (auto split: if_splits)
  ultimately show ?case using b' stop by simp
qed

lemma hb_inv_step: "hb_step L st app x y \<Longrightarrow> hb_inv L sid (fst x) \<Longrightarrow> hb_inv L sid (fst y)"
proof (induction rule: hb_step.induct)
  case (launch u b e b' s)
  then show ?case by (auto intro: hb_inv_launch)
next
  case (stop u b e b' s)
  then show ?case using hb_inv_stop [of L sid b u] by (auto simp: StopForUser_def)
next
  case (close b order e b' s)
  then show ?case
    using hb_Close_all [of L sid b order app None] by (auto simp: range_order_def)
qed (simp_all add: hb_inv_set_beat)

lemma reachable_hb_inv: "hb_reachable L st app sid x \<Longrightarrow> hb_inv L sid (fst x)"
proof (induction rule: hb_reachable.induct)
  case (hb_start s)
  then show ?case by (simp add: hb_inv_New)
next
  case (hb_next x y)
  then show ?case by (blast intro: hb_inv_step)
qed

section \<open>The interface\<close>

text \<open>
  \<open>HeartBeater\<close> as the event server relies on it: \<open>active\<close> says which users have a heartbeat, \<open>inv\<close>
  is what every operation keeps.
\<close>

locale heart_beater =
  fixes launch :: "ID \<Rightarrow> 'h \<Rightarrow> go_error option \<times> 'h"
    and stop :: "ID \<Rightarrow> 'h \<Rightarrow> (go_error option \<times> 'h) go"
    and active :: "'h \<Rightarrow> ID \<Rightarrow> bool"
    and inv :: "'h \<Rightarrow> bool"
  assumes launch_inv: "inv h \<Longrightarrow> inv (snd (launch u h))"
    and launch_fresh: "inv h \<Longrightarrow> \<not> active h u \<Longrightarrow> fst (launch u h) = None"
    and launch_active: "inv h \<Longrightarrow> active h u \<Longrightarrow> fst (launch u h) \<noteq> None \<and> snd (launch u h) = h"
    and active_launch: "inv h \<Longrightarrow> active (snd (launch u h)) v \<longleftrightarrow> v = u \<or> active h v"
    and stop_inv: "inv h \<Longrightarrow> \<exists>e h'. stop u h = Ret (e, h') \<and> inv h' \<and>
        (e = None \<longleftrightarrow> active h u) \<and> (\<forall>v. active h' v \<longleftrightarrow> v \<noteq> u \<and> active h v)"
begin

lemma launch_once: "inv h \<Longrightarrow> fst (launch u (snd (launch u h))) \<noteq> None"
  using launch_active [of "snd (launch u h)" u] launch_inv [of h u] active_launch [of h u u] by simp

lemma launch_again_after_stop:
  assumes "inv h" "active h u" "stop u h = Ret (e, h')"
  shows "e = None \<and> fst (launch u h') = None"
  using stop_inv [OF assms(1), of u] assms launch_fresh by auto

end

definition hb_active :: "heartBeater \<Rightarrow> ID \<Rightarrow> bool" where
  "hb_active b u \<longleftrightarrow> hearts b u \<noteq> None"

interpretation beater: heart_beater "LaunchForUser L" StopForUser hb_active "hb_inv L sid"
  for L sid
proof (unfold_locales, goal_cases)
  case (1 h u)
  then show ?case using hb_inv_launch [of L sid h u] by (metis prod.collapse)
next
  case (2 h u)
  then show ?case by (simp add: hb_active_def LaunchForUser_new)
next
  case (3 h u)
  then show ?case by (simp add: hb_active_def LaunchForUser_active)
next
  case (4 h u v)
  then show ?case
    by (cases "hearts h u") (simp_all add: hb_active_def LaunchForUser_new LaunchForUser_active, auto)
next
  case (5 h u)
  obtain e h' where *: "stopForUserWithLock u h = Ret (e, h')" "hb_inv L sid h'"
    using hb_inv_stop [OF 5, of u] by blast
  with 5 show ?case
    by (cases "hearts h u")
      (auto simp: StopForUser_def hb_active_def stopForUser_inactive stopForUser_active split: if_splits)
qed

section \<open>Time\<close>

text \<open>Time passing on the store: the clock moves, the entries stay.\<close>

definition clock_laws :: "('r \<Rightarrow> bool) \<Rightarrow> ('r \<Rightarrow> redis_view) \<Rightarrow> (duration \<Rightarrow> 'r \<Rightarrow> 'r) \<Rightarrow> bool" where
  "clock_laws up view pass \<longleftrightarrow>
     (\<forall>d s. up s \<longrightarrow> 0 \<le> d \<longrightarrow>
        up (pass d s) \<and> view (pass d s) = (view s)\<lparr>rv_now := rv_now (view s) + d\<rparr>)"

lemma ref_clock_laws: "clock_laws ref_up ref_view ref_advance"
  by (simp add: clock_laws_def ref_up_def ref_view_def ref_advance_def)

lemma heartBeatTTL_pos [simp]: "0 < heartBeatTTL"
  by (simp add: heartBeatTTL_def Second_def)

lemma quot_i64_ten:
  assumes "in_i64 d"
  shows "d < 10 \<Longrightarrow> quot_i64 d 10 \<le> 0"
proof -
  assume "d < 10"
  have "\<bar>d\<bar> div 10 < 2 ^ 63" "0 \<le> \<bar>d\<bar> div 10" using assms by (auto simp: in_i64_def pos_imp_zdiv_nonneg_iff)
  then have "in_i64 (sgn d * sgn 10 * (\<bar>d\<bar> div 10))" by (auto simp: in_i64_def sgn_if)
  moreover have "sgn d * sgn 10 * (\<bar>d\<bar> div 10) \<le> 0"
    using \<open>d < 10\<close> \<open>0 \<le> \<bar>d\<bar> div 10\<close> by (cases "d \<le> 0") (auto simp: sgn_if)
  ultimately show ?thesis by (simp add: quot_i64_def)
qed

lemma i64_overflow: "2 ^ 63 \<le> x \<Longrightarrow> x < 2 ^ 64 \<Longrightarrow> i64 x = x - 2 ^ 64"
proof -
  assume x: "2 ^ 63 \<le> x" "x < 2 ^ 64"
  have "(x + 2 ^ 63) mod 2 ^ 64 = (x + 2 ^ 63 - 2 ^ 64) mod 2 ^ 64" by (rule minus_mod_self2 [symmetric])
  also have "\<dots> = x + 2 ^ 63 - 2 ^ 64" using x by (intro mod_pos_pos_trivial) simp_all
  finally show ?thesis by (simp add: i64_def)
qed

lemma addJitter_interval:
  assumes "Intn_ok intn"
  shows "\<exists>d. addJitter intn heartBeatInterval = Ret d \<and> 10 * Second \<le> d \<and> d < 11 * Second"
proof -
  have "quot_i64 heartBeatInterval 10 = Second"
    by (simp add: heartBeatInterval_def Second_def quot_i64_nonneg in_i64_def)
  moreover have "0 \<le> intn Second" "intn Second < Second"
    using assms by (simp_all add: Intn_ok_def Second_def)
  ultimately show ?thesis
    by (simp add: addJitter_def Let_def heartBeatInterval_def Second_def in_i64_def)
qed

text \<open>The entry a heartbeat keeps: the record of this server, expiring a TTL after the last store.\<close>

lemma redis_Set_view:
  assumes "redis_laws R up view" "up s"
  shows "\<exists>s'. Store_Set (redis_Store R c) connectionsNamespace k d heartBeatTTL s = (None, s') \<and> up s' \<and>
    rv_entries (view s') (collectionKey c connectionsNamespace k) = Some (d, rv_now (view s') + heartBeatTTL)"
proof -
  let ?k = "collectionKey c connectionsNamespace k"
  have "fst (rd_Set R ?k d heartBeatTTL s) = None" "up (snd (rd_Set R ?k d heartBeatTTL s))"
    "view (snd (rd_Set R ?k d heartBeatTTL s)) =
       (view s)\<lparr>rv_entries := (rv_entries (view s))(?k \<mapsto> (d, rv_now (view s) + heartBeatTTL))\<rparr>"
    using redis_lawsD(3-5) [OF assms, of heartBeatTTL ?k d] by simp_all
  then show ?thesis
    by (intro exI [of _ "snd (rd_Set R ?k d heartBeatTTL s)"])
      (simp add: SetCollectionItemWithTTL_def prod_eq_iff)
qed

lemma heartBeat_keeps_entry:
  assumes "redis_laws R up view" "clock_laws up view pass" "0 \<le> period" "up s"
  shows "\<exists>s'. heartBeat (redis_Store R c) pass period k d (replicate n Ticked) s = (StillWaiting, s') \<and>
    up s' \<and> rv_entries (view s') (collectionKey c connectionsNamespace k) =
      Some (d, rv_now (view s') + heartBeatTTL)"
  using assms(4)
proof (induction n arbitrary: s)
  case 0
  then show ?case using redis_Set_view [OF assms(1), of s c k d] by auto
next
  case (Suc n)
  obtain s1 where s1: "Store_Set (redis_Store R c) connectionsNamespace k d heartBeatTTL s = (None, s1)" "up s1"
    using redis_Set_view [OF assms(1) Suc.prems] by blast
  then have "up (pass period s1)"
    using assms(2,3) by (simp add: clock_laws_def)
  then show ?case using Suc.IH s1 by simp
qed

lemma heartBeat_live:
  assumes "redis_laws R up view" "clock_laws up view pass" "0 \<le> period" "up s"
    and "heartBeat (redis_Store R c) pass period k d (replicate n Ticked) s = (r, s')" and "0 \<le> t"
  shows "r = StillWaiting \<and> up (pass t s') \<and>
    redis_item c view (pass t s') connectionsNamespace k = (if t < heartBeatTTL then Some d else None)"
proof -
  have "r = StillWaiting" "up s'"
    "rv_entries (view s') (collectionKey c connectionsNamespace k) = Some (d, rv_now (view s') + heartBeatTTL)"
    using heartBeat_keeps_entry [OF assms(1-4), of c k d n] assms(5) by auto
  then show ?thesis
    using assms(2,6) by (simp add: clock_laws_def redis_item_def live_def)
qed

lemma Resolve_item:
  assumes "redis_ready R up view s" and "valid_utf8 sid"
    and "ConnectionInfo_Marshall \<lparr>conn_ServerID = sid\<rparr> = Inr d"
    and "redis_item c view s connectionsNamespace (ID_String L u) = Some d"
  shows "ServerResolver_Resolve L (redis_Store R c) u s = Inr \<lparr>ServerID = sid\<rparr>"
  using redis_store.get_present [OF assms(1,4)] ConnectionInfo_roundtrip [OF _ assms(3)] assms(2)
  by (simp add: ServerResolver_Resolve_def)

lemma Resolve_no_item:
  assumes "redis_ready R up view s"
    and "redis_item c view s connectionsNamespace (ID_String L u) = None"
  shows "\<exists>e. ServerResolver_Resolve L (redis_Store R c) u s = Inl e"
  using redis_store.get_absent [OF assms] by (auto simp: ServerResolver_Resolve_def)

section \<open>One goroutine per user\<close>

lemma one_heartbeat_live:
  assumes "uuid_laws L" and "hb_reachable L st app sid (b, s)"
    and "i < length (beats b)" and "b_stopCh (beats b ! i) \<notin> hb_closed b"
  shows "\<exists>u. hearts b u = Some (b_stopCh (beats b ! i)) \<and> b_userID (beats b ! i) = ID_String L u \<and>
    ConnectionInfo_Marshall \<lparr>conn_ServerID = sid\<rparr> = Inr (b_data (beats b ! i)) \<and>
    (\<forall>j < length (beats b). b_stopCh (beats b ! j) \<notin> hb_closed b \<longrightarrow>
       b_userID (beats b ! j) = ID_String L u \<longrightarrow> j = i)"
proof -
  have inv: "keys_inv L sid (hearts b) (hb_closed b) (hb_next b) (map beat_key (beats b))"
    using reachable_hb_inv [OF assms(2)] by (simp add: hb_inv_def)
  have key: "(b_stopCh (beats b ! j), b_userID (beats b ! j), b_data (beats b ! j)) \<in> set (map beat_key (beats b))"
    if "j < length (beats b)" for j
    using that by (auto simp: beat_key_def)
  obtain u where u: "hearts b u = Some (b_stopCh (beats b ! i))" "b_userID (beats b ! i) = ID_String L u"
    using keys_inv_owner [OF inv key [OF assms(3)] assms(4)] by blast
  have same: "j = i" if j: "j < length (beats b)" "b_stopCh (beats b ! j) \<notin> hb_closed b"
    "b_userID (beats b ! j) = ID_String L u" for j
  proof -
    obtain v where "hearts b v = Some (b_stopCh (beats b ! j))" "b_userID (beats b ! j) = ID_String L v"
      using keys_inv_owner [OF inv key [OF j(1)] j(2)] by blast
    then have "b_stopCh (beats b ! j) = b_stopCh (beats b ! i)"
      using u j(3) ID_String_inj [OF assms(1), of u v] by simp
    moreover have "distinct (map fst (map beat_key (beats b)))" using inv by (simp add: keys_inv_def)
    ultimately show ?thesis
      using j(1) assms(3) by (simp add: distinct_conv_nth beat_key_def) blast
  qed
  have "ConnectionInfo_Marshall \<lparr>conn_ServerID = sid\<rparr> = Inr (b_data (beats b ! i))"
    using inv key [OF assms(3)] unfolding keys_inv_def by blast
  with u same show ?thesis by blast
qed

text \<open>A user whose heartbeat runs is resolved, and is not any more once it has stopped for long enough.\<close>

lemma beating_user:
  assumes "redis_laws R up view" and "clock_laws up view pass" and "up s" and "Intn_ok intn"
    and "addJitter intn heartBeatInterval = Ret period"
    and "valid_utf8 sid" and "ConnectionInfo_Marshall \<lparr>conn_ServerID = sid\<rparr> = Inr d" and "0 \<le> t"
    and "heartBeat (redis_Store R c) pass period (ID_String L u) d (replicate n Ticked) s = (r, s')"
  shows "r = StillWaiting \<and>
    (t \<le> period \<longrightarrow> ServerResolver_Resolve L (redis_Store R c) u (pass t s') = Inr \<lparr>ServerID = sid\<rparr>) \<and>
    (heartBeatTTL \<le> t \<longrightarrow> (\<exists>e. ServerResolver_Resolve L (redis_Store R c) u (pass t s') = Inl e))"
proof -
  have period: "0 \<le> period" "period < heartBeatTTL"
    using addJitter_interval [OF assms(4)] assms(5) by (auto simp: heartBeatTTL_def Second_def)
  have live: "r = StillWaiting" "redis_ready R up view (pass t s')"
    "redis_item c view (pass t s') connectionsNamespace (ID_String L u) =
       (if t < heartBeatTTL then Some d else None)"
    using heartBeat_live [OF assms(1,2) period(1) assms(3,9,8)] assms(1)
    by (simp_all add: redis_ready_def)
  show ?thesis
    using live period Resolve_item [OF live(2) assms(6,7)] Resolve_no_item [OF live(2)] by simp
qed

section \<open>Properties\<close>

text \<open>C8: \<open>rand.Intn\<close> panics for every duration below ten nanoseconds, negative ones included. For any other the
  result is the duration plus less than a tenth of it, at least the duration, as long as the sum fits into 64 bits;
  beyond, for durations of more than 265 years, it may wrap around, and then it is negative. For the
  interval of the heartbeat it is between ten and eleven seconds, well inside the 20 second time to live.\<close>

theorem addJitter_bounds:
  assumes "Intn_ok intn" and "in_i64 d"
  shows "(d < 10 \<longrightarrow> (\<exists>m. addJitter intn d = Panic m)) \<and>
    (10 \<le> d \<longrightarrow> (\<exists>r. addJitter intn d = Ret r \<and> in_i64 r \<and>
       (d + intn (d div 10) < 2 ^ 63 \<longrightarrow> d \<le> r \<and> r < d + d div 10) \<and>
       (2 ^ 63 \<le> d + intn (d div 10) \<longrightarrow> r < 0))) \<and>
    (10 \<le> d \<longrightarrow> d + d div 10 \<le> 2 ^ 63 \<longrightarrow> d + intn (d div 10) < 2 ^ 63) \<and>
    (\<exists>r. addJitter intn heartBeatInterval = Ret r \<and> 10 * Second \<le> r \<and> r < 11 * Second \<and> r < heartBeatTTL)"
proof (intro conjI impI)
  assume "d < 10"
  show "\<exists>m. addJitter intn d = Panic m"
    using quot_i64_ten [OF assms(2)] \<open>d < 10\<close> by (auto simp: addJitter_def Let_def)
next
  assume d: "10 \<le> d"
  have n: "quot_i64 d 10 = d div 10" using assms(2) d by (intro quot_i64_nonneg) simp_all
  have pos: "0 < d div 10" using d by (simp add: pos_imp_zdiv_pos_iff)
  then have jitter: "0 \<le> intn (d div 10)" "intn (d div 10) < d div 10" using assms(1) by (simp_all add: Intn_ok_def)
  have "10 * (d div 10) \<le> d" by simp
  then have "intn (d div 10) < d" using d jitter pos by linarith
  then have sum: "d + intn (d div 10) < 2 ^ 64" using assms(2) by (simp add: in_i64_def)
  have "addJitter intn d = Ret (i64 (d + intn (d div 10)))" using pos by (simp add: addJitter_def n)
  moreover have "i64 (d + intn (d div 10)) = d + intn (d div 10)" if "d + intn (d div 10) < 2 ^ 63"
    using that d jitter by (simp add: in_i64_def)
  moreover have "i64 (d + intn (d div 10)) < 0" if "2 ^ 63 \<le> d + intn (d div 10)"
    using i64_overflow [OF that sum] sum by simp
  ultimately show "\<exists>r. addJitter intn d = Ret r \<and> in_i64 r \<and>
      (d + intn (d div 10) < 2 ^ 63 \<longrightarrow> d \<le> r \<and> r < d + d div 10) \<and> (2 ^ 63 \<le> d + intn (d div 10) \<longrightarrow> r < 0)"
    using jitter by auto
  show "d + intn (d div 10) < 2 ^ 63" if "d + d div 10 \<le> 2 ^ 63" using that jitter by simp
next
  show "\<exists>r. addJitter intn heartBeatInterval = Ret r \<and> 10 * Second \<le> r \<and> r < 11 * Second \<and> r < heartBeatTTL"
    using addJitter_interval [OF assms(1)] by (auto simp: heartBeatTTL_def Second_def)
qed

theorem addJitter_bounds_witness:
  "addJitter (\<lambda>n. n - 1) heartBeatInterval = Ret 10999999999 \<and>
   (\<exists>r. addJitter (\<lambda>n. n - 1) (2 ^ 63 - 1) = Ret r \<and> r < 0)"
proof -
  have ok: "Intn_ok (\<lambda>n. n - 1)" by (simp add: Intn_ok_def)
  have "addJitter (\<lambda>n. n - 1) heartBeatInterval = Ret 10999999999" by code_simp
  moreover have "in_i64 (2 ^ 63 - 1)" by (simp add: in_i64_def)
  ultimately show ?thesis
    using addJitter_bounds [OF ok, of "2 ^ 63 - 1"] by auto
qed

text \<open>C9: While a user's heartbeat runs and the store answers, the user is resolvable without a gap:
  at any moment up to the next tick, after any number of beats, the resolver names this server. When
  the beats stop, the user is no longer resolvable once the time to live is over.\<close>

theorem connected_user_resolvable:
  assumes "redis_laws R up view" and "clock_laws up view pass" and "up s" and "Intn_ok intn"
    and "addJitter intn heartBeatInterval = Ret period"
    and "valid_utf8 sid" and "ConnectionInfo_Marshall \<lparr>conn_ServerID = sid\<rparr> = Inr d" and "0 \<le> t"
    and "heartBeat (redis_Store R c) pass period (ID_String L u) d (replicate n Ticked) s = (r, s')"
  shows "r = StillWaiting \<and>
    (t \<le> period \<longrightarrow> ServerResolver_Resolve L (redis_Store R c) u (pass t s') = Inr \<lparr>ServerID = sid\<rparr>) \<and>
    (heartBeatTTL \<le> t \<longrightarrow> (\<exists>e. ServerResolver_Resolve L (redis_Store R c) u (pass t s') = Inl e))"
  using beating_user [OF assms] .

theorem connected_user_resolvable_witness:
  "\<exists>period r s'. addJitter (\<lambda>n. 0) heartBeatInterval = Ret period \<and>
     heartBeat (redis_Store ref_redis (NewRedisClient [])) ref_advance period (ID_String ref_uuid (ID 7))
       (render (JObj [(''serverID'', json_string ''es-1'')])) (replicate 3 Ticked) ([], 0) = (r, s') \<and>
     ServerResolver_Resolve ref_uuid (redis_Store ref_redis (NewRedisClient [])) (ID 7)
       (ref_advance (10 * Second) s') = Inr \<lparr>ServerID = ''es-1''\<rparr>"
proof -
  have ok: "Intn_ok (\<lambda>n. 0)" by (simp add: Intn_ok_def)
  let ?st = "redis_Store ref_redis (NewRedisClient [])"
  let ?d = "render (JObj [(''serverID'', json_string ''es-1'')])"
  have jitter: "addJitter (\<lambda>n. 0) heartBeatInterval = Ret (10 * Second)" by code_simp
  have utf8: "valid_utf8 ''es-1''" by (rule valid_utf8_ascii) auto
  have up: "ref_up ([], 0)" by (simp add: ref_up_def)
  have data: "ConnectionInfo_Marshall \<lparr>conn_ServerID = ''es-1''\<rparr> = Inr ?d"
    by (simp add: ConnectionInfo_Marshall_def)
  have nonneg: "0 \<le> 10 * Second" by (simp add: Second_def)
  obtain r s' where run: "heartBeat ?st ref_advance (10 * Second) (ID_String ref_uuid (ID 7)) ?d
      (replicate 3 Ticked) ([], 0) = (r, s')" by (metis surj_pair)
  have "ServerResolver_Resolve ref_uuid ?st (ID 7) (ref_advance (10 * Second) s') =
      Inr \<lparr>ServerID = ''es-1''\<rparr>"
    using connected_user_resolvable [OF ref_redis_laws ref_clock_laws up ok jitter utf8 data nonneg run]
    by blast
  with jitter run show ?thesis by blast
qed

text \<open>Closing tells every goroutine that was ever started to stop.\<close>

lemma Close_stops_all:
  assumes "hb_reachable L st app sid (b, s)" and "range_order (hearts b) order"
    and "hb_Close app order None b = Ret (e, b')"
  shows "e = None \<and> hearts b' = Map.empty \<and> beats b' = beats b \<and>
    (\<forall>x \<in> set (beats b'). b_stopCh x \<in> hb_closed b')"
proof -
  have inv: "hb_inv L sid b" using reachable_hb_inv [OF assms(1)] by simp
  then have b': "e = None" "hb_inv L sid b'" "hearts b' = hearts b |` (- set order)" "beats b' = beats b"
    using hb_Close_all [OF inv, of order app None] assms(2,3) by (auto simp: range_order_def)
  then have empty: "hearts b' = Map.empty"
    using assms(2) by (auto simp: range_order_def restrict_map_def fun_eq_iff)
  have "b_stopCh x \<in> hb_closed b'" if "x \<in> set (beats b')" for x
  proof (rule ccontr)
    assume "b_stopCh x \<notin> hb_closed b'"
    moreover have "(b_stopCh x, b_userID x, b_data x) \<in> set (map beat_key (beats b'))"
      using that by (auto simp: beat_key_def)
    ultimately show False
      using keys_inv_owner b'(2) empty unfolding hb_inv_def by fastforce
  qed
  with b' empty show ?thesis by blast
qed

text \<open>C10: No reachable sequence of launches, stops and closes, interleaved with the goroutines in any
  way, closes a stop channel twice: stopping any user returns, and so does closing, in whatever order
  the map is ranged over; it reports no error, leaves no user registered and has told every goroutine
  that was ever started to stop.\<close>

theorem heartbeater_never_panics:
  assumes "hb_reachable L st app sid (b, s)" and "range_order (hearts b) order"
  shows "(\<exists>e b'. StopForUser u b = Ret (e, b')) \<and>
    (\<exists>b'. hb_Close app order None b = Ret (None, b') \<and> hearts b' = Map.empty \<and> beats b' = beats b \<and>
       (\<forall>x \<in> set (beats b'). b_stopCh x \<in> hb_closed b'))"
proof -
  have inv: "hb_inv L sid b" using reachable_hb_inv [OF assms(1)] by simp
  obtain b' where close: "hb_Close app order None b = Ret (None, b')"
    using hb_Close_all [OF inv, of order app None] assms(2) by (auto simp: range_order_def)
  show ?thesis
    using beater.stop_inv [OF inv, of u] close Close_stops_all [OF assms close] by auto
qed

theorem heartbeater_never_panics_witness:
  "range_order (hearts (NewHeartBeater ''es'')) [] \<and>
   (\<exists>b'. hb_Close (\<lambda>_ e. e) [] None (NewHeartBeater ''es'') = Ret (None, b'))"
proof -
  have "range_order (hearts (NewHeartBeater ''es'')) []"
    by (simp add: range_order_def NewHeartBeater_def)
  then show ?thesis
    using heartbeater_never_panics [OF hb_start [of ref_uuid "redis_Store ref_redis (NewRedisClient [])" _ _ "([], 0)"]]
    by blast
qed

lemma reachable_launched:
  "hb_reachable L st app sid (snd (LaunchForUser L u (NewHeartBeater sid)), s)"
  by (rule hb_next [OF hb_start launch [where u = u and e = None]])
    (simp add: LaunchForUser_new NewHeartBeater_def)

lemma reachable_twice_launched:
  "\<exists>b. hb_reachable L st app sid (b, s) \<and> length (beats b) = 2 \<and>
     (\<forall>i < 2. b_userID (beats b ! i) = ID_String L u \<and> b_pc (beats b ! i) = AtStore)"
proof -
  let ?b = "snd (LaunchForUser L u (NewHeartBeater sid))"
  obtain e c where stopped: "StopForUser u ?b = Ret (e, c)" "hearts c u = None" "beats c = beats ?b"
    by (simp add: LaunchForUser_new NewHeartBeater_def StopForUser_def stopForUserWithLock_def close_chan_def)
  have again: "hb_reachable L st app sid (snd (LaunchForUser L u c), s)"
    by (rule hb_next [OF hb_next [OF reachable_launched [where u = u] stop [OF stopped(1)]] launch [where u = u and e = None]])
      (simp add: LaunchForUser_new stopped(2))
  show ?thesis
    by (rule exI [of _ "snd (LaunchForUser L u c)"], intro conjI again)
      (auto simp: LaunchForUser_new NewHeartBeater_def stopped(2,3) less_2_cases_iff)
qed

text \<open>C11: In every reachable state at most one goroutine per user has not been told to stop, counting those that have
  returned; it belongs to a registered user, and what it writes is that user's key. Every goroutine,
  stopped or not, writes this server's record. It is not at most one that runs: a goroutine that was
  told to stop may still be on its way to its store, so that after a launch, a stop and a launch
  two goroutines of one user are about to write.\<close>

theorem one_heartbeat_per_user:
  assumes "uuid_laws L" and "hb_reachable L st app sid (b, s)"
  shows "(\<forall>i < length (beats b). b_stopCh (beats b ! i) \<notin> hb_closed b \<longrightarrow>
      (\<exists>u. hearts b u = Some (b_stopCh (beats b ! i)) \<and> b_userID (beats b ! i) = ID_String L u \<and>
        (\<forall>j < length (beats b). b_stopCh (beats b ! j) \<notin> hb_closed b \<longrightarrow>
           b_userID (beats b ! j) = ID_String L u \<longrightarrow> j = i))) \<and>
    (\<forall>i < length (beats b). ConnectionInfo_Marshall \<lparr>conn_ServerID = sid\<rparr> = Inr (b_data (beats b ! i))) \<and>
    (\<exists>b'. hb_reachable L st app sid (b', s) \<and> length (beats b') = 2 \<and>
       (\<forall>i < 2. b_userID (beats b' ! i) = ID_String L v \<and> b_pc (beats b' ! i) = AtStore))"
proof (intro conjI allI impI)
  fix i assume i: "i < length (beats b)"
  have "keys_inv L sid (hearts b) (hb_closed b) (hb_next b) (map beat_key (beats b))"
    using reachable_hb_inv [OF assms(2)] by (simp add: hb_inv_def)
  moreover have "(b_stopCh (beats b ! i), b_userID (beats b ! i), b_data (beats b ! i)) \<in> set (map beat_key (beats b))"
    using i by (auto simp: beat_key_def)
  ultimately show "ConnectionInfo_Marshall \<lparr>conn_ServerID = sid\<rparr> = Inr (b_data (beats b ! i))"
    unfolding keys_inv_def by blast
  show "\<exists>u. hearts b u = Some (b_stopCh (beats b ! i)) \<and> b_userID (beats b ! i) = ID_String L u \<and>
      (\<forall>j < length (beats b). b_stopCh (beats b ! j) \<notin> hb_closed b \<longrightarrow> b_userID (beats b ! j) = ID_String L u \<longrightarrow> j = i)"
    if "b_stopCh (beats b ! i) \<notin> hb_closed b"
    using one_heartbeat_live [OF assms i that] by blast
next
  show "\<exists>b'. hb_reachable L st app sid (b', s) \<and> length (beats b') = 2 \<and>
      (\<forall>i < 2. b_userID (beats b' ! i) = ID_String L v \<and> b_pc (beats b' ! i) = AtStore)"
    by (rule reachable_twice_launched)
qed

theorem one_heartbeat_per_user_witness:
  "(\<exists>u. hearts (snd (LaunchForUser ref_uuid (ID 7) (NewHeartBeater ''es''))) u = Some 0) \<and>
   (\<exists>b'. hb_reachable ref_uuid (redis_Store ref_redis (NewRedisClient [])) (\<lambda>_ e. e) ''es'' (b', ([], 0)) \<and> length (beats b') = 2)"
proof -
  let ?b = "snd (LaunchForUser ref_uuid (ID 7) (NewHeartBeater ''es''))"
  have "0 < length (beats ?b)" "b_stopCh (beats ?b ! 0) = 0" "b_stopCh (beats ?b ! 0) \<notin> hb_closed ?b"
    by (simp_all add: LaunchForUser_new NewHeartBeater_def)
  then show ?thesis
    using one_heartbeat_per_user [OF ref_uuid_laws reachable_launched
        [of ref_uuid "redis_Store ref_redis (NewRedisClient [])" "\<lambda>_ e. e" _ "ID 7" "([], 0)"]] by metis
qed

text \<open>What stays true of a user \<open>u\<close> registered with the channel \<open>c\<close>, as long as he is: the goroutines of the user
  have returned, but for those whose channels, \<open>told\<close>, were closed before.\<close>

definition dead_heart :: "uuid_lib \<Rightarrow> ID \<Rightarrow> chan \<Rightarrow> chan set \<Rightarrow> heartBeater \<Rightarrow> bool" where
  "dead_heart L u c told b \<longleftrightarrow> c < hb_next b \<and> (hearts b u = Some c \<longrightarrow>
     (\<forall>x \<in> set (beats b). b_userID x = ID_String L u \<longrightarrow> b_pc x = Returned \<or> b_stopCh x \<in> told))"

lemma hb_Close_frame:
  "hb_Close app order m b = Ret (e, b') \<Longrightarrow>
   hb_next b' = hb_next b \<and> beats b' = beats b \<and> (\<forall>u. hearts b' u \<in> {None, hearts b u})"
proof (induction order arbitrary: m b)
  case (Cons v order)
  then obtain e1 b1 where stop: "stopForUserWithLock v b = Ret (e1, b1)"
    and rest: "\<exists>m'. hb_Close app order m' b1 = Ret (e, b')" by auto
  have "hb_next b1 = hb_next b \<and> beats b1 = beats b \<and> (\<forall>u. hearts b1 u \<in> {None, hearts b u})"
    using stop by (auto simp: stopForUserWithLock_def split: option.splits)
  moreover obtain m' where "hb_Close app order m' b1 = Ret (e, b')" using rest by blast
  then have "hb_next b' = hb_next b1 \<and> beats b' = beats b1 \<and> (\<forall>u. hearts b' u \<in> {None, hearts b1 u})"
    by (rule Cons.IH)
  ultimately show ?case by (metis insert_iff singletonD)
qed simp

lemma dead_heart_set_beat:
  assumes "dead_heart L u c told b" and "i < length (beats b)" and "b_pc (beats b ! i) \<noteq> Returned"
  shows "dead_heart L u c told (set_beat i pc b)"
proof -
  have "b_pc x = Returned \<or> b_stopCh x \<in> told"
    if "hearts b u = Some c" "x \<in> set (beats (set_beat i pc b))" "b_userID x = ID_String L u" for x
  proof (cases "x \<in> set (beats b)")
    case True
    then show ?thesis using assms(1) that by (simp add: dead_heart_def)
  next
    case False
    then have x: "x = (beats b ! i)\<lparr>b_pc := pc\<rparr>"
      using that(2) set_update_subset_insert [of "beats b" i] by (auto simp: set_beat_def)
    then have "b_pc (beats b ! i) = Returned \<or> b_stopCh (beats b ! i) \<in> told"
      using assms(1,2) that(1,3) by (simp add: dead_heart_def)
    then show ?thesis using assms(3) x by simp
  qed
  then show ?thesis using assms(1) by (simp add: dead_heart_def)
qed

lemma dead_heart_step:
  assumes "hb_step L st app (b, s) (b', s')" and "uuid_laws L" and "dead_heart L u c told b"
  shows "dead_heart L u c told b'"
  using assms(1)
proof cases
  case (launch v e)
  show ?thesis
  proof (cases "hearts b v")
    case None
    then have "b' = snd (LaunchForUser L v b)" using launch by simp
    then show ?thesis
      using None assms(3) ID_String_inj [OF assms(2), of u v] by (auto simp: LaunchForUser_new dead_heart_def)
  next
    case (Some c')
    then show ?thesis using launch assms(3) by (simp add: LaunchForUser_active)
  qed
next
  case (stop v e)
  then show ?thesis
    using assms(3) by (auto simp: StopForUser_def stopForUserWithLock_def dead_heart_def split: option.splits if_splits)
next
  case (close order e)
  have frame: "hb_next b' = hb_next b" "beats b' = beats b" "hearts b' u \<in> {None, hearts b u}"
    using hb_Close_frame [OF close(3)] by simp_all
  then show ?thesis using assms(3) unfolding dead_heart_def frame by auto
next
  case (stored i)
  then show ?thesis using dead_heart_set_beat [OF assms(3)] by simp
next
  case (store_failed i)
  then show ?thesis using dead_heart_set_beat [OF assms(3)] by simp
next
  case (tick i)
  then show ?thesis using dead_heart_set_beat [OF assms(3)] by simp
next
  case (stop_received i)
  then show ?thesis using dead_heart_set_beat [OF assms(3)] by simp
qed (use assms(3) in simp)

lemma dead_heart_steps:
  assumes "(hb_step L st app)\<^sup>*\<^sup>* x y" and "uuid_laws L" and "dead_heart L u c told (fst x)"
  shows "dead_heart L u c told (fst y)"
  using assms(1)
proof induction
  case (step y z)
  then show ?case using dead_heart_step [of L st app "fst y" "snd y" "fst z" "snd z"] assms(2) by simp
qed (rule assms(3))

text \<open>C13: One failed write ends a user's heartbeat for good: the goroutine returns, and in every later state, as long
  as nobody has stopped the dead heartbeat, launching one for the user is refused, and every
  goroutine of the user has returned but for those that had been told to stop before the failure and
  had not returned yet. If there is none of these, nobody writes for the user in any of these states.\<close>

theorem failed_store_leaves_dead_heartbeat:
  assumes "uuid_laws L" and "hb_reachable L st app sid (b, s)"
    and "i < length (beats b)" and "b_pc (beats b ! i) = AtStore"
    and "b_stopCh (beats b ! i) \<notin> hb_closed b"
    and "Store_Set st connectionsNamespace (b_userID (beats b ! i)) (b_data (beats b ! i)) heartBeatTTL s
           = (Some err, s')"
  shows "hb_reachable L st app sid (set_beat i Returned b, s') \<and>
    (\<exists>u. b_userID (beats b ! i) = ID_String L u \<and> hearts b u = Some (b_stopCh (beats b ! i)) \<and>
       (\<forall>b2 s2. (hb_step L st app)\<^sup>*\<^sup>* (set_beat i Returned b, s') (b2, s2) \<longrightarrow>
          hearts b2 u = Some (b_stopCh (beats b ! i)) \<longrightarrow>
          fst (LaunchForUser L u b2) \<noteq> None \<and>
          (\<forall>x \<in> set (beats b2). b_userID x = ID_String L u \<longrightarrow> b_pc x = Returned \<or> b_stopCh x \<in> hb_closed b) \<and>
          ((\<forall>j < length (beats b). j \<noteq> i \<longrightarrow> b_userID (beats b ! j) = ID_String L u \<longrightarrow> b_pc (beats b ! j) = Returned) \<longrightarrow>
           (\<forall>x \<in> set (beats b2). b_userID x = ID_String L u \<longrightarrow> b_pc x = Returned))))"
proof -
  let ?b = "set_beat i Returned b" and ?c = "b_stopCh (beats b ! i)"
  have reach: "hb_reachable L st app sid (?b, s')"
    using assms(2) store_failed [OF assms(3,4,6)] by (rule hb_next)
  obtain u where u: "hearts b u = Some ?c" "b_userID (beats b ! i) = ID_String L u"
    "\<forall>j < length (beats b). b_stopCh (beats b ! j) \<notin> hb_closed b \<longrightarrow> b_userID (beats b ! j) = ID_String L u \<longrightarrow> j = i"
    using one_heartbeat_live [OF assms(1,2,3,5)] by blast
  have fresh: "?c < hb_next b"
    using reachable_hb_inv [OF assms(2)] u(1) by (simp add: hb_inv_def keys_inv_def)
  have beats: "x \<in> set (beats ?b) \<Longrightarrow> b_pc x = Returned \<or> (\<exists>j < length (beats b). j \<noteq> i \<and> x = beats b ! j)" for x
  proof -
    assume "x \<in> set (beats ?b)"
    then obtain j where j: "j < length (beats b)" "x = beats ?b ! j"
      by (auto simp: set_beat_def in_set_conv_nth)
    show "b_pc x = Returned \<or> (\<exists>j < length (beats b). j \<noteq> i \<and> x = beats b ! j)"
    proof (cases "j = i")
      case True
      then show ?thesis using j assms(3) by (simp add: set_beat_def)
    next
      case False
      then have "x = beats b ! j" using j by (simp add: set_beat_def)
      then show ?thesis using False j(1) by blast
    qed
  qed
  have told: "dead_heart L u ?c (hb_closed b) ?b"
    using fresh beats u(3) by (force simp: dead_heart_def)
  have none: "dead_heart L u ?c {} ?b"
    if "\<forall>j < length (beats b). j \<noteq> i \<longrightarrow> b_userID (beats b ! j) = ID_String L u \<longrightarrow> b_pc (beats b ! j) = Returned"
    using fresh beats that by (force simp: dead_heart_def)
  show ?thesis
  proof (intro conjI reach exI [of _ u] allI impI ballI)
    fix b2 s2
    assume later: "(hb_step L st app)\<^sup>*\<^sup>* (?b, s') (b2, s2)" and registered: "hearts b2 u = Some ?c"
    show "fst (LaunchForUser L u b2) \<noteq> None" using registered by (simp add: LaunchForUser_active)
    fix x assume x: "x \<in> set (beats b2)" "b_userID x = ID_String L u"
    show "b_pc x = Returned \<or> b_stopCh x \<in> hb_closed b"
    proof -
      have "dead_heart L u ?c (hb_closed b) b2" using dead_heart_steps [OF later assms(1)] told by simp
      then show ?thesis using registered x by (simp add: dead_heart_def)
    qed
    show "b_pc x = Returned"
      if "\<forall>j < length (beats b). j \<noteq> i \<longrightarrow> b_userID (beats b ! j) = ID_String L u \<longrightarrow> b_pc (beats b ! j) = Returned"
    proof -
      have "dead_heart L u ?c {} b2" using dead_heart_steps [OF later assms(1)] none [OF that] by simp
      then show ?thesis using registered x by (simp add: dead_heart_def)
    qed
  qed (use u in simp_all)
qed

definition refusing_Store :: "unit Store" where
  "refusing_Store =
     \<lparr>Store_Get = (\<lambda>c k s. Inl (Opaque ''down'')), Store_Set = (\<lambda>c k d ttl s. (Some (Opaque ''down''), s)),
      Store_ListKeys = (\<lambda>c s. Ret (Inl (Opaque ''down''))), Store_List = (\<lambda>c s. Inl (Opaque ''down''))\<rparr>"

theorem failed_store_leaves_dead_heartbeat_witness:
  "\<exists>b. hb_reachable ref_uuid refusing_Store (\<lambda>_ e. e) ''es'' (b, ()) \<and>
     (\<exists>u. fst (LaunchForUser ref_uuid u b) \<noteq> None) \<and> length (beats b) = 1"
proof -
  let ?b = "snd (LaunchForUser ref_uuid (ID 7) (NewHeartBeater ''es''))"
  have i: "0 < length (beats ?b)" "b_pc (beats ?b ! 0) = AtStore" "b_stopCh (beats ?b ! 0) \<notin> hb_closed ?b"
    and one: "length (beats (set_beat 0 Returned ?b)) = 1" "hearts (set_beat 0 Returned ?b) = hearts ?b"
    by (simp_all add: LaunchForUser_new NewHeartBeater_def)
  have refused: "Store_Set refusing_Store connectionsNamespace k d heartBeatTTL () = (Some (Opaque ''down''), ())"
    for k d by (simp add: refusing_Store_def)
  note failed = failed_store_leaves_dead_heartbeat [OF ref_uuid_laws reachable_launched
        [of ref_uuid refusing_Store "\<lambda>_ e. e" "''es''" "ID 7" "()"] i refused]
  obtain u where u: "hearts ?b u = Some (b_stopCh (beats ?b ! 0))"
    "\<And>b2 s2. (hb_step ref_uuid refusing_Store (\<lambda>_ e. e))\<^sup>*\<^sup>* (set_beat 0 Returned ?b, ()) (b2, s2) \<Longrightarrow>
       hearts b2 u = Some (b_stopCh (beats ?b ! 0)) \<Longrightarrow> fst (LaunchForUser ref_uuid u b2) \<noteq> None"
    using failed [THEN conjunct2] by blast
  have "fst (LaunchForUser ref_uuid u (set_beat 0 Returned ?b)) \<noteq> None"
    by (rule u(2) [OF rtranclp.rtrancl_refl]) (simp add: one(2) u(1))
  then show ?thesis using failed [THEN conjunct1] one(1) by blast
qed

end
