(* ===== verification/ActiveUsers.thy ===== *)
theory ActiveUsers
  imports Auth Rtconn Slices
begin

text \<open>
  \<open>gateway/services/active_users.go\<close>: the users seen lately, kept in the store with a time to live.
  \<open>time.Time\<close> is a type \<open>'t\<close> with its JSON codec as a parameter. The tracker is shown to refine a
  map from user identifiers to entries that forgets an entry when its time is over.
\<close>

section \<open>Entries\<close>

text \<open>The time codec: the text between the quotes, and reading the raw JSON text.\<close>

record 't time_lib =
  tm_Marshal :: "'t \<Rightarrow> string result"
  tm_Unmarshal :: "string \<Rightarrow> 't result"
  tm_zero :: 't

definition activeUserTTL :: duration where "activeUserTTL = 30 * Second"
definition activeUsersCollection :: string where "activeUsersCollection = ''active_users''"

record 't ActiveUser =
  au_ID :: ID
  au_Username :: string
  au_LastSeen :: 't

definition ActiveUser_tree :: "uuid_lib \<Rightarrow> 't ActiveUser \<Rightarrow> string \<Rightarrow> json" where
  "ActiveUser_tree L usr lastSeen =
     JObj [(''id'', JStr (ID_String L (au_ID usr))), (''username'', json_string (au_Username usr)),
           (''lastSeen'', JStr lastSeen)]"

definition ActiveUser_marshall :: "uuid_lib \<Rightarrow> 't time_lib \<Rightarrow> 't ActiveUser \<Rightarrow> string result" where
  "ActiveUser_marshall L T usr =
     (case tm_Marshal T (au_LastSeen usr) of
        Inl err \<Rightarrow> Inl err
      | Inr lastSeen \<Rightarrow> Inr (render (ActiveUser_tree L usr lastSeen)))"

definition ActiveUser_fields :: "uuid_lib \<Rightarrow> 't time_lib \<Rightarrow> (string \<times> 't ActiveUser field_setter) list" where
  "ActiveUser_fields L T =
     [(''id'', set_custom (ID_UnmarshalJSON L) (\<lambda>i u. u\<lparr>au_ID := i\<rparr>)),
      (''username'', set_string (\<lambda>s u. u\<lparr>au_Username := s\<rparr>)),
      (''lastSeen'', set_custom (tm_Unmarshal T) (\<lambda>t u. u\<lparr>au_LastSeen := t\<rparr>))]"

definition zero_ActiveUser :: "'t time_lib \<Rightarrow> 't ActiveUser" where
  "zero_ActiveUser T = \<lparr>au_ID = ID 0, au_Username = [], au_LastSeen = tm_zero T\<rparr>"

definition ActiveUser_unmarshall :: "uuid_lib \<Rightarrow> 't time_lib \<Rightarrow> string \<Rightarrow> 't ActiveUser result" where
  "ActiveUser_unmarshall L T data = json_Unmarshal (ActiveUser_fields L T) (zero_ActiveUser T) data"

text \<open>What the codecs document: a time in range is written as characters that JSON leaves alone and
  is read back, and a UUID is written in hexadecimal digits and dashes.\<close>

definition time_laws :: "'t time_lib \<Rightarrow> ('t \<Rightarrow> bool) \<Rightarrow> bool" where
  "time_laws T in_range \<longleftrightarrow>
     (\<forall>t. in_range t \<longrightarrow> (\<exists>b. tm_Marshal T t = Inr b \<and> scans b \<and> tm_Unmarshal T (dquote # b @ [dquote]) = Inr t))"

definition uuid_plain :: "uuid_lib \<Rightarrow> bool" where
  "uuid_plain L \<longleftrightarrow> (\<forall>u. plain_key (uuid_String L u))"

section \<open>The tracker\<close>

definition tracker_HeartBeat ::
  "uuid_lib \<Rightarrow> 't time_lib \<Rightarrow> 's Store \<Rightarrow> Principal option \<Rightarrow> 't \<Rightarrow> 's \<Rightarrow> (go_error option \<times> 's) go" where
  "tracker_HeartBeat L T st ctx now s =
     go_bind (PrincipalFromContext ctx)
       (\<lambda>p. let usr = \<lparr>au_ID = p_ID p, au_Username = p_UserName p, au_LastSeen = now\<rparr> in
          case ActiveUser_marshall L T usr of
            Inl err \<Rightarrow> Ret (Some (Wrapped ''marshaling active user'' err), s)
          | Inr bytes \<Rightarrow>
              (case Store_Set st activeUsersCollection (ID_String L (au_ID usr)) bytes activeUserTTL s of
                 (Some err, s') \<Rightarrow> Ret (Some (Wrapped ''storing active user'' err), s')
               | (None, s') \<Rightarrow> Ret (None, s')))"

definition tracker_ActiveUsers :: "uuid_lib \<Rightarrow> 't time_lib \<Rightarrow> 's Store \<Rightarrow> 's \<Rightarrow> 't ActiveUser list result" where
  "tracker_ActiveUsers L T st s =
     (case Store_List st activeUsersCollection s of
        Inl err \<Rightarrow> Inl (Wrapped ''fetching users'' err)
      | Inr users \<Rightarrow>
          MapE (zero_ActiveUser T) users
            (\<lambda>b. case ActiveUser_unmarshall L T b of
                   Inl err \<Rightarrow> Inl (Wrapped ''unmarshaling active user'' err)
                 | Inr usr \<Rightarrow> Inr usr))"

section \<open>Entries are read back\<close>

lemma ActiveUser_keys: "plain_key ''id''" "plain_key ''username''" "plain_key ''lastSeen''"
  by (simp_all add: plain_key_def)

definition good_user :: "('t \<Rightarrow> bool) \<Rightarrow> 't ActiveUser \<Rightarrow> bool" where
  "good_user in_range u \<longleftrightarrow> valid_utf8 (au_Username u) \<and> in_range (au_LastSeen u)"

lemma ID_raw: "uuid_laws L \<Longrightarrow> ID_UnmarshalJSON L (dquote # ID_String L i @ [dquote]) = Inr i"
  using ID_UnmarshalJSON_MarshalJSON [of L i] by (simp add: ID_MarshalJSON_eq)

lemma ActiveUser_roundtrip:
  assumes "uuid_laws L" and "uuid_plain L" and "time_laws T in_range" and "good_user in_range u"
  shows "\<exists>d. ActiveUser_marshall L T u = Inr d \<and> ActiveUser_unmarshall L T d = Inr u"
proof -
  obtain b where b: "tm_Marshal T (au_LastSeen u) = Inr b" "scans b"
    "tm_Unmarshal T (dquote # b @ [dquote]) = Inr (au_LastSeen u)"
    using assms(3,4) by (auto simp: time_laws_def good_user_def)
  have "scans (ID_String L (au_ID u))"
    using assms(2) plain_key_scans by (simp add: uuid_plain_def ID_String_def)
  then have "wf_json 0 (ActiveUser_tree L u b)"
    using b(2) ActiveUser_keys [THEN plain_key_scans] by (simp add: ActiveUser_tree_def)
  then have "ActiveUser_unmarshall L T (render (ActiveUser_tree L u b)) =
      decode_struct (ActiveUser_fields L T) (zero_ActiveUser T) (ActiveUser_tree L u b)"
    by (simp only: ActiveUser_unmarshall_def json_Unmarshal_render)
  also have "\<dots> = Inr u"
    using ActiveUser_keys [THEN plain_key_unescape] b(3) ID_raw [OF assms(1)] assms(4)
    by (simp add: ActiveUser_tree_def ActiveUser_fields_def zero_ActiveUser_def find_field_def set_custom_def
        good_user_def)
  finally show ?thesis using b(1) by (simp add: ActiveUser_marshall_def)
qed

section \<open>Abstraction\<close>

text \<open>\<open>active \<dots> s u\<close>: the store holds the entry \<open>u\<close>, unexpired, under its user's key.\<close>

definition active ::
  "uuid_lib \<Rightarrow> 't time_lib \<Rightarrow> ('t \<Rightarrow> bool) \<Rightarrow> RedisClient \<Rightarrow> ('r \<Rightarrow> redis_view) \<Rightarrow> 'r \<Rightarrow> 't ActiveUser \<Rightarrow> bool" where
  "active L T in_range c view s u \<longleftrightarrow> good_user in_range u \<and>
     (\<exists>d. ActiveUser_marshall L T u = Inr d \<and>
        redis_item c view s activeUsersCollection (ID_String L (au_ID u)) = Some d)"

definition tracker_inv ::
  "uuid_lib \<Rightarrow> 't time_lib \<Rightarrow> ('t \<Rightarrow> bool) \<Rightarrow> RedisClient \<Rightarrow> ('r \<Rightarrow> redis_view) \<Rightarrow> 'r \<Rightarrow> bool" where
  "tracker_inv L T in_range c view s \<longleftrightarrow>
     (\<forall>k d. redis_item c view s activeUsersCollection k = Some d \<longrightarrow>
        (\<exists>u. k = ID_String L (au_ID u) \<and> good_user in_range u \<and> ActiveUser_marshall L T u = Inr d))"

lemma tracker_lists:
  assumes laws: "uuid_laws L" "uuid_plain L" "time_laws T in_range"
    and "redis_ready R up view s" and "coll_ok c activeUsersCollection" and "tracker_inv L T in_range c view s"
  shows "\<exists>us. tracker_ActiveUsers L T (redis_Store R c) s = Inr us \<and> distinct (map au_ID us) \<and>
    (\<forall>u. u \<in> set us \<longleftrightarrow> active L T in_range c view s u)"
proof -
  let ?item = "\<lambda>k. redis_item c view s activeUsersCollection k"
  obtain ks where ks: "distinct ks" "set ks = {k. ?item k \<noteq> None}"
    "ListCollection R c activeUsersCollection s = Inr (map (\<lambda>k. the (?item k)) ks)"
    using redis_store.list [OF assms(4,5)] by blast
  have "\<forall>k \<in> set ks. \<exists>u. k = ID_String L (au_ID u) \<and> ActiveUser_marshall L T u = Inr (the (?item k)) \<and>
      good_user in_range u \<and> ActiveUser_unmarshall L T (the (?item k)) = Inr u"
  proof
    fix k assume "k \<in> set ks"
    then obtain d where d: "?item k = Some d" using ks(2) by blast
    then obtain u where u: "k = ID_String L (au_ID u)" "good_user in_range u" "ActiveUser_marshall L T u = Inr d"
      using assms(6) by (auto simp: tracker_inv_def)
    then show "\<exists>u. k = ID_String L (au_ID u) \<and> ActiveUser_marshall L T u = Inr (the (?item k)) \<and>
        good_user in_range u \<and> ActiveUser_unmarshall L T (the (?item k)) = Inr u"
      using ActiveUser_roundtrip [OF laws u(2)] d by auto
  qed
  then obtain f where f: "\<And>k. k \<in> set ks \<Longrightarrow> k = ID_String L (au_ID (f k)) \<and>
      ActiveUser_marshall L T (f k) = Inr (the (?item k)) \<and> good_user in_range (f k) \<and> ActiveUser_unmarshall L T (the (?item k)) = Inr (f k)"
    by metis
  have "traverse (\<lambda>b. case ActiveUser_unmarshall L T b of
          Inl err \<Rightarrow> Inl (Wrapped ''unmarshaling active user'' err) | Inr usr \<Rightarrow> Inr usr)
      (map (\<lambda>k. the (?item k)) ks) = Inr (map f ks)"
    by (simp add: traverse_Inr_iff f)
  then have us: "tracker_ActiveUsers L T (redis_Store R c) s = Inr (map f ks)"
    using ks(3) by (simp add: tracker_ActiveUsers_def MapE_eq)
  have "inj_on (\<lambda>k. au_ID (f k)) (set ks)"
    by (rule inj_onI) (metis f)
  then have "distinct (map au_ID (map f ks))" using ks(1) by (simp add: distinct_map comp_def)
  moreover have "u \<in> set (map f ks) \<longleftrightarrow> active L T in_range c view s u" for u
  proof
    assume "u \<in> set (map f ks)"
    then obtain k where "k \<in> set ks" "u = f k" by auto
    then show "active L T in_range c view s u" using f [of k] ks(2) by (auto simp: active_def)
  next
    assume "active L T in_range c view s u"
    then obtain d where d: "good_user in_range u" "ActiveUser_marshall L T u = Inr d"
      "?item (ID_String L (au_ID u)) = Some d"
      by (auto simp: active_def)
    then have k: "ID_String L (au_ID u) \<in> set ks" using ks(2) by simp
    have "ActiveUser_unmarshall L T d = Inr u"
      using ActiveUser_roundtrip [OF laws d(1)] d(2) by auto
    then have "u = f (ID_String L (au_ID u))" using f [OF k] d(3) by simp
    then show "u \<in> set (map f ks)" using k by auto
  qed
  ultimately show ?thesis using us by blast
qed


lemma activeUserTTL_pos [simp]: "0 < activeUserTTL"
  by (simp add: activeUserTTL_def Second_def)

text \<open>What a heartbeat of \<open>u\<close> does to the collection.\<close>

lemma heartbeat_effect:
  assumes laws: "uuid_laws L" "uuid_plain L" "time_laws T in_range"
    and "redis_ready R up view s" and "coll_ok c activeUsersCollection" and "tracker_inv L T in_range c view s"
    and u: "u = \<lparr>au_ID = p_ID p, au_Username = p_UserName p, au_LastSeen = now\<rparr>" "good_user in_range u"
  shows "\<exists>s'. tracker_HeartBeat L T (redis_Store R c) (Some p) now s = Ret (None, s') \<and>
    redis_ready R up view s' \<and> tracker_inv L T in_range c view s' \<and>
    (\<forall>v. active L T in_range c view s' v \<longleftrightarrow>
       (if au_ID v = p_ID p then v = u else active L T in_range c view s v)) \<and>
    (\<exists>d. redis_item c view s' activeUsersCollection (ID_String L (p_ID p)) = Some d \<and>
       rv_entries (view s') (collectionKey c activeUsersCollection (ID_String L (p_ID p))) =
         Some (d, rv_now (view s') + activeUserTTL))"
proof -
  obtain d where d: "ActiveUser_marshall L T u = Inr d" "ActiveUser_unmarshall L T d = Inr u"
    using ActiveUser_roundtrip [OF laws u(2)] by blast
  let ?k = "ID_String L (p_ID p)"
  let ?s = "snd (SetCollectionItemWithTTL R c activeUsersCollection ?k d activeUserTTL s)"
  have set: "fst (SetCollectionItemWithTTL R c activeUsersCollection ?k d activeUserTTL s) = None"
    using redis_store.set_ok [OF assms(4) activeUserTTL_pos] .
  have ready: "redis_ready R up view ?s"
    using redis_store.set_ready [OF assms(4) activeUserTTL_pos] .
  have item: "redis_item c view ?s activeUsersCollection k =
      (if k = ?k then Some d else redis_item c view s activeUsersCollection k)" for k
    using redis_store.set_item [OF assms(4) activeUserTTL_pos assms(5,5)] by simp
  have beat: "tracker_HeartBeat L T (redis_Store R c) (Some p) now s = Ret (None, ?s)"
    using d(1) set u(1)
    by (simp add: tracker_HeartBeat_def PrincipalFromContext_def Let_def split: prod.split option.split)
      (metis fst_conv option.distinct(1))
  have inv: "tracker_inv L T in_range c view ?s"
    unfolding tracker_inv_def item
  proof (intro allI impI)
    fix k d' assume "(if k = ?k then Some d else redis_item c view s activeUsersCollection k) = Some d'"
    moreover have "?k = ID_String L (au_ID u)" using u(1) by simp
    ultimately show "\<exists>u. k = ID_String L (au_ID u) \<and> good_user in_range u \<and> ActiveUser_marshall L T u = Inr d'"
      using assms(6) d(1) u(2) unfolding tracker_inv_def by (metis option.inject)
  qed
  have act: "active L T in_range c view ?s v \<longleftrightarrow>
      (if au_ID v = p_ID p then v = u else active L T in_range c view s v)" for v
  proof (cases "au_ID v = p_ID p")
    case True
    have "v = u" if v: "good_user in_range v" "ActiveUser_marshall L T v = Inr d"
      using ActiveUser_roundtrip [OF laws v(1)] v(2) d(2) by auto
    with True u d(1) show ?thesis by (auto simp: active_def item)
  next
    case False
    then have "ID_String L (au_ID v) \<noteq> ?k" using ID_String_inj [OF laws(1)] by simp
    with False show ?thesis by (simp add: active_def item)
  qed
  have "rv_entries (view ?s) (collectionKey c activeUsersCollection ?k) = Some (d, rv_now (view ?s) + activeUserTTL)"
    using redis_lawsD(5) [of R up view s activeUserTTL] assms(4)
    by (simp add: SetCollectionItemWithTTL_def redis_ready_def)
  with item [of ?k] beat ready inv act show ?thesis by auto
qed

section \<open>A concrete codec\<close>

definition ref_time :: "nat time_lib" where
  "ref_time = \<lparr>tm_Marshal = (\<lambda>t. Inr (replicate t (CHR ''0''))), tm_Unmarshal = (\<lambda>raw. Inr (length raw - 2)), tm_zero = 0\<rparr>"

lemma ref_time_laws: "time_laws ref_time (\<lambda>t. True)"
proof -
  have "plain_key (replicate t (CHR ''0''))" for t by (induction t) (simp_all add: plain_key_def)
  then show ?thesis using plain_key_scans by (simp add: time_laws_def ref_time_def)
qed

lemma hex_char_plain: "d < 16 \<Longrightarrow> plain_key [hex_char d]"
proof -
  assume "d < 16"
  moreover have "\<forall>d \<in> set [0..<16]. plain_key [hex_char d]" by code_simp
  ultimately show ?thesis by simp
qed

lemma plain_key_append: "plain_key (a @ b) \<longleftrightarrow> plain_key a \<and> plain_key b"
  "plain_key (CHR ''-'' # a) \<longleftrightarrow> plain_key a"
  by (simp_all add: plain_key_def)

lemma plain_key_take: "plain_key a \<Longrightarrow> plain_key (take n a)"
  unfolding plain_key_def list_all_iff using in_set_takeD by fast

lemma plain_key_drop: "plain_key a \<Longrightarrow> plain_key (drop n a)"
  unfolding plain_key_def list_all_iff using in_set_dropD by fast

lemma ref_uuid_plain: "uuid_plain ref_uuid"
proof -
  have "plain_key (map hex_char ds)" if "\<forall>d \<in> set ds. d < 16" for ds
    using that hex_char_plain by (induction ds) (auto simp: plain_key_def)
  then have "plain_key (map hex_char (hex_digits 32 (unat u)))" for u :: uuid
    using hex_digits_less by blast
  then show ?thesis
    by (simp add: uuid_plain_def ref_uuid_def ref_uuid_String_def dashed_def plain_key_append
        plain_key_take plain_key_drop)
qed

section \<open>Properties\<close>

text \<open>C34: The tracker is a set of active users with at most one entry each: listing returns exactly the
  unexpired entries; a heartbeat replaces the entry of the authenticated user by one with the present
  time, leaves all others as they are and keeps the collection readable; left alone, that entry is
  listed for thirty seconds and not after.\<close>

theorem active_users_refine_set:
  assumes "uuid_laws L" and "uuid_plain L" and "time_laws T in_range"
    and "redis_ready R up view s" and "coll_ok c activeUsersCollection" and "tracker_inv L T in_range c view s"
    and "valid_utf8 (p_UserName p)" and "in_range now" and "clock_laws up view pass" and "0 \<le> t"
  shows "\<exists>us s'. tracker_ActiveUsers L T (redis_Store R c) s = Inr us \<and> distinct (map au_ID us) \<and>
    (\<forall>u. u \<in> set us \<longleftrightarrow> active L T in_range c view s u) \<and>
    tracker_HeartBeat L T (redis_Store R c) (Some p) now s = Ret (None, s') \<and>
    tracker_inv L T in_range c view s' \<and>
    (\<forall>u. active L T in_range c view s' u \<longleftrightarrow>
       (if au_ID u = p_ID p then u = \<lparr>au_ID = p_ID p, au_Username = p_UserName p, au_LastSeen = now\<rparr>
        else active L T in_range c view s u)) \<and>
    ((\<exists>u. active L T in_range c view (pass t s') u \<and> au_ID u = p_ID p) \<longleftrightarrow> t < activeUserTTL)"
proof -
  let ?u = "\<lparr>au_ID = p_ID p, au_Username = p_UserName p, au_LastSeen = now\<rparr>"
  have good: "good_user in_range ?u" using assms(7,8) by (simp add: good_user_def)
  obtain us where us: "tracker_ActiveUsers L T (redis_Store R c) s = Inr us" "distinct (map au_ID us)"
    "\<forall>u. u \<in> set us \<longleftrightarrow> active L T in_range c view s u"
    using tracker_lists [OF assms(1-6)] by blast
  obtain s' d where s': "tracker_HeartBeat L T (redis_Store R c) (Some p) now s = Ret (None, s')"
    "redis_ready R up view s'" "tracker_inv L T in_range c view s'"
    "\<forall>v. active L T in_range c view s' v \<longleftrightarrow> (if au_ID v = p_ID p then v = ?u else active L T in_range c view s v)"
    "redis_item c view s' activeUsersCollection (ID_String L (p_ID p)) = Some d"
    "rv_entries (view s') (collectionKey c activeUsersCollection (ID_String L (p_ID p))) =
       Some (d, rv_now (view s') + activeUserTTL)"
    using heartbeat_effect [OF assms(1-6) refl good] by blast
  have "view (pass t s') = (view s')\<lparr>rv_now := rv_now (view s') + t\<rparr>"
    using assms(9,10) s'(2) by (simp add: clock_laws_def redis_ready_def)
  then have later: "redis_item c view (pass t s') activeUsersCollection (ID_String L (p_ID p)) =
      (if t < activeUserTTL then Some d else None)"
    using s'(6) by (simp add: redis_item_def live_def)
  have "active L T in_range c view s' ?u" using s'(4) by simp
  then have "ActiveUser_marshall L T ?u = Inr d" using s'(5) by (auto simp: active_def)
  then have expiry: "(\<exists>u. active L T in_range c view (pass t s') u \<and> au_ID u = p_ID p) \<longleftrightarrow> t < activeUserTTL"
    using later good by (auto simp: active_def intro: exI [of _ ?u] split: if_splits)
  show ?thesis using us s'(1,3,4) expiry by blast
qed

theorem active_users_refine_set_witness:
  "\<exists>s'. tracker_HeartBeat ref_uuid ref_time (redis_Store ref_redis (NewRedisClient []))
      (Some \<lparr>p_ID = ID 7, p_UserName = ''bob''\<rparr>) 3 ([], 0) = Ret (None, s') \<and>
    active ref_uuid ref_time (\<lambda>t. True) (NewRedisClient []) ref_view s'
      \<lparr>au_ID = ID 7, au_Username = ''bob'', au_LastSeen = 3\<rparr>"
proof -
  let ?c = "NewRedisClient []" and ?p = "\<lparr>p_ID = ID 7, p_UserName = ''bob''\<rparr>"
  have ready: "redis_ready ref_redis ref_up ref_view ([], 0)"
    using ref_redis_laws by (simp add: redis_ready_def ref_up_def)
  have coll: "coll_ok ?c activeUsersCollection" by code_simp
  have inv: "tracker_inv ref_uuid ref_time (\<lambda>t. True) ?c ref_view ([], 0)"
    by (simp add: tracker_inv_def redis_item_def live_def ref_view_def)
  have utf8: "valid_utf8 (p_UserName ?p)" by (auto intro!: valid_utf8_ascii)
  obtain s' where "tracker_HeartBeat ref_uuid ref_time (redis_Store ref_redis ?c) (Some ?p) 3 ([], 0) = Ret (None, s')"
    "\<forall>u. active ref_uuid ref_time (\<lambda>t. True) ?c ref_view s' u \<longleftrightarrow>
       (if au_ID u = p_ID ?p then u = \<lparr>au_ID = p_ID ?p, au_Username = p_UserName ?p, au_LastSeen = 3\<rparr>
        else active ref_uuid ref_time (\<lambda>t. True) ?c ref_view ([], 0) u)"
    using active_users_refine_set [OF ref_uuid_laws ref_uuid_plain ref_time_laws ready coll inv utf8 TrueI
        ref_clock_laws order_refl, of 3] by blast
  then show ?thesis by auto
qed

end
