(* ===== verification/EventServer.thy ===== *)
theory EventServer
  imports Auth Rtconn
begin

text \<open>
  The event server: \<open>eventserver/services/event_server.go\<close> (the connected users and the shutdown),
  \<open>eventserver/grpc/grpc_server.go\<close> (the stream over which a user connects) and
  \<open>eventserver/http/routes.go\<close> (the endpoint that delivers a message). A call of \<open>ServeConnection\<close>
  blocks until its channel is closed, and the shutdown runs one goroutine per connection; so the
  server is a step relation whose state holds the calls and the goroutines with their positions.
\<close>

section \<open>Events and connections\<close>

record Event =
  evt_SenderID :: ID
  evt_RecipientID :: ID
  evt_Content :: string
  evt_SentAt :: int

text \<open>The protobuf message of the stream; \<open>stream_Send\<close> is the generated method of the stream.\<close>

record DirectMessage =
  dm_SenderId :: string
  dm_Message :: string

definition NewDirectMessageEvent :: "uuid_lib \<Rightarrow> ID \<Rightarrow> string \<Rightarrow> DirectMessage" where
  "NewDirectMessageEvent L senderID msg = \<lparr>dm_SenderId = ID_String L senderID, dm_Message = msg\<rparr>"

type_synonym ('conn, 's) stream_Send = "'conn \<Rightarrow> DirectMessage \<Rightarrow> 's \<Rightarrow> go_error option \<times> 's"

definition grpcConnection_SendEvent ::
  "uuid_lib \<Rightarrow> ('conn, 's) stream_Send \<Rightarrow> 'conn \<Rightarrow> Event \<Rightarrow> 's \<Rightarrow> go_error option \<times> 's" where
  "grpcConnection_SendEvent L send g msg s =
     send g \<lparr>dm_SenderId = ID_String L (evt_SenderID msg), dm_Message = evt_Content msg\<rparr> s"

section \<open>The state\<close>

record 'conn privConn =
  pc_conn :: 'conn
  pc_waitCh :: chan

text \<open>A call of \<open>ServeConnection\<close> that has registered: before its launch of the heartbeat, waiting for its
  channel, or returned.\<close>

datatype serve_pc = AtLaunch | AtReceive | ServeReturned "go_error option"

record serve_call =
  sc_user :: ID
  sc_waitCh :: chan
  sc_pc :: serve_pc

text \<open>A goroutine of the shutdown: before its send into \<open>errCh\<close>, before its close of the connection's
  channel, or done.\<close>

datatype notifier_pc = NtSend | NtClose | NtDone

record notifier =
  nt_waitCh :: chan
  nt_pc :: notifier_pc

text \<open>The shutdown: not called yet; collecting (how many answers it expects, how many it has, how many
  lie in the buffer of \<open>errCh\<close>), during which it holds the mutex; or returned, with the capacity of \<open>errCh\<close> and
  the answers in it, which nobody takes any more.\<close>

datatype shutdown_pc = NotShuttingDown | Collecting nat nat nat | ShutdownReturned "go_error option" nat nat

record 'conn eventServer =
  connections :: "ID \<rightharpoonup> 'conn privConn"
  es_heartBeater :: heartBeater
  es_closed :: "chan set"
  es_next :: chan
  es_calls :: "serve_call list"
  es_notifiers :: "notifier list"
  es_shutdown :: shutdown_pc

definition NewEventServer :: "heartBeater \<Rightarrow> 'conn eventServer" where
  "NewEventServer hb =
     \<lparr>connections = Map.empty, es_heartBeater = hb, es_closed = {}, es_next = 0, es_calls = [],
      es_notifiers = [], es_shutdown = NotShuttingDown\<rparr>"

section \<open>event_server.go\<close>

text \<open>\<open>ServeConnection\<close> up to the unlock, and its launch of the heartbeat.\<close>

definition serve_register :: "ID \<Rightarrow> 'conn \<Rightarrow> 'conn eventServer \<Rightarrow> 'conn eventServer" where
  "serve_register userID conn es =
     (let ch = es_next es in
      es\<lparr>connections := (connections es)(userID \<mapsto> \<lparr>pc_conn = conn, pc_waitCh = ch\<rparr>), es_next := Suc ch,
         es_calls := es_calls es @ [\<lparr>sc_user = userID, sc_waitCh = ch, sc_pc = AtLaunch\<rparr>]\<rparr>)"

definition set_call :: "nat \<Rightarrow> serve_pc \<Rightarrow> 'conn eventServer \<Rightarrow> 'conn eventServer" where
  "set_call i pc es = es\<lparr>es_calls := (es_calls es)[i := (es_calls es ! i)\<lparr>sc_pc := pc\<rparr>]\<rparr>"

definition serve_launch :: "uuid_lib \<Rightarrow> nat \<Rightarrow> 'conn eventServer \<Rightarrow> 'conn eventServer" where
  "serve_launch L i es =
     (case LaunchForUser L (sc_user (es_calls es ! i)) (es_heartBeater es) of
        (Some err, hb) \<Rightarrow>
          set_call i (ServeReturned (Some (Opaque ''failed to launch heart beater''))) (es\<lparr>es_heartBeater := hb\<rparr>)
      | (None, hb) \<Rightarrow> set_call i AtReceive (es\<lparr>es_heartBeater := hb\<rparr>))"

text \<open>\<open>deliver\<close> is the \<open>SendEvent\<close> method of a connection.\<close>

definition es_SendEvent ::
  "uuid_lib \<Rightarrow> ('conn \<Rightarrow> Event \<Rightarrow> 's \<Rightarrow> go_error option \<times> 's) \<Rightarrow> 'conn eventServer \<Rightarrow> Event \<Rightarrow> 's \<Rightarrow>
    go_error option \<times> 's" where
  "es_SendEvent L deliver es msg s =
     (case connections es (evt_RecipientID msg) of
        None \<Rightarrow> (Some (Opaque (''user '' @ ID_String L (evt_RecipientID msg) @ '' is not connected'')), s)
      | Some conn \<Rightarrow> deliver (pc_conn conn) msg s)"

text \<open>\<open>InitiateShutdown\<close>: one goroutine for each connection, in the order of the range.\<close>

definition shutdown_begin :: "ID list \<Rightarrow> 'conn eventServer \<Rightarrow> 'conn eventServer" where
  "shutdown_begin order es =
     es\<lparr>es_notifiers := map (\<lambda>u. \<lparr>nt_waitCh = pc_waitCh (the (connections es u)), nt_pc = NtSend\<rparr>) order,
        es_shutdown := Collecting (length order) 0 0\<rparr>"

definition set_notifier :: "nat \<Rightarrow> notifier_pc \<Rightarrow> 'conn eventServer \<Rightarrow> 'conn eventServer" where
  "set_notifier j pc es =
     es\<lparr>es_notifiers := (es_notifiers es)[j := (es_notifiers es ! j)\<lparr>nt_pc := pc\<rparr>]\<rparr>"

definition errCh_send :: "shutdown_pc \<Rightarrow> shutdown_pc" where
  "errCh_send pc = (case pc of
       NotShuttingDown \<Rightarrow> pc
     | Collecting n got buf \<Rightarrow> Collecting n got (Suc buf)
     | ShutdownReturned err n buf \<Rightarrow> ShutdownReturned err n (Suc buf))"

text \<open>The capacity of \<open>errCh\<close> is the number of connections; before the shutdown there is no such channel.\<close>

definition errCh_has_room :: "shutdown_pc \<Rightarrow> bool" where
  "errCh_has_room pc = (case pc of NotShuttingDown \<Rightarrow> False | Collecting n got buf \<Rightarrow> buf < n | ShutdownReturned err n buf \<Rightarrow> buf < n)"

definition notifier_close :: "nat \<Rightarrow> 'conn eventServer \<Rightarrow> 'conn eventServer go" where
  "notifier_close j es =
     go_bind (close_chan (nt_waitCh (es_notifiers es ! j)) (es_closed es))
       (\<lambda>cl. Ret (set_notifier j NtDone (es\<lparr>es_closed := cl\<rparr>)))"

definition holds_lock :: "'conn eventServer \<Rightarrow> bool" where
  "holds_lock es = (case es_shutdown es of Collecting _ _ _ \<Rightarrow> True | _ \<Rightarrow> False)"

definition at_call :: "nat \<Rightarrow> serve_pc \<Rightarrow> 'conn eventServer \<Rightarrow> bool" where
  "at_call i pc es \<longleftrightarrow> i < length (es_calls es) \<and> sc_pc (es_calls es ! i) = pc"

definition at_notifier :: "nat \<Rightarrow> notifier_pc \<Rightarrow> 'conn eventServer \<Rightarrow> bool" where
  "at_notifier j pc es \<longleftrightarrow> j < length (es_notifiers es) \<and> nt_pc (es_notifiers es ! j) = pc"

text \<open>
  The steps. The shutdown is called once, as the program does. \<open>es_background\<close> is whatever the
  goroutines of the heart beater do, which never register or remove a user.
\<close>

inductive es_step :: "uuid_lib \<Rightarrow> 'conn eventServer \<Rightarrow> 'conn eventServer go \<Rightarrow> bool" for L where
  es_register: "\<not> holds_lock es \<Longrightarrow> es_step L es (Ret (serve_register userID conn es))"
| es_launch: "at_call i AtLaunch es \<Longrightarrow> es_step L es (Ret (serve_launch L i es))"
| es_release: "at_call i AtReceive es \<Longrightarrow> sc_waitCh (es_calls es ! i) \<in> es_closed es \<Longrightarrow>
    es_step L es (Ret (set_call i (ServeReturned None) es))"
| es_begin: "es_shutdown es = NotShuttingDown \<Longrightarrow> range_order (connections es) order \<Longrightarrow>
    es_step L es (Ret (shutdown_begin order es))"
| es_answer: "at_notifier j NtSend es \<Longrightarrow> errCh_has_room (es_shutdown es) \<Longrightarrow>
    es_step L es (Ret (set_notifier j NtClose (es\<lparr>es_shutdown := errCh_send (es_shutdown es)\<rparr>)))"
| es_close: "at_notifier j NtClose es \<Longrightarrow> es_step L es (notifier_close j es)"
| es_collect: "es_shutdown es = Collecting n got (Suc buf) \<Longrightarrow> got < n \<Longrightarrow>
    es_step L es (Ret (es\<lparr>es_shutdown := Collecting n (Suc got) buf\<rparr>))"
| es_collected: "es_shutdown es = Collecting n n buf \<Longrightarrow>
    es_step L es (Ret (es\<lparr>es_shutdown := ShutdownReturned None n buf\<rparr>))"
| es_ctx_done: "es_shutdown es = Collecting n got buf \<Longrightarrow> got < n \<Longrightarrow>
    es_step L es (Ret (es\<lparr>es_shutdown := ShutdownReturned (Some (Opaque ''context deadline exceeded'')) n buf\<rparr>))"
| es_background: "hearts hb = hearts (es_heartBeater es) \<Longrightarrow> es_step L es (Ret (es\<lparr>es_heartBeater := hb\<rparr>))"

inductive es_steps :: "uuid_lib \<Rightarrow> 'conn eventServer \<Rightarrow> 'conn eventServer \<Rightarrow> bool" for L es where
  es_refl: "es_steps L es es"
| es_trans: "es_steps L es es1 \<Longrightarrow> es_step L es1 (Ret es2) \<Longrightarrow> es_steps L es es2"

definition es_reachable :: "uuid_lib \<Rightarrow> 'conn eventServer \<Rightarrow> bool" where
  "es_reachable L es \<longleftrightarrow> (\<exists>hb. es_steps L (NewEventServer hb) es)"

inductive_cases es_stepE: "es_step L es y"

section \<open>grpc_server.go\<close>

text \<open>\<open>Connect\<close> up to the point where \<open>ServeConnection\<close> has registered the stream; from there on it is one
  of the calls of the step relation.\<close>

definition grpc_Connect :: "uuid_lib \<Rightarrow> string \<Rightarrow> 'conn \<Rightarrow> 'conn eventServer \<Rightarrow> 'conn eventServer go" where
  "grpc_Connect L reqUserId stream es =
     go_bind (FromString L reqUserId) (\<lambda>uid. Ret (serve_register uid stream es))"

text \<open>\<open>Configure\<close>: the metrics are registered, which panics when they are already, and every stream passes the
  interceptor of the metrics and then that of the authentication before \<open>Connect\<close>.\<close>

definition grpc_chain :: "('req, 's) interceptor list \<Rightarrow> ('req, 's) interceptor" where
  "grpc_chain ics handler md = foldr (\<lambda>ic h. ic h md) ics handler"

definition grpc_Configure ::
  "uuid_lib \<Rightarrow> (unit \<Rightarrow> unit go) \<Rightarrow> (string, 'conn eventServer) interceptor \<Rightarrow> (string, 'conn eventServer) interceptor \<Rightarrow>
    ('conn \<Rightarrow> grpc_metadata \<Rightarrow> (string, 'conn eventServer) stream_handler) go" where
  "grpc_Configure L mustRegister metrics streamAuth =
     go_bind (mustRegister ()) (\<lambda>_. Ret (\<lambda>stream md.
       grpc_chain [metrics, streamAuth] (\<lambda>req x. go_bind (grpc_Connect L req stream x) (\<lambda>x'. Ret (None, x'))) md))"

lemma grpc_chain_two: "grpc_chain [a, b] handler md = a (b handler md) md"
  by (simp add: grpc_chain_def)

section \<open>routes.go: POST /send-message\<close>

record SendMessageRequest =
  smr_RecipientID :: ID
  smr_Content :: string

definition SendMessageRequest_fields :: "uuid_lib \<Rightarrow> (string \<times> SendMessageRequest field_setter) list" where
  "SendMessageRequest_fields L =
     [(''recipientID'', set_custom (ID_UnmarshalJSON L) (\<lambda>i m. m\<lparr>smr_RecipientID := i\<rparr>)),
      (''content'', set_string (\<lambda>s m. m\<lparr>smr_Content := s\<rparr>))]"

definition zero_SendMessageRequest :: SendMessageRequest where
  "zero_SendMessageRequest = \<lparr>smr_RecipientID = ID 0, smr_Content = []\<rparr>"

text \<open>\<open>SendEvent\<close> of the server is a parameter here, over the state \<open>'s\<close>; \<open>clock\<close> is \<open>time.Now\<close>.\<close>

definition send_message_handler ::
  "uuid_lib \<Rightarrow> ('s \<Rightarrow> int) \<Rightarrow> (Event \<Rightarrow> 's \<Rightarrow> go_error option \<times> 's) \<Rightarrow> (Principal option, 's) json_func" where
  "send_message_handler L clock sendEvent r st =
     (case st of (w, s) \<Rightarrow>
        case json_Decode (SendMessageRequest_fields L) zero_SendMessageRequest (rq_body r) of
          Inl err \<Rightarrow> Ret (Inl err, w, s)
        | Inr msg \<Rightarrow>
            go_bind (PrincipalFromContext (rq_ctx r))
              (\<lambda>p. case sendEvent \<lparr>evt_SenderID = p_ID p, evt_RecipientID = smr_RecipientID msg,
                            evt_Content = smr_Content msg, evt_SentAt = clock s\<rparr> s of
                     (Some err, s') \<Rightarrow> Ret (Inl (Wrapped ''sending message'' err), w, s')
                   | (None, s') \<Rightarrow> Ret (Inr DefaultOKResponse, w, s')))"

text \<open>The routes of the server. The metrics endpoint and the metrics middleware are third-party.\<close>

definition es_health :: "('c, 's) json_func" where
  "es_health r st = (case st of (w, s) \<Rightarrow> Ret (Inr DefaultOKResponse, w, s))"

definition es_Configure ::
  "uuid_lib \<Rightarrow> ('s \<Rightarrow> int) \<Rightarrow> (Event \<Rightarrow> 's \<Rightarrow> go_error option \<times> 's) \<Rightarrow> (log_entry \<Rightarrow> 's \<Rightarrow> 's) \<Rightarrow>
    (Principal option, 's) middleware \<Rightarrow> (Principal option, 's) middleware \<Rightarrow>
    (Principal option, 's) handler \<Rightarrow> (Principal option, 's) route list go" where
  "es_Configure L clock sendEvent record_log metricsMiddleware authMiddleware metricsHandler =
     (let (rawRouter, mux1) = HandleFunc ''/metrics'' [MethodGet] metricsHandler NewRouterBuilder [] in
      go_bind (With [metricsMiddleware, RequestLogger record_log] (SubGroup rawRouter)) (\<lambda>instrumented.
      let (instrumented1, mux2) = HandleJSONFunc ''/health'' [MethodGet] es_health instrumented mux1 in
      go_bind (With [authMiddleware] (SubGroup instrumented1)) (\<lambda>authenticated.
      let (_, mux3) = HandleJSONFunc ''/send-message'' [MethodPost] (send_message_handler L clock sendEvent)
                        authenticated mux2 in
      Ret mux3)))"


section \<open>Invariants\<close>

text \<open>
  The calls: channels are numbered by the calls; a registered connection is the channel of a call of
  that user; a call that got past its launch belongs to a user with a heartbeat, and no other call
  of that user did.
\<close>

definition served :: "serve_call \<Rightarrow> bool" where
  "served c \<longleftrightarrow> sc_pc c = AtReceive \<or> sc_pc c = ServeReturned None"

definition calls_inv :: "'conn eventServer \<Rightarrow> bool" where
  "calls_inv es \<longleftrightarrow> es_next es = length (es_calls es) \<and>
     (\<forall>i < length (es_calls es). sc_waitCh (es_calls es ! i) = i) \<and>
     (\<forall>u pc. connections es u = Some pc \<longrightarrow>
        pc_waitCh pc < length (es_calls es) \<and> sc_user (es_calls es ! pc_waitCh pc) = u) \<and>
     (\<forall>i < length (es_calls es). served (es_calls es ! i) \<longrightarrow>
        hearts (es_heartBeater es) (sc_user (es_calls es ! i)) \<noteq> None) \<and>
     (\<forall>i < length (es_calls es). \<forall>j < length (es_calls es). served (es_calls es ! i) \<longrightarrow> served (es_calls es ! j) \<longrightarrow>
        sc_user (es_calls es ! i) = sc_user (es_calls es ! j) \<longrightarrow> i = j)"

text \<open>
  The shutdown: its goroutines have different channels, the closed channels are those of the
  finished ones, and every answer expected is either still to be sent, in the buffer or taken.
\<close>

definition pending_answers :: "notifier list \<Rightarrow> nat" where
  "pending_answers ns = length (filter (\<lambda>x. nt_pc x = NtSend) ns)"

definition shutdown_inv :: "'conn eventServer \<Rightarrow> bool" where
  "shutdown_inv es \<longleftrightarrow>
     distinct (map nt_waitCh (es_notifiers es)) \<and>
     es_closed es = nt_waitCh ` {x \<in> set (es_notifiers es). nt_pc x = NtDone} \<and>
     (\<forall>x \<in> set (es_notifiers es). nt_waitCh x < length (es_calls es)) \<and>
     (es_shutdown es = NotShuttingDown \<longrightarrow> es_notifiers es = []) \<and>
     (\<forall>n got buf. es_shutdown es = Collecting n got buf \<longrightarrow>
        n = length (es_notifiers es) \<and> pending_answers (es_notifiers es) + got + buf = n) \<and>
     (\<forall>err n buf. es_shutdown es = ShutdownReturned err n buf \<longrightarrow>
        n = length (es_notifiers es) \<and> pending_answers (es_notifiers es) + buf \<le> n)"

lemma calls_inv_new: "calls_inv (NewEventServer hb)"
  by (simp add: calls_inv_def NewEventServer_def)

lemma shutdown_inv_new: "shutdown_inv (NewEventServer hb)"
  by (simp add: shutdown_inv_def NewEventServer_def)

lemma calls_inv_register: "calls_inv es \<Longrightarrow> calls_inv (serve_register userID conn es)"
  by (auto simp: calls_inv_def serve_register_def Let_def served_def nth_append less_Suc_eq)

lemma calls_inv_set_call:
  assumes "calls_inv es" and "i < length (es_calls es)"
    and "pc = AtReceive \<or> pc = ServeReturned None \<Longrightarrow> served (es_calls es ! i)"
  shows "calls_inv (set_call i pc es)"
  using assms unfolding calls_inv_def set_call_def
  by (auto simp: nth_list_update served_def split: if_splits)

lemma served_cong: "sc_pc c = sc_pc c' \<Longrightarrow> served c = served c'"
  by (simp add: served_def)

lemma set_call_nth:
  assumes "i < length (es_calls es)" and "j < length (es_calls es)"
  shows "sc_user (es_calls (set_call i pc es) ! j) = sc_user (es_calls es ! j)"
    and "sc_waitCh (es_calls (set_call i pc es) ! j) = sc_waitCh (es_calls es ! j)"
    and "sc_pc (es_calls (set_call i pc es) ! j) = (if j = i then pc else sc_pc (es_calls es ! j))"
  using assms by (simp_all add: set_call_def nth_list_update)

lemma set_call_frame [frame_simps]:
  "length (es_calls (set_call i pc es)) = length (es_calls es)" "connections (set_call i pc es) = connections es"
  "es_next (set_call i pc es) = es_next es" "es_heartBeater (set_call i pc es) = es_heartBeater es"
  "es_closed (set_call i pc es) = es_closed es" "es_notifiers (set_call i pc es) = es_notifiers es"
  "es_shutdown (set_call i pc es) = es_shutdown es"
  by (simp_all add: set_call_def)

lemma calls_inv_serve:
  assumes inv: "calls_inv es" and i: "i < length (es_calls es)"
    and user: "hearts (es_heartBeater es) (sc_user (es_calls es ! i)) \<noteq> None"
    and none: "\<And>j. j < length (es_calls es) \<Longrightarrow> sc_user (es_calls es ! j) = sc_user (es_calls es ! i) \<Longrightarrow>
      \<not> served (es_calls es ! j)"
  shows "calls_inv (set_call i AtReceive es)"
proof -
  let ?es = "set_call i AtReceive es"
  have served: "served (es_calls ?es ! j) \<longleftrightarrow> j = i \<or> served (es_calls es ! j)" if "j < length (es_calls es)" for j
    using set_call_nth(3) [OF i that] by (simp add: served_def)
  note nth = set_call_nth(1,2) [OF i]
  show ?thesis
    unfolding calls_inv_def frame_simps
  proof (intro conjI allI impI)
    fix j k
    assume jk: "j < length (es_calls es)" "k < length (es_calls es)" "served (es_calls ?es ! j)"
      "served (es_calls ?es ! k)" "sc_user (es_calls ?es ! j) = sc_user (es_calls ?es ! k)"
    then have "sc_user (es_calls es ! j) = sc_user (es_calls es ! k)" using nth by simp
    with jk none [of j] none [of k] inv served show "j = k" unfolding calls_inv_def by metis
  qed (use inv nth served user in \<open>auto simp: calls_inv_def\<close>)
qed

text \<open>A launch that succeeds was for a user without a heartbeat, so no other call of the user is served.\<close>

lemma calls_inv_launch:
  assumes "calls_inv es" and "at_call i AtLaunch es"
  shows "calls_inv (serve_launch L i es)"
proof -
  let ?u = "sc_user (es_calls es ! i)"
  have i: "i < length (es_calls es)" "\<not> served (es_calls es ! i)"
    using assms(2) by (simp_all add: at_call_def served_def)
  show ?thesis
  proof (cases "hearts (es_heartBeater es) ?u = None")
    case False
    then have "serve_launch L i es =
        set_call i (ServeReturned (Some (Opaque ''failed to launch heart beater''))) es"
      by (simp add: serve_launch_def LaunchForUser_active)
    then show ?thesis
      using calls_inv_set_call [OF assms(1) i(1), of "ServeReturned (Some (Opaque ''failed to launch heart beater''))"]
      by simp
  next
    case True
    then obtain hb where hb: "LaunchForUser L ?u (es_heartBeater es) = (None, hb)"
      "hearts hb = (hearts (es_heartBeater es))(?u \<mapsto> hb_next (es_heartBeater es))"
      by (simp add: LaunchForUser_new)
    let ?es = "es\<lparr>es_heartBeater := hb\<rparr>"
    have "\<not> served (es_calls es ! j)" if "j < length (es_calls es)" "sc_user (es_calls es ! j) = ?u" for j
      using assms(1) that True unfolding calls_inv_def by metis
    moreover have "calls_inv ?es" using assms(1) hb(2) by (auto simp: calls_inv_def)
    ultimately have "calls_inv (set_call i AtReceive ?es)"
      using calls_inv_serve [of ?es i] i(1) hb(2) by simp
    then show ?thesis by (simp add: serve_launch_def hb(1))
  qed
qed

lemma set_notifier_waitChs [frame_simps]:
  "map nt_waitCh (es_notifiers (set_notifier j pc es)) = map nt_waitCh (es_notifiers es)"
  by (cases "j < length (es_notifiers es)")
    (simp_all add: set_notifier_def map_update list_update_same_conv list_update_beyond)

lemma set_notifier_frame [frame_simps]:
  "es_calls (set_notifier j pc es) = es_calls es" "es_closed (set_notifier j pc es) = es_closed es"
  "es_shutdown (set_notifier j pc es) = es_shutdown es" "connections (set_notifier j pc es) = connections es"
  "length (es_notifiers (set_notifier j pc es)) = length (es_notifiers es)" "es_next (set_notifier j pc es) = es_next es"
  "es_heartBeater (set_notifier j pc es) = es_heartBeater es"
  by (simp_all add: set_notifier_def)

lemma notifier_close_Ret:
  "notifier_close j es = Ret es' \<longleftrightarrow> nt_waitCh (es_notifiers es ! j) \<notin> es_closed es \<and>
     es' = set_notifier j NtDone (es\<lparr>es_closed := insert (nt_waitCh (es_notifiers es ! j)) (es_closed es)\<rparr>)"
  by (auto simp: notifier_close_def close_chan_def)

lemma calls_inv_cong:
  "es_next es = es_next es' \<Longrightarrow> es_calls es = es_calls es' \<Longrightarrow> connections es = connections es' \<Longrightarrow>
   hearts (es_heartBeater es) = hearts (es_heartBeater es') \<Longrightarrow> calls_inv es = calls_inv es'"
  by (simp add: calls_inv_def)

lemma calls_inv_step: "es_step L es (Ret es') \<Longrightarrow> calls_inv es \<Longrightarrow> calls_inv es'"
proof (erule es_stepE)
  fix userID conn assume "calls_inv es" "Ret es' = Ret (serve_register userID conn es)"
  then show ?thesis using calls_inv_register by simp
next
  fix i assume "calls_inv es" "Ret es' = Ret (serve_launch L i es)" "at_call i AtLaunch es"
  then show ?thesis using calls_inv_launch by simp
next
  fix i assume "calls_inv es" "Ret es' = Ret (set_call i (ServeReturned None) es)" "at_call i AtReceive es"
  then show ?thesis using calls_inv_set_call [of es i] by (simp add: at_call_def served_def)
next
  fix j assume "calls_inv es" "Ret es' = notifier_close j es"
  then have "calls_inv es" "notifier_close j es = Ret es'" by simp_all
  then show ?thesis
    using calls_inv_cong [of es' es] by (simp add: notifier_close_Ret frame_simps)
qed (auto simp: calls_inv_def shutdown_begin_def set_notifier_def)


lemma pending_answers_update:
  assumes "j < length ns" and "nt_pc (ns ! j) = NtSend" and "pc \<noteq> NtSend"
  shows "Suc (pending_answers (ns[j := (ns ! j)\<lparr>nt_pc := pc\<rparr>])) = pending_answers ns"
  using assms
proof (induction ns arbitrary: j)
  case (Cons x ns)
  then show ?case by (cases j) (auto simp: pending_answers_def)
qed simp

lemma pending_answers_same:
  assumes "j < length ns" and "nt_pc (ns ! j) \<noteq> NtSend" and "pc \<noteq> NtSend"
  shows "pending_answers (ns[j := (ns ! j)\<lparr>nt_pc := pc\<rparr>]) = pending_answers ns"
  using assms
proof (induction ns arbitrary: j)
  case (Cons x ns)
  then show ?case by (cases j) (auto simp: pending_answers_def)
qed simp

lemma pending_answers_pos: "j < length ns \<Longrightarrow> nt_pc (ns ! j) = NtSend \<Longrightarrow> 0 < pending_answers ns"
  by (auto simp: pending_answers_def filter_empty_conv intro: nth_mem)

text \<open>The set of finished channels under a move of one goroutine whose channel is unique.\<close>

lemma done_chans_update:
  assumes "distinct (map nt_waitCh ns)" and "j < length ns" and "nt_pc (ns ! j) \<noteq> NtDone"
  shows "nt_waitCh ` {x \<in> set (ns[j := (ns ! j)\<lparr>nt_pc := pc\<rparr>]). nt_pc x = NtDone} =
    (if pc = NtDone then insert (nt_waitCh (ns ! j)) else id) (nt_waitCh ` {x \<in> set ns. nt_pc x = NtDone})"
  using assms
proof (induction ns arbitrary: j)
  case (Cons x ns)
  show ?case
  proof (cases j)
    case 0
    have "nt_waitCh ` {y \<in> set (z # ns). nt_pc y = NtDone} =
        (if nt_pc z = NtDone then {nt_waitCh z} else {}) \<union> nt_waitCh ` {y \<in> set ns. nt_pc y = NtDone}" for z
      by auto
    with 0 Cons.prems(3) show ?thesis by simp
  next
    case (Suc k)
    have "nt_waitCh ` {y \<in> set (x # ns'). nt_pc y = NtDone} =
        (if nt_pc x = NtDone then {nt_waitCh x} else {}) \<union> nt_waitCh ` {y \<in> set ns'. nt_pc y = NtDone}" for ns'
      by auto
    with Cons Suc show ?thesis by auto
  qed
qed simp

lemma not_done_not_closed:
  assumes "shutdown_inv es" and "at_notifier j pc es" and "pc \<noteq> NtDone"
  shows "nt_waitCh (es_notifiers es ! j) \<notin> es_closed es"
proof
  assume "nt_waitCh (es_notifiers es ! j) \<in> es_closed es"
  then obtain x where "x \<in> set (es_notifiers es)" "nt_pc x = NtDone" "nt_waitCh x = nt_waitCh (es_notifiers es ! j)"
    using assms(1) by (auto simp: shutdown_inv_def)
  then obtain k where "k < length (es_notifiers es)" "nt_pc (es_notifiers es ! k) = NtDone"
    "nt_waitCh (es_notifiers es ! k) = nt_waitCh (es_notifiers es ! j)" by (metis in_set_conv_nth)
  moreover have "distinct (map nt_waitCh (es_notifiers es))" using assms(1) by (simp add: shutdown_inv_def)
  ultimately have "k = j" using assms(2) nth_eq_iff_index_eq [of "map nt_waitCh (es_notifiers es)" k j]
    by (simp add: at_notifier_def)
  with \<open>nt_pc (es_notifiers es ! k) = NtDone\<close> assms(2,3) show False by (simp add: at_notifier_def)
qed

lemma set_notifier_notifiers:
  "es_notifiers (set_notifier j pc es) = (es_notifiers es)[j := (es_notifiers es ! j)\<lparr>nt_pc := pc\<rparr>]"
  by (simp add: set_notifier_def)

lemma set_notifier_bound:
  "(\<forall>x \<in> set (es_notifiers (set_notifier j pc es)). nt_waitCh x < n) \<longleftrightarrow>
   (\<forall>x \<in> set (es_notifiers es). nt_waitCh x < n)"
proof -
  have "list_all (\<lambda>c. c < n) (map nt_waitCh (es_notifiers (set_notifier j pc es))) =
      list_all (\<lambda>c. c < n) (map nt_waitCh (es_notifiers es))" by (simp only: set_notifier_waitChs)
  then show ?thesis by (simp add: list_all_iff)
qed

lemma shutdown_inv_answer:
  assumes "shutdown_inv es" and "at_notifier j NtSend es"
  shows "shutdown_inv (set_notifier j NtClose (es\<lparr>es_shutdown := errCh_send (es_shutdown es)\<rparr>))"
proof -
  have j: "j < length (es_notifiers es)" "nt_pc (es_notifiers es ! j) = NtSend"
    using assms(2) by (simp_all add: at_notifier_def)
  have "distinct (map nt_waitCh (es_notifiers es))" using assms(1) by (simp add: shutdown_inv_def)
  then show ?thesis
    using assms(1) j done_chans_update [of "es_notifiers es" j NtClose]
      pending_answers_update [OF j, of NtClose]
    unfolding shutdown_inv_def frame_simps set_notifier_bound
    by (auto simp: set_notifier_notifiers errCh_send_def split: shutdown_pc.splits)
qed

lemma shutdown_inv_close:
  assumes "shutdown_inv es" and "at_notifier j NtClose es"
  shows "shutdown_inv (set_notifier j NtDone
    (es\<lparr>es_closed := insert (nt_waitCh (es_notifiers es ! j)) (es_closed es)\<rparr>))"
proof -
  have j: "j < length (es_notifiers es)" "nt_pc (es_notifiers es ! j) = NtClose"
    using assms(2) by (simp_all add: at_notifier_def)
  have "distinct (map nt_waitCh (es_notifiers es))" using assms(1) by (simp add: shutdown_inv_def)
  then show ?thesis
    using assms(1) j done_chans_update [of "es_notifiers es" j NtDone]
      pending_answers_same [OF j(1), of NtDone]
    unfolding shutdown_inv_def frame_simps set_notifier_bound
    by (auto simp: set_notifier_notifiers)
qed

lemma shutdown_inv_begin:
  assumes "calls_inv es" and "shutdown_inv es" and "es_shutdown es = NotShuttingDown"
    and "range_order (connections es) order"
  shows "shutdown_inv (shutdown_begin order es)"
proof -
  let ?ch = "\<lambda>u. pc_waitCh (the (connections es u))"
  have conn: "?ch u < length (es_calls es)" "sc_user (es_calls es ! ?ch u) = u" if "u \<in> set order" for u
    using assms(1,4) that by (auto simp: calls_inv_def range_order_def)
  have "inj_on ?ch (set order)" by (rule inj_onI) (metis conn(2))
  then have "distinct (map ?ch order)" using assms(4) by (simp add: range_order_def distinct_map)
  moreover have "es_closed es = {}" using assms(2,3) by (simp add: shutdown_inv_def)
  moreover have "pending_answers (map (\<lambda>u. \<lparr>nt_waitCh = ?ch u, nt_pc = NtSend\<rparr>) us) = length us" for us
    by (induction us) (simp_all add: pending_answers_def)
  ultimately show ?thesis
    using conn by (auto simp: shutdown_inv_def shutdown_begin_def comp_def)
qed

lemma shutdown_inv_step:
  "es_step L es (Ret es') \<Longrightarrow> calls_inv es \<Longrightarrow> shutdown_inv es \<Longrightarrow> shutdown_inv es'"
proof (erule es_stepE)
  fix i assume "shutdown_inv es" "Ret es' = Ret (serve_launch L i es)"
  then show ?thesis
    by (auto simp: serve_launch_def shutdown_inv_def frame_simps split: prod.splits option.splits)
next
  fix j assume "shutdown_inv es" "at_notifier j NtSend es"
    "Ret es' = Ret (set_notifier j NtClose (es\<lparr>es_shutdown := errCh_send (es_shutdown es)\<rparr>))"
  then show ?thesis using shutdown_inv_answer by simp
next
  fix j assume "shutdown_inv es" "at_notifier j NtClose es" "Ret es' = notifier_close j es"
  then have "shutdown_inv es" "at_notifier j NtClose es" "notifier_close j es = Ret es'" by simp_all
  then show ?thesis using shutdown_inv_close by (auto simp: notifier_close_Ret)
next
  fix order assume "calls_inv es" "shutdown_inv es" "es_shutdown es = NotShuttingDown"
    "range_order (connections es) order" "Ret es' = Ret (shutdown_begin order es)"
  then show ?thesis using shutdown_inv_begin by simp
qed (fastforce simp: shutdown_inv_def serve_register_def Let_def frame_simps less_Suc_eq)+

lemma es_steps_inv: "es_steps L es es' \<Longrightarrow> calls_inv es \<Longrightarrow> shutdown_inv es \<Longrightarrow> calls_inv es' \<and> shutdown_inv es'"
  by (induction rule: es_steps.induct) (blast intro: calls_inv_step shutdown_inv_step)+

lemma es_reachable_inv: "es_reachable L es \<Longrightarrow> calls_inv es \<and> shutdown_inv es"
  unfolding es_reachable_def using es_steps_inv calls_inv_new shutdown_inv_new by blast


section \<open>What a shutdown reaches\<close>

lemma after_begin_step:
  assumes "es_step L es (Ret es')" and "es_shutdown es \<noteq> NotShuttingDown"
  shows "es_shutdown es' \<noteq> NotShuttingDown \<and> map nt_waitCh (es_notifiers es') = map nt_waitCh (es_notifiers es)"
  using assms(1)
proof cases
  case (es_launch i)
  then show ?thesis
    using assms(2) by (auto simp: serve_launch_def frame_simps split: prod.splits option.splits)
next
  case (es_close j)
  then have "notifier_close j es = Ret es'" by simp
  then show ?thesis using assms(2) by (auto simp: notifier_close_Ret frame_simps)
qed (use assms(2) in \<open>auto simp: serve_register_def Let_def frame_simps errCh_send_def split: shutdown_pc.split\<close>)

lemma after_begin:
  "es_steps L es es' \<Longrightarrow> es_shutdown es \<noteq> NotShuttingDown \<Longrightarrow>
     es_shutdown es' \<noteq> NotShuttingDown \<and> map nt_waitCh (es_notifiers es') = map nt_waitCh (es_notifiers es)"
proof (induction rule: es_steps.induct)
  case (es_trans es1 es2)
  then show ?case using after_begin_step [OF es_trans.hyps(2)] by simp
qed simp

text \<open>A waiting call that the shutdown cannot reach: its channel is with no goroutine, and it is not
  registered any more or the shutdown has already looked.\<close>

definition abandoned :: "nat \<Rightarrow> 'conn eventServer \<Rightarrow> bool" where
  "abandoned i es \<longleftrightarrow> at_call i AtReceive es \<and> i \<notin> nt_waitCh ` set (es_notifiers es) \<and>
     (es_shutdown es \<noteq> NotShuttingDown \<or> (\<forall>u pc. connections es u = Some pc \<longrightarrow> pc_waitCh pc \<noteq> i))"

lemma set_notifier_chans:
  "nt_waitCh ` set (es_notifiers (set_notifier j pc es)) = nt_waitCh ` set (es_notifiers es)"
  using set_notifier_waitChs [of j pc es] by (metis list.set_map)

lemma at_call_register: "at_call i pc es \<Longrightarrow> at_call i pc (serve_register userID conn es)"
  by (simp add: at_call_def serve_register_def Let_def nth_append)

lemma at_call_set_call: "at_call i pc es \<Longrightarrow> i \<noteq> j \<Longrightarrow> at_call i pc (set_call j pc' es)"
  by (simp add: at_call_def set_call_def)

lemma abandoned_step:
  assumes "es_step L es (Ret es')" and "calls_inv es" and "shutdown_inv es" and "abandoned i es"
  shows "abandoned i es'"
proof -
  have i: "at_call i AtReceive es" "sc_waitCh (es_calls es ! i) = i" "i < length (es_calls es)"
    "i \<notin> nt_waitCh ` set (es_notifiers es)"
    using assms(2,4) by (auto simp: abandoned_def at_call_def calls_inv_def)
  have not_closed: "i \<notin> es_closed es" using assms(3) i(4) by (auto simp: shutdown_inv_def)
  from assms(1) show ?thesis
  proof cases
    case (es_register userID conn)
    then have "es' = serve_register userID conn es" by simp
    moreover have "es_next es \<noteq> i" using assms(2) i(3) by (simp add: calls_inv_def)
    ultimately show ?thesis
      using assms(4) at_call_register [OF i(1)] by (auto simp: abandoned_def serve_register_def Let_def)
  next
    case (es_launch j)
    then have "j \<noteq> i" using i(1) by (auto simp: at_call_def)
    then have "at_call i AtReceive es'"
      using es_launch(1) i(1)
      by (auto simp: serve_launch_def at_call_def set_call_def split: prod.splits option.splits)
    with es_launch(1) assms(4) show ?thesis
      by (auto simp: abandoned_def serve_launch_def frame_simps split: prod.splits option.splits)
  next
    case (es_release j)
    then have "j \<noteq> i" using i(2) not_closed by auto
    with es_release(1) assms(4) at_call_set_call [OF i(1), of j] show ?thesis
      by (auto simp: abandoned_def frame_simps)
  next
      case (es_begin order)
    then have free: "pc_waitCh pc \<noteq> i" if "connections es u = Some pc" for u pc
      using assms(4) that by (auto simp: abandoned_def)
    have "i \<notin> (\<lambda>u. pc_waitCh (the (connections es u))) ` set order"
    proof
      assume "i \<in> (\<lambda>u. pc_waitCh (the (connections es u))) ` set order"
      then obtain u where u: "u \<in> set order" "i = pc_waitCh (the (connections es u))" by blast
      then have "u \<in> dom (connections es)" using es_begin(3) by (simp add: range_order_def)
      then obtain pc where "connections es u = Some pc" by blast
      with u(2) free show False by force
    qed
    then show ?thesis
      using es_begin(1) i(1) by (simp add: abandoned_def shutdown_begin_def at_call_def image_image)
  next
    case (es_answer j)
    then show ?thesis
      using assms(4) by (auto simp: abandoned_def at_call_def frame_simps set_notifier_chans errCh_send_def
          split: shutdown_pc.splits)
  next
    case (es_close j)
    then have "notifier_close j es = Ret es'" by simp
    then show ?thesis
      using assms(4) by (auto simp: notifier_close_Ret abandoned_def at_call_def frame_simps set_notifier_chans)
  qed (use assms(4) in \<open>auto simp: abandoned_def at_call_def\<close>)
qed

lemma abandoned_steps:
  "es_steps L es es' \<Longrightarrow> calls_inv es \<Longrightarrow> shutdown_inv es \<Longrightarrow> abandoned i es \<Longrightarrow> abandoned i es'"
proof (induction rule: es_steps.induct)
  case (es_trans es1 es2)
  then show ?case using abandoned_step es_steps_inv by blast
qed simp

section \<open>Concrete states\<close>

text \<open>User 7 is connected, then connects a second time.\<close>

definition ref_server :: "nat eventServer" where
  "ref_server = serve_launch ref_uuid 0 (serve_register (ID 7) 100 (NewEventServer (NewHeartBeater ''es-1'')))"

definition ref_displaced :: "nat eventServer" where
  "ref_displaced = serve_launch ref_uuid 1 (serve_register (ID 7) 200 ref_server)"

lemma LaunchForUser_first: "\<exists>hb. LaunchForUser L u (NewHeartBeater sid) = (None, hb) \<and> hearts hb = [u \<mapsto> 0]"
  by (simp add: LaunchForUser_new NewHeartBeater_def)

lemma ref_server_facts:
  "es_calls ref_server = [\<lparr>sc_user = ID 7, sc_waitCh = 0, sc_pc = AtReceive\<rparr>]"
  "connections ref_server = [ID 7 \<mapsto> \<lparr>pc_conn = 100, pc_waitCh = 0\<rparr>]" "es_next ref_server = 1"
  "es_shutdown ref_server = NotShuttingDown" "es_notifiers ref_server = []" "es_closed ref_server = {}"
  "hearts (es_heartBeater ref_server) = [ID 7 \<mapsto> 0]"
  using LaunchForUser_first [of ref_uuid "ID 7" "''es-1''"]
  by (auto simp: ref_server_def serve_launch_def serve_register_def Let_def NewEventServer_def set_call_def)

lemma ref_server_steps: "es_steps ref_uuid (NewEventServer (NewHeartBeater ''es-1'')) ref_server"
proof -
  let ?es = "serve_register (ID 7) 100 (NewEventServer (NewHeartBeater ''es-1''))"
  have "es_step ref_uuid (NewEventServer (NewHeartBeater ''es-1'')) (Ret ?es)"
    by (rule es_register) (simp add: holds_lock_def NewEventServer_def)
  moreover have "es_step ref_uuid ?es (Ret ref_server)"
    unfolding ref_server_def
    by (rule es_launch) (simp add: at_call_def serve_register_def Let_def NewEventServer_def)
  ultimately show ?thesis by (blast intro: es_refl es_steps.es_trans)
qed

lemma ref_server_reachable: "es_reachable ref_uuid ref_server"
  unfolding es_reachable_def using ref_server_steps by blast

lemma ref_displaced_facts:
  "es_calls ref_displaced = [\<lparr>sc_user = ID 7, sc_waitCh = 0, sc_pc = AtReceive\<rparr>,
     \<lparr>sc_user = ID 7, sc_waitCh = 1, sc_pc = ServeReturned (Some (Opaque ''failed to launch heart beater''))\<rparr>]"
  "connections ref_displaced = [ID 7 \<mapsto> \<lparr>pc_conn = 200, pc_waitCh = 1\<rparr>]"
  "es_shutdown ref_displaced = NotShuttingDown" "es_notifiers ref_displaced = []"
  by (simp_all add: ref_displaced_def serve_launch_def serve_register_def Let_def ref_server_facts set_call_def
      LaunchForUser_active)

lemma ref_displaced_reachable: "es_reachable ref_uuid ref_displaced"
proof -
  have "es_step ref_uuid ref_server (Ret (serve_register (ID 7) 200 ref_server))"
    by (rule es_register) (simp add: holds_lock_def ref_server_facts)
  moreover have "es_step ref_uuid (serve_register (ID 7) 200 ref_server) (Ret ref_displaced)"
    unfolding ref_displaced_def
    by (rule es_launch) (simp add: at_call_def serve_register_def Let_def ref_server_facts)
  ultimately show ?thesis
    unfolding es_reachable_def using ref_server_steps by (blast intro: es_steps.es_trans)
qed

section \<open>Properties\<close>

text \<open>C28: A shutdown, once its goroutines are done, has released every connection that was registered
  when it began: the channel of its call is closed and the call can return without an error.\<close>

theorem shutdown_releases_connections:
  assumes "es_reachable L es" and "es_shutdown es = NotShuttingDown" and "range_order (connections es) order"
    and "es_steps L (shutdown_begin order es) es'" and "\<forall>x \<in> set (es_notifiers es'). nt_pc x = NtDone"
    and "connections es u = Some pc"
  shows "pc_waitCh pc \<in> es_closed es' \<and>
    (at_call (pc_waitCh pc) AtReceive es' \<longrightarrow> es_step L es' (Ret (set_call (pc_waitCh pc) (ServeReturned None) es')))"
proof -
  have inv: "calls_inv es" "shutdown_inv es" using es_reachable_inv [OF assms(1)] by auto
  have begin_step: "es_step L es (Ret (shutdown_begin order es))" by (rule es_begin [OF assms(2,3)])
  have inv': "calls_inv es'" "shutdown_inv es'"
    using es_steps_inv [OF assms(4)] calls_inv_step [OF begin_step inv(1)]
      shutdown_inv_begin [OF inv assms(2,3)] by auto
  have "map nt_waitCh (es_notifiers es') = map (\<lambda>u. pc_waitCh (the (connections es u))) order"
    using after_begin [OF assms(4)] by (simp add: shutdown_begin_def comp_def)
  moreover have "u \<in> set order" using assms(3,6) by (auto simp: range_order_def)
  ultimately have "pc_waitCh pc \<in> nt_waitCh ` set (es_notifiers es')"
    using assms(6) by (metis (no_types, lifting) image_eqI list.set_map option.sel)
  then have closed: "pc_waitCh pc \<in> es_closed es'"
    using inv'(2) assms(5) by (auto simp: shutdown_inv_def)
  then show ?thesis
    using es_release [of "pc_waitCh pc" es' L] inv'(1) by (auto simp: at_call_def calls_inv_def)
qed

theorem shutdown_releases_connections_witness:
  "\<exists>es'. es_steps ref_uuid (shutdown_begin [ID 7] ref_server) es' \<and> 0 \<in> es_closed es'"
proof -
  let ?b = "shutdown_begin [ID 7] ref_server"
  let ?s = "set_notifier 0 NtClose (?b\<lparr>es_shutdown := errCh_send (es_shutdown ?b)\<rparr>)"
  let ?e = "set_notifier 0 NtDone (?s\<lparr>es_closed := insert 0 (es_closed ?s)\<rparr>)"
  have n: "es_notifiers ?b = [\<lparr>nt_waitCh = 0, nt_pc = NtSend\<rparr>]" "es_shutdown ?b = Collecting 1 0 0"
    "es_closed ?b = {}"
    by (simp_all add: shutdown_begin_def ref_server_facts)
  have "es_step ref_uuid ?b (Ret ?s)"
    by (rule es_answer) (simp_all add: at_notifier_def n errCh_has_room_def)
  moreover have "es_step ref_uuid ?s (Ret ?e)"
    using es_close [of 0 ?s ref_uuid]
    by (simp add: at_notifier_def set_notifier_def n notifier_close_def close_chan_def)
  ultimately have steps: "es_steps ref_uuid ?b ?e" by (blast intro: es_refl es_steps.es_trans)
  have order: "range_order (connections ref_server) [ID 7]"
    by (simp add: range_order_def ref_server_facts)
  have done_all: "\<forall>x \<in> set (es_notifiers ?e). nt_pc x = NtDone" by (simp add: set_notifier_def n)
  have "connections ref_server (ID 7) = Some \<lparr>pc_conn = 100, pc_waitCh = 0\<rparr>" by (simp add: ref_server_facts)
  from shutdown_releases_connections [OF ref_server_reachable ref_server_facts(4) order steps done_all this] steps
  show ?thesis by auto
qed

text \<open>C29: Neither the program nor a shutdown can end a waiting call whose connection was displaced by a
  later connection of the same user, or which registered after the shutdown had looked: it stays
  blocked in every later state, and with it the graceful stop of the gRPC server.\<close>

theorem unreachable_calls_never_return:
  assumes "es_reachable L es" and "at_call i AtReceive es"
    and "i \<notin> nt_waitCh ` set (es_notifiers es)"
    and "es_shutdown es \<noteq> NotShuttingDown \<or> (\<forall>u pc. connections es u = Some pc \<longrightarrow> pc_waitCh pc \<noteq> i)"
    and "es_steps L es es'"
  shows "at_call i AtReceive es'"
  using abandoned_steps [OF assms(5), of i] es_reachable_inv [OF assms(1)] assms(2,3,4)
  by (simp add: abandoned_def)

theorem unreachable_calls_never_return_witness:
  "es_reachable ref_uuid ref_displaced \<and>
   at_call 0 AtReceive (shutdown_begin [ID 7] ref_displaced)"
proof -
  have "at_call 0 AtReceive ref_displaced" "0 \<notin> nt_waitCh ` set (es_notifiers ref_displaced)"
    "es_shutdown ref_displaced \<noteq> NotShuttingDown \<or>
       (\<forall>u pc. connections ref_displaced u = Some pc \<longrightarrow> pc_waitCh pc \<noteq> 0)"
    by (simp_all add: at_call_def ref_displaced_facts)
  moreover have "es_steps ref_uuid ref_displaced (shutdown_begin [ID 7] ref_displaced)"
    by (rule es_steps.es_trans [OF es_refl es_begin])
      (simp_all add: ref_displaced_facts range_order_def)
  ultimately show ?thesis
    using unreachable_calls_never_return [OF ref_displaced_reachable] ref_displaced_reachable by blast
qed

text \<open>C30: With one shutdown no goroutine closes a channel twice, so no step panics, and no goroutine of
  the shutdown ever blocks on its answer: the buffer has room whenever one is to be sent.\<close>

theorem shutdown_never_panics_or_blocks:
  assumes "es_reachable L es"
  shows "(es_step L es y \<longrightarrow> (\<exists>es'. y = Ret es')) \<and>
    (at_notifier j NtSend es \<longrightarrow> errCh_has_room (es_shutdown es))"
proof -
  have inv: "shutdown_inv es" using es_reachable_inv [OF assms] by simp
  have "\<exists>es'. y = Ret es'" if "es_step L es y"
    using that
  proof cases
    case (es_close k)
    then show ?thesis
      using not_done_not_closed [OF inv es_close(2)] by (simp add: notifier_close_def close_chan_def)
  qed simp_all
  moreover have "errCh_has_room (es_shutdown es)" if "at_notifier j NtSend es"
    using that inv pending_answers_pos [of j "es_notifiers es"]
    by (fastforce simp: at_notifier_def errCh_has_room_def shutdown_inv_def split: shutdown_pc.split)
  ultimately show ?thesis by blast
qed

theorem shutdown_never_panics_or_blocks_witness:
  "at_notifier 0 NtSend (shutdown_begin [ID 7] ref_server) \<and>
   errCh_has_room (es_shutdown (shutdown_begin [ID 7] ref_server))"
proof -
  have "es_step ref_uuid ref_server (Ret (shutdown_begin [ID 7] ref_server))"
    by (rule es_begin) (simp_all add: ref_server_facts range_order_def)
  then have "es_reachable ref_uuid (shutdown_begin [ID 7] ref_server)"
    unfolding es_reachable_def using ref_server_steps by (blast intro: es_steps.es_trans)
  moreover have "at_notifier 0 NtSend (shutdown_begin [ID 7] ref_server)"
    by (simp add: at_notifier_def shutdown_begin_def)
  ultimately show ?thesis using shutdown_never_panics_or_blocks [of ref_uuid _ undefined 0] by blast
qed


text \<open>What a second connection of a served user leaves behind, in every later state: \<open>i\<close> is the first call, \<open>k\<close> the
  second, on the stream \<open>conn\<close>.\<close>

definition hijacked :: "nat \<Rightarrow> nat \<Rightarrow> 'conn \<Rightarrow> ID \<Rightarrow> 'conn eventServer \<Rightarrow> bool" where
  "hijacked i k conn u es \<longleftrightarrow>
     i < k \<and> k < length (es_calls es) \<and> sc_user (es_calls es ! i) = u \<and> sc_user (es_calls es ! k) = u \<and>
     served (es_calls es ! i) \<and>
     sc_pc (es_calls es ! k) \<in> {AtLaunch, ServeReturned (Some (Opaque ''failed to launch heart beater''))} \<and>
     (\<exists>pc. connections es u = Some pc \<and> k \<le> pc_waitCh pc \<and> (pc_waitCh pc = k \<longrightarrow> pc_conn pc = conn))"

lemma hijacked_register:
  assumes "calls_inv es" and "at_call i AtReceive es"
  shows "hijacked i (length (es_calls es)) conn (sc_user (es_calls es ! i)) (serve_register (sc_user (es_calls es ! i)) conn es)"
  using assms by (auto simp: hijacked_def at_call_def serve_register_def Let_def nth_append served_def calls_inv_def)

lemma hijacked_set_call:
  assumes "hijacked i k conn u es" and "j < length (es_calls es)"
    and "j = i \<Longrightarrow> pc = AtReceive \<or> pc = ServeReturned None"
    and "j = k \<Longrightarrow> pc = ServeReturned (Some (Opaque ''failed to launch heart beater''))"
  shows "hijacked i k conn u (set_call j pc es)"
  using assms by (auto simp: hijacked_def set_call_def nth_list_update served_def)

lemma hijacked_launch:
  assumes "calls_inv es" and "hijacked i k conn u es" and "at_call j AtLaunch es"
  shows "hijacked i k conn u (serve_launch L j es)"
proof -
  obtain err hb where launch: "LaunchForUser L (sc_user (es_calls es ! j)) (es_heartBeater es) = (err, hb)" by (metis surj_pair)
  have j: "j < length (es_calls es)" "sc_pc (es_calls es ! j) = AtLaunch" using assms(3) by (simp_all add: at_call_def)
  have "j \<noteq> i" using assms(2) j(2) by (auto simp: hijacked_def served_def)
  have "hearts (es_heartBeater es) u \<noteq> None" using assms(1,2) by (auto simp: calls_inv_def hijacked_def)
  then have "err \<noteq> None" if "j = k"
    using launch that assms(2) by (auto simp: hijacked_def LaunchForUser_active)
  moreover have "hijacked i k conn u (es\<lparr>es_heartBeater := hb\<rparr>)" using assms(2) by (simp add: hijacked_def)
  ultimately show ?thesis
    using launch j(1) \<open>j \<noteq> i\<close> hijacked_set_call [of i k conn u "es\<lparr>es_heartBeater := hb\<rparr>" j]
    by (cases err; cases "j = k") (simp_all add: serve_launch_def)
qed

lemma hijacked_step:
  assumes "es_step L es (Ret es')" and "calls_inv es" and "hijacked i k conn u es"
  shows "hijacked i k conn u es'"
  using assms(1)
proof cases
  case (es_register userID conn')
  then show ?thesis
    using assms(2,3) by (auto simp: hijacked_def serve_register_def Let_def nth_append calls_inv_def)
next
  case (es_launch j)
  then show ?thesis using hijacked_launch [OF assms(2,3)] by simp
next
  case (es_release j)
  then have "j \<noteq> k" using assms(3) by (auto simp: hijacked_def at_call_def)
  then show ?thesis using es_release hijacked_set_call [OF assms(3), of j] by (simp add: at_call_def)
next
  case (es_close j)
  then have "notifier_close j es = Ret es'" by simp
  then show ?thesis using assms(3) by (auto simp: notifier_close_Ret frame_simps hijacked_def)
qed (use assms(3) in \<open>auto simp: shutdown_begin_def frame_simps hijacked_def\<close>)

lemma hijacked_steps:
  "es_steps L es es' \<Longrightarrow> calls_inv es \<Longrightarrow> shutdown_inv es \<Longrightarrow> hijacked i k conn u es \<Longrightarrow> hijacked i k conn u es'"
proof (induction rule: es_steps.induct)
  case (es_trans es1 es2)
  have "calls_inv es1" using es_steps_inv [OF es_trans.hyps(1) es_trans.prems(1,2)] by simp
  then show ?case using hijacked_step [OF es_trans.hyps(2)] es_trans.IH es_trans.prems by simp
qed simp

lemma displaced_abandoned:
  assumes "es_reachable L es" and "at_call i AtReceive es" and "es_shutdown es = NotShuttingDown"
  shows "abandoned i (serve_register (sc_user (es_calls es ! i)) conn es)"
proof -
  have inv: "calls_inv es" "shutdown_inv es" using es_reachable_inv [OF assms(1)] by simp_all
  have i: "i < length (es_calls es)" using assms(2) by (simp add: at_call_def)
  have "pc_waitCh pc \<noteq> i" if "connections es v = Some pc" "v \<noteq> sc_user (es_calls es ! i)" for v pc
    using inv(1) that unfolding calls_inv_def by metis
  then show ?thesis
    using inv i assms(3) at_call_register [OF assms(2)]
    by (auto simp: abandoned_def serve_register_def Let_def shutdown_inv_def calls_inv_def)
qed

text \<open>C31: A second connection of a user who is already being served fails, but takes the place of the first. In
  every state after it has registered, whatever comes in between: its call has not got past the launch of the
  heartbeat or has returned with the error, and it is never served. Events for the user go to the stream
  that registered last, and so never again to the first call, which is not the last; as long as
  no third call of the user registers, they go to the stream of the failed second one. And the first
  call, if no shutdown had begun before, waits in every such state.\<close>

theorem second_connection_hijacks_events:
  assumes "es_reachable L es" and "at_call i AtReceive es" and "\<not> holds_lock es"
    and "u = sc_user (es_calls es ! i)" and "k = length (es_calls es)"
    and "es_steps L (serve_register u conn es) es'"
  shows "sc_pc (es_calls es' ! k) \<in> {AtLaunch, ServeReturned (Some (Opaque ''failed to launch heart beater''))} \<and>
    (\<exists>pc. connections es' u = Some pc \<and> i < k \<and> k \<le> pc_waitCh pc \<and> sc_user (es_calls es' ! pc_waitCh pc) = u \<and>
       (evt_RecipientID msg = u \<longrightarrow> es_SendEvent L deliver es' msg s = deliver (pc_conn pc) msg s) \<and>
       ((\<forall>j. k < j \<longrightarrow> j < length (es_calls es') \<longrightarrow> sc_user (es_calls es' ! j) \<noteq> u) \<longrightarrow> pc_conn pc = conn)) \<and>
    (es_shutdown es = NotShuttingDown \<longrightarrow> at_call i AtReceive es')"
proof -
  have inv: "calls_inv es" "shutdown_inv es" using es_reachable_inv [OF assms(1)] by simp_all
  have registers: "es_step L es (Ret (serve_register u conn es))" by (rule es_register [OF assms(3)])
  have inv1: "calls_inv (serve_register u conn es)" "shutdown_inv (serve_register u conn es)"
    using calls_inv_step [OF registers inv(1)] shutdown_inv_step [OF registers inv] by simp_all
  have inv': "calls_inv es'" using es_steps_inv [OF assms(6) inv1] by simp
  have hijacked: "hijacked i k conn u es'"
    using hijacked_steps [OF assms(6) inv1] hijacked_register [OF inv(1) assms(2)] assms(4,5) by simp
  then obtain pc where pc: "connections es' u = Some pc" "k \<le> pc_waitCh pc" "pc_waitCh pc = k \<longrightarrow> pc_conn pc = conn"
    by (auto simp: hijacked_def)
  have owner: "pc_waitCh pc < length (es_calls es')" "sc_user (es_calls es' ! pc_waitCh pc) = u"
    using inv' pc(1) unfolding calls_inv_def by blast+
  have last: "pc_conn pc = conn" if "\<forall>j. k < j \<longrightarrow> j < length (es_calls es') \<longrightarrow> sc_user (es_calls es' ! j) \<noteq> u"
  proof -
    have "pc_waitCh pc = k" using that owner pc(2) by (metis le_neq_implies_less)
    then show ?thesis using pc(3) by simp
  qed
  have waits: "at_call i AtReceive es'" if "es_shutdown es = NotShuttingDown"
    using abandoned_steps [OF assms(6) inv1] displaced_abandoned [OF assms(1,2) that] assms(4) by (simp add: abandoned_def)
  have sent: "es_SendEvent L deliver es' msg s = deliver (pc_conn pc) msg s" if "evt_RecipientID msg = u"
    using pc(1) that by (simp add: es_SendEvent_def)
  show ?thesis
    using hijacked pc(1,2) owner(2) last waits sent unfolding hijacked_def by blast
qed

theorem second_connection_hijacks_events_witness:
  "at_call 0 AtReceive ref_displaced \<and>
   es_SendEvent ref_uuid (\<lambda>c msg s. (None, c # s)) ref_displaced
     \<lparr>evt_SenderID = ID 3, evt_RecipientID = ID 7, evt_Content = ''hi'', evt_SentAt = 0\<rparr> [] = (None, [200])"
proof -
  let ?msg = "\<lparr>evt_SenderID = ID 3, evt_RecipientID = ID 7, evt_Content = ''hi'', evt_SentAt = 0\<rparr>"
  have first: "at_call 0 AtReceive ref_server" "\<not> holds_lock ref_server" "ID 7 = sc_user (es_calls ref_server ! 0)"
    "1 = length (es_calls ref_server)"
    by (simp_all add: at_call_def holds_lock_def ref_server_facts)
  have "es_step ref_uuid (serve_register (ID 7) 200 ref_server) (Ret ref_displaced)"
    unfolding ref_displaced_def
    by (rule es_launch) (simp add: at_call_def serve_register_def Let_def ref_server_facts)
  then have "es_steps ref_uuid (serve_register (ID 7) 200 ref_server) ref_displaced"
    by (rule es_steps.es_trans [OF es_refl])
  note hijacked = second_connection_hijacks_events [OF ref_server_reachable first this,
      where msg = ?msg and deliver = "\<lambda>c msg s. (None, c # s)" and s = "[]"]
  have "\<forall>j. 1 < j \<longrightarrow> j < length (es_calls ref_displaced) \<longrightarrow> sc_user (es_calls ref_displaced ! j) \<noteq> ID 7"
    by (simp add: ref_displaced_facts)
  then show ?thesis using hijacked ref_server_facts(4) by auto
qed

text \<open>The routes, as the configuration leaves them: the middleware that was added last is outermost.\<close>

lemma es_Configure_mux:
  "es_Configure L clock sendEvent record_log metricsMw authMw metricsHandler = Ret
     [\<lparr>rt_path = ''/metrics'', rt_methods = [MethodGet], rt_handler = metricsHandler\<rparr>,
      \<lparr>rt_path = ''/health'', rt_methods = [MethodGet],
         rt_handler = RequestLogger record_log (metricsMw (json_handler es_health))\<rparr>,
      \<lparr>rt_path = ''/send-message'', rt_methods = [MethodPost],
         rt_handler = authMw (RequestLogger record_log
           (metricsMw (json_handler (send_message_handler L clock sendEvent))))\<rparr>]"
  by (simp add: es_Configure_def HandleFunc_def HandleJSONFunc_def NewRouterBuilder_def SubGroup_def With_def
      wrap_def Let_def)

lemma es_send_message_served:
  assumes "es_Configure L clock sendEvent record_log metricsMw authMw metricsHandler = Ret mux"
    and "dispatch_laws serve" and "rq_path r = ''/send-message''" and "rq_method r = MethodPost"
  shows "serve mux r st =
    authMw (RequestLogger record_log (metricsMw (json_handler (send_message_handler L clock sendEvent)))) r st"
proof -
  let ?pre = "[\<lparr>rt_path = ''/metrics'', rt_methods = [MethodGet], rt_handler = metricsHandler\<rparr>,
      \<lparr>rt_path = ''/health'', rt_methods = [MethodGet],
         rt_handler = RequestLogger record_log (metricsMw (json_handler es_health))\<rparr>]"
  let ?rt = "\<lparr>rt_path = ''/send-message'', rt_methods = [MethodPost],
      rt_handler = authMw (RequestLogger record_log
        (metricsMw (json_handler (send_message_handler L clock sendEvent))))\<rparr>"
  have "mux = ?pre @ ?rt # []" using assms(1) by (simp add: es_Configure_mux)
  moreover have "serves ?rt r" "\<forall>x \<in> set (?pre @ []). rt_path x \<noteq> rq_path r"
    using assms(3,4) by (auto simp: serves_def)
  ultimately have "serve mux r = rt_handler ?rt r"
    using assms(2) unfolding dispatch_laws_def by metis
  then show ?thesis by simp
qed

text \<open>C32: Posting a message with a valid token delivers exactly one event, whose sender is the principal
  of the token, whatever the body says, and whose recipient and content are those of the body; the
  answer is 200, and the request is logged with it. A request without a valid token is answered with
  401 and leaves no trace at all, in the log neither: the authentication runs outside the logger.\<close>

theorem send_message_endpoint:
  assumes "es_Configure L clock sendEvent record_log (\<lambda>h. h)
      (HTTPTokenAuthorizationMiddleware (JWTValidator_Validate J pk clock)) metricsHandler = Ret mux"
    and "dispatch_laws serve" and "rq_path r = ''/send-message''" and "rq_method r = MethodPost"
  shows "(\<forall>p msg s'. header_Get ''Authorization'' (rq_headers r) \<noteq> [] \<longrightarrow>
      JWTValidator_Validate J pk clock (strip_bearer (header_Get ''Authorization'' (rq_headers r))) s = Inr p \<longrightarrow>
      json_Decode (SendMessageRequest_fields L) zero_SendMessageRequest (rq_body r) = Inr msg \<longrightarrow>
      sendEvent \<lparr>evt_SenderID = p_ID p, evt_RecipientID = smr_RecipientID msg, evt_Content = smr_Content msg,
        evt_SentAt = clock s\<rparr> s = (None, s') \<longrightarrow>
      serve mux r (fresh_writer, s) = Ret (RespondWithJSON DefaultOKResponse fresh_writer,
        record_log \<lparr>le_method = MethodPost, le_path = ''/send-message'', le_status_code = StatusOK\<rparr> s')) \<and>
    ((\<forall>p. JWTValidator_Validate J pk clock (strip_bearer (header_Get ''Authorization'' (rq_headers r))) s \<noteq> Inr p) \<longrightarrow>
      (\<exists>w'. serve mux r (fresh_writer, s) = Ret (w', s) \<and> w_status w' = Some StatusUnauthorized))"
proof -
  note served = es_send_message_served [OF assms]
  have fresh: "w_status fresh_writer = None" "w_calls fresh_writer = []" by (simp_all add: fresh_writer_def)
  have reject: "StatusCode (DetermineHTTPError (ErrUnauthorized err)) = StatusUnauthorized" for err
    by (simp add: DetermineHTTPError_def ErrUnauthorized_def TypeUnauthorized_def TypeBadRequest_def)
  have log: "captured fresh_writer (RespondWithJSON val fresh_writer) = StatusOK" for val
    using RespondWithJSON_simps(5) [OF fresh(1)] fresh(2) by (simp add: captured_def)
  have "\<exists>w'. serve mux r (fresh_writer, s) = Ret (w', s) \<and> w_status w' = Some StatusUnauthorized"
    if "\<forall>p. JWTValidator_Validate J pk clock (strip_bearer (header_Get ''Authorization'' (rq_headers r))) s \<noteq> Inr p"
    using that RespondWithJSONError_simps(1) [OF fresh(1)]
    by (cases "JWTValidator_Validate J pk clock (strip_bearer (header_Get ''Authorization'' (rq_headers r))) s")
      (auto simp: served HTTPTokenAuthorizationMiddleware_def Let_def reject)
  then show ?thesis
    using assms(3,4) log
    by (auto simp: served HTTPTokenAuthorizationMiddleware_def Let_def ContextWithPrincipal_def RequestLogger_def
        json_handler_def send_message_handler_def PrincipalFromContext_def)
qed

definition ref_send_request :: "Principal option request" where
  "ref_send_request = \<lparr>rq_method = MethodPost, rq_path = ''/send-message'',
     rq_headers = [(''Authorization'', ''Bearer tok'')], rq_body = ''{}'', rq_ctx = None\<rparr>"

theorem send_message_endpoint_witness:
  "\<exists>mux. es_Configure ref_uuid (\<lambda>s. 5) (\<lambda>e s. (None, e # s)) (\<lambda>l s. s) (\<lambda>h. h)
       (HTTPTokenAuthorizationMiddleware (JWTValidator_Validate ref_jwt () (\<lambda>s. 5))) (\<lambda>r st. Ret st) = Ret mux \<and>
     ref_serve mux ref_send_request (fresh_writer, []) = Ret (RespondWithJSON DefaultOKResponse fresh_writer,
       [\<lparr>evt_SenderID = ID 7, evt_RecipientID = ID 0, evt_Content = [], evt_SentAt = 5\<rparr>])"
proof -
  obtain mux where mux: "es_Configure ref_uuid (\<lambda>s. 5) (\<lambda>e s. (None, e # s)) (\<lambda>l s. s) (\<lambda>h. h)
       (HTTPTokenAuthorizationMiddleware (JWTValidator_Validate ref_jwt () (\<lambda>s. 5))) (\<lambda>r st. Ret st) = Ret mux"
    by (simp add: es_Configure_mux)
  have tok: "header_Get ''Authorization'' (rq_headers ref_send_request) \<noteq> []"
    "strip_bearer (header_Get ''Authorization'' (rq_headers ref_send_request)) = ''tok''"
    by code_simp+
  have valid: "JWTValidator_Validate ref_jwt () (\<lambda>s. 5) ''tok'' s = Inr \<lparr>p_ID = ID 7, p_UserName = ''bob''\<rparr>" for s :: "Event list"
    by (simp add: JWTValidator_Validate_def ref_jwt_def jwt_unexpired_def ref_claims_def Second_eq)
  have "json_parse_prefix (render (JObj [])) = Some (JObj [], [])"
    by (rule json_parse_prefix_render) simp
  then have body: "json_Decode (SendMessageRequest_fields ref_uuid) zero_SendMessageRequest (rq_body ref_send_request) =
      Inr zero_SendMessageRequest"
    by (simp add: json_Decode_def ref_send_request_def)
  have r: "rq_path ref_send_request = ''/send-message''" "rq_method ref_send_request = MethodPost"
    by (simp_all add: ref_send_request_def)
  show ?thesis
    using mux send_message_endpoint [OF mux ref_serve_laws r, of "[]"] tok valid body
    by (auto simp: zero_SendMessageRequest_def)
qed

text \<open>C33: Whoever holds a valid token can connect as any user: the interceptor checks the token and
  throws its principal away, and \<open>Connect\<close> registers the stream for the user that the request names,
  so that this user's events go to it. A request whose user is no UUID panics instead.\<close>

theorem connect_ignores_principal:
  assumes "uuid_laws L" and "md = Some get" and "get ''authorization'' = [token]"
    and "JWTValidator_Validate J pk clock (strip_bearer token) es = Inr p"
  shows "(\<exists>es'. GRPCStreamTokenAuthorizationInterceptor (JWTValidator_Validate J pk clock)
        (\<lambda>req x. go_bind (grpc_Connect L req stream x) (\<lambda>x'. Ret (None, x'))) md (ID_String L victim) es =
        Ret (None, es') \<and>
      (evt_RecipientID msg = victim \<longrightarrow> es_SendEvent L deliver es' msg s = deliver stream msg s)) \<and>
    (\<forall>bad err. uuid_Parse L bad = Inl err \<longrightarrow>
       (\<exists>m. GRPCStreamTokenAuthorizationInterceptor (JWTValidator_Validate J pk clock)
          (\<lambda>req x. go_bind (grpc_Connect L req stream x) (\<lambda>x'. Ret (None, x'))) md bad es = Panic m))"
  using assms FromString_String [OF assms(1), of victim]
  by (auto simp: GRPCStreamTokenAuthorizationInterceptor_def authorizeRequest_def grpc_Connect_def
      serve_register_def Let_def es_SendEvent_def FromString_def)

theorem connect_ignores_principal_witness:
  "\<exists>es'. GRPCStreamTokenAuthorizationInterceptor (JWTValidator_Validate ref_jwt () (\<lambda>s. 5))
      (\<lambda>req x. go_bind (grpc_Connect ref_uuid req (300::nat) x) (\<lambda>x'. Ret (None, x')))
      (Some (\<lambda>k. [''tok''])) (ID_String ref_uuid (ID 9)) ref_server = Ret (None, es') \<and>
    p_ID (c_Principal ref_claims) = ID 7"
proof -
  have "strip_bearer ''tok'' = ''tok''" by code_simp
  then have valid: "JWTValidator_Validate ref_jwt () (\<lambda>s. 5) (strip_bearer ''tok'') ref_server =
      Inr \<lparr>p_ID = ID 7, p_UserName = ''bob''\<rparr>"
    by (simp add: JWTValidator_Validate_def ref_jwt_def jwt_unexpired_def ref_claims_def Second_eq)
  show ?thesis
    using connect_ignores_principal [where get = "\<lambda>k. [''tok'']" and stream = 300 and victim = "ID 9" and
        deliver = "\<lambda>c m s. (None, s)" and s = "()", OF ref_uuid_laws refl refl valid, THEN conjunct1]
    by (simp add: ref_claims_def) blast
qed

end
