(* ===== verification/EtcdLease.thy ===== *)
theory EtcdLease
  imports Errors
begin

text \<open>
  \<open>src/pkg/etcd/lease.go\<close>: a client of etcd that holds one lease. \<open>Start\<close> takes the lease and
  starts a goroutine (a \<open>keeper\<close>) that keeps it alive until \<open>Close\<close> is called or the client
  library gives up on it; then the keeper revokes the lease and closes \<open>leaseLostCh\<close>. The mutex
  makes \<open>Start\<close> and the first half of \<open>invalidateLease\<close> atomic; every other access is a step of its
  own, so that all interleavings are covered. The etcd server and its client library are a
  parameter: a record of calls over an abstract server state \<open>'e\<close>, with laws over a view of it.
\<close>

section \<open>The etcd client library\<close>

datatype etcd_event = EvPut (ev_key: string) string | EvDelete (ev_key: string)

record 'e etcd_lib =
  lib_Grant :: "int \<Rightarrow> 'e \<Rightarrow> int result \<times> 'e"
  lib_KeepAlive :: "int \<Rightarrow> 'e \<Rightarrow> go_error option \<times> 'e"
  lib_Revoke :: "int \<Rightarrow> 'e \<Rightarrow> go_error option \<times> 'e"
  lib_Put :: "string \<Rightarrow> string \<Rightarrow> int \<Rightarrow> 'e \<Rightarrow> go_error option \<times> 'e"

text \<open>
  What a server holds: the history of its key space (the revision is its length), the leases that
  have ended, and which lease a key is attached to.
\<close>

record etcd_view =
  ev_log :: "etcd_event list"
  ev_dead :: "int set"
  ev_attached :: "string \<rightharpoonup> int"

fun kv_apply :: "etcd_event \<Rightarrow> (string \<rightharpoonup> string) \<Rightarrow> string \<rightharpoonup> string" where
  "kv_apply (EvPut k v) m = m(k \<mapsto> v)"
| "kv_apply (EvDelete k) m = m(k := None)"

definition kv_after :: "etcd_event list \<Rightarrow> string \<rightharpoonup> string" where
  "kv_after evs = fold kv_apply evs Map.empty"

lemma kv_after_snoc: "kv_after (evs @ [e]) = kv_apply e (kv_after evs)"
  by (simp add: kv_after_def)

text \<open>
  The documented behaviour the code relies on: a granted lease is a fresh one, and leases do not
  touch the keys; a put with a lease appends the event and attaches the key, or fails, and then it
  may still have been applied (a lost answer); revoking a lease ends it and deletes its
  keys, and revoking a lease that has ended is refused (\<open>ErrLeaseNotFound\<close>). Between the calls
  the server moves by \<open>env\<close>, which only adds to the history and never revives a lease.
\<close>

definition etcd_laws :: "'e etcd_lib \<Rightarrow> ('e \<Rightarrow> etcd_view) \<Rightarrow> ('e \<Rightarrow> 'e \<Rightarrow> bool) \<Rightarrow> bool" where
  "etcd_laws E view env \<longleftrightarrow>
     (\<forall>ttl e l e'. lib_Grant E ttl e = (Inr l, e') \<longrightarrow> l \<notin> ev_dead (view e')) \<and>
     (\<forall>ttl e. env e (snd (lib_Grant E ttl e)) \<and>
        ev_log (view (snd (lib_Grant E ttl e))) = ev_log (view e)) \<and>
     (\<forall>l e. env e (snd (lib_KeepAlive E l e)) \<and>
        ev_log (view (snd (lib_KeepAlive E l e))) = ev_log (view e)) \<and>
     (\<forall>k v l e e'. lib_Put E k v l e = (None, e') \<longrightarrow>
        l \<notin> ev_dead (view e) \<and> ev_dead (view e') = ev_dead (view e) \<and>
        ev_log (view e') = ev_log (view e) @ [EvPut k v] \<and>
        ev_attached (view e') = (ev_attached (view e))(k \<mapsto> l)) \<and>
     (\<forall>k v l e. env e (snd (lib_Put E k v l e)) \<and>
        ev_log (view (snd (lib_Put E k v l e))) \<in> {ev_log (view e), ev_log (view e) @ [EvPut k v]}) \<and>
     (\<forall>l e e'. lib_Revoke E l e = (None, e') \<longrightarrow>
        l \<in> ev_dead (view e') \<and>
        (\<forall>k. ev_attached (view e) k = Some l \<longrightarrow> kv_after (ev_log (view e')) k = None)) \<and>
     (\<forall>l e. l \<in> ev_dead (view e) \<longrightarrow> fst (lib_Revoke E l e) \<noteq> None) \<and>
     (\<forall>l e. env e (snd (lib_Revoke E l e))) \<and>
     (\<forall>e e'. env e e' \<longrightarrow> ev_dead (view e) \<subseteq> ev_dead (view e') \<and>
        (\<exists>evs. ev_log (view e') = ev_log (view e) @ evs))"

lemma etcd_lawsD:
  assumes "etcd_laws E view env"
  shows "lib_Grant E ttl e = (Inr l, e') \<Longrightarrow> l \<notin> ev_dead (view e')"
    and "lib_Put E k v l e = (None, e') \<Longrightarrow> l \<notin> ev_dead (view e)"
    and "lib_Put E k v l e = (None, e') \<Longrightarrow> ev_log (view e') = ev_log (view e) @ [EvPut k v]"
    and "lib_Put E k v l e = (None, e') \<Longrightarrow> ev_attached (view e') = (ev_attached (view e))(k \<mapsto> l)"
    and "lib_Revoke E l e = (None, e') \<Longrightarrow> l \<in> ev_dead (view e')"
    and "lib_Revoke E l e = (None, e') \<Longrightarrow> ev_attached (view e) k = Some l \<Longrightarrow>
      kv_after (ev_log (view e')) k = None"
    and "l \<in> ev_dead (view e) \<Longrightarrow> lib_Revoke E l e \<noteq> (None, e')"
    and "env e e' \<Longrightarrow> ev_dead (view e) \<subseteq> ev_dead (view e')"
    and "ev_dead (view e) \<subseteq> ev_dead (view (snd (lib_Revoke E l e)))"
    and "ev_dead (view e) \<subseteq> ev_dead (view (snd (lib_Put E k v l e)))"
    and "ev_dead (view e) \<subseteq> ev_dead (view (snd (lib_KeepAlive E l e)))"
    and "ev_log (view (snd (lib_Grant E ttl e))) = ev_log (view e)"
    and "ev_log (view (snd (lib_KeepAlive E l e))) = ev_log (view e)"
    and "ev_log (view (snd (lib_Put E k v l e))) \<in> {ev_log (view e), ev_log (view e) @ [EvPut k v]}"
  using assms unfolding etcd_laws_def by (blast | metis fst_conv)+

section \<open>The state\<close>

text \<open>
  \<open>leaseLost\<close> and \<open>lc_closed\<close> say whether \<open>leaseLostCh\<close> and \<open>closeCh\<close> are closed. A keeper is at the
  \<open>select\<close> of \<open>keepAlive\<close>, at the lock of \<open>invalidateLease\<close>, at its call of \<open>Revoke\<close>, at its
  \<open>close(c.leaseLostCh)\<close>, or has returned. \<open>closer\<close> is the caller of \<open>Close\<close>.
\<close>

datatype keeper_pc = AtWait | AtLock | AtRevoke | AtNotify | KeeperReturned

datatype closer_pc = NotCalled | AwaitingRevocation | CloseReturned "go_error option"

record LeasedClient =
  leaseTTL :: duration
  leaseID :: int
  leaseOK :: bool
  leaseLost :: bool
  lc_closed :: bool
  keepers :: "keeper_pc list"
  closer :: closer_pc

definition NewLeasedClient :: "duration \<Rightarrow> LeasedClient" where
  "NewLeasedClient ttl =
     \<lparr>leaseTTL = ttl, leaseID = 0, leaseOK = False, leaseLost = False, lc_closed = False,
      keepers = [], closer = NotCalled\<rparr>"

text \<open>
  \<open>int64(c.leaseTTL.Seconds())\<close> goes through a float; the truncated quotient is its value for
  every duration below forty days and every whole number of seconds.
\<close>

definition lc_Start :: "'e etcd_lib \<Rightarrow> LeasedClient \<Rightarrow> 'e \<Rightarrow> go_error option \<times> LeasedClient \<times> 'e" where
  "lc_Start E c e =
     (case lib_Grant E (quot_i64 (leaseTTL c) Second) e of
        (Inl err, e1) \<Rightarrow> (Some (Wrapped ''granting lease'' err), c, e1)
      | (Inr l, e1) \<Rightarrow>
          let c1 = c\<lparr>leaseID := l\<rparr> in
          (case lib_KeepAlive E l e1 of
             (Some err, e2) \<Rightarrow> (Some (Wrapped ''keeping lease alive'' err), c1, e2)
           | (None, e2) \<Rightarrow> (None, c1\<lparr>leaseOK := True, keepers := keepers c1 @ [AtWait]\<rparr>, e2)))"

definition invalidate_lock :: "LeasedClient \<Rightarrow> go_error option \<times> LeasedClient" where
  "invalidate_lock c =
     (if \<not> leaseOK c then (Some (Opaque ''invalidating lease which is not valid''), c)
      else (None, c\<lparr>leaseOK := False\<rparr>))"

definition invalidate_revoke :: "'e etcd_lib \<Rightarrow> LeasedClient \<Rightarrow> 'e \<Rightarrow> go_error option \<times> 'e" where
  "invalidate_revoke E c e =
     (case lib_Revoke E (leaseID c) e of
        (Some err, e') \<Rightarrow> (Some (Wrapped ''revoking lease'' err), e')
      | (None, e') \<Rightarrow> (None, e'))"

definition invalidate_notify :: "LeasedClient \<Rightarrow> LeasedClient go" where
  "invalidate_notify c =
     (if leaseLost c then Panic ''close of closed channel'' else Ret (c\<lparr>leaseLost := True\<rparr>))"

text \<open>The three parts in one, as a caller that is not interrupted sees it.\<close>

definition invalidateLease ::
  "'e etcd_lib \<Rightarrow> LeasedClient \<Rightarrow> 'e \<Rightarrow> (go_error option \<times> LeasedClient \<times> 'e) go" where
  "invalidateLease E c e =
     (case invalidate_lock c of
        (Some err, c1) \<Rightarrow> Ret (Some err, c1, e)
      | (None, c1) \<Rightarrow>
          (case invalidate_revoke E c1 e of
             (Some err, e1) \<Rightarrow> Ret (Some err, c1, e1)
           | (None, e1) \<Rightarrow> go_bind (invalidate_notify c1) (\<lambda>c2. Ret (None, c2, e1))))"

definition lc_Close_begin :: "LeasedClient \<Rightarrow> LeasedClient go" where
  "lc_Close_begin c =
     (if lc_closed c then Panic ''close of closed channel''
      else Ret (c\<lparr>lc_closed := True, closer := AwaitingRevocation\<rparr>))"

definition lc_Put :: "'e etcd_lib \<Rightarrow> string \<Rightarrow> string \<Rightarrow> LeasedClient \<Rightarrow> 'e \<Rightarrow> go_error option \<times> 'e" where
  "lc_Put E key value c e =
     (case lib_Put E key value (leaseID c) e of
        (Some err, e') \<Rightarrow> (Some err, e')
      | (None, e') \<Rightarrow> (None, e'))"

section \<open>The steps\<close>

definition set_keeper :: "nat \<Rightarrow> keeper_pc \<Rightarrow> LeasedClient \<Rightarrow> LeasedClient" where
  "set_keeper i pc c = c\<lparr>keepers := (keepers c)[i := pc]\<rparr>"

definition at_keeper :: "nat \<Rightarrow> keeper_pc \<Rightarrow> LeasedClient \<Rightarrow> bool" where
  "at_keeper i pc c \<longleftrightarrow> i < length (keepers c) \<and> keepers c ! i = pc"

text \<open>
  A step is taken by the keeper, by a call of \<open>Close\<close> or its wait, by a put or by the server, and leads to the next
  state or to a panic. \<open>wake_close\<close> and \<open>wake_given_up\<close> are the two ways
  out of the \<open>select\<close>; a keep-alive response (\<open>kept_alive\<close>) sends the keeper back to it.
\<close>

datatype lc_action = KeeperStep | CloseCall | CloseWait | PutCall | ServerStep

inductive lc_step ::
  "'e etcd_lib \<Rightarrow> ('e \<Rightarrow> 'e \<Rightarrow> bool) \<Rightarrow> lc_action \<Rightarrow> LeasedClient \<times> 'e \<Rightarrow> (LeasedClient \<times> 'e) go \<Rightarrow> bool"
  for E env where
  lc_kept_alive: "at_keeper i AtWait c \<Longrightarrow> lc_step E env KeeperStep (c, e) (Ret (c, e))"
| lc_wake_close: "at_keeper i AtWait c \<Longrightarrow> lc_closed c \<Longrightarrow>
    lc_step E env KeeperStep (c, e) (Ret (set_keeper i AtLock c, e))"
| lc_wake_given_up: "at_keeper i AtWait c \<Longrightarrow> lc_step E env KeeperStep (c, e) (Ret (set_keeper i AtLock c, e))"
| lc_invalidate: "at_keeper i AtLock c \<Longrightarrow> invalidate_lock c = (None, c') \<Longrightarrow>
    lc_step E env KeeperStep (c, e) (Ret (set_keeper i AtRevoke c', e))"
| lc_not_valid: "at_keeper i AtLock c \<Longrightarrow> invalidate_lock c = (Some err, c') \<Longrightarrow>
    lc_step E env KeeperStep (c, e) (Ret (set_keeper i KeeperReturned c', e))"
| lc_revoked: "at_keeper i AtRevoke c \<Longrightarrow> invalidate_revoke E c e = (None, e') \<Longrightarrow>
    lc_step E env KeeperStep (c, e) (Ret (set_keeper i AtNotify c, e'))"
| lc_revoke_failed: "at_keeper i AtRevoke c \<Longrightarrow> invalidate_revoke E c e = (Some err, e') \<Longrightarrow>
    lc_step E env KeeperStep (c, e) (Ret (set_keeper i KeeperReturned c, e'))"
| lc_notify: "at_keeper i AtNotify c \<Longrightarrow>
    lc_step E env KeeperStep (c, e) (go_bind (invalidate_notify c) (\<lambda>c'. Ret (set_keeper i KeeperReturned c', e)))"
| lc_close: "lc_step E env CloseCall (c, e) (go_bind (lc_Close_begin c) (\<lambda>c'. Ret (c', e)))"
| lc_close_ok: "closer c = AwaitingRevocation \<Longrightarrow> leaseLost c \<Longrightarrow>
    lc_step E env CloseWait (c, e) (Ret (c\<lparr>closer := CloseReturned None\<rparr>, e))"
| lc_close_timeout: "closer c = AwaitingRevocation \<Longrightarrow>
    lc_step E env CloseWait (c, e) (Ret (c\<lparr>closer :=
      CloseReturned (Some (Opaque ''timed out waiting for the lease to be revoked''))\<rparr>, e))"
| lc_put: "lc_Put E k v c e = (err, e') \<Longrightarrow> lc_step E env PutCall (c, e) (Ret (c, e'))"
| lc_env: "env e e' \<Longrightarrow> lc_step E env ServerStep (c, e) (Ret (c, e'))"

text \<open>The states of a client that has been started once, as the membership manager does.\<close>

inductive lc_reachable ::
  "'e etcd_lib \<Rightarrow> ('e \<Rightarrow> 'e \<Rightarrow> bool) \<Rightarrow> LeasedClient \<times> 'e \<Rightarrow> LeasedClient \<times> 'e \<Rightarrow> bool" for E env x where
  lc_refl: "lc_reachable E env x x"
| lc_trans: "lc_reachable E env x y \<Longrightarrow> lc_step E env a y (Ret z) \<Longrightarrow> lc_reachable E env x z"

definition lc_started :: "'e etcd_lib \<Rightarrow> ('e \<Rightarrow> 'e \<Rightarrow> bool) \<Rightarrow> duration \<Rightarrow> LeasedClient \<times> 'e \<Rightarrow> bool" where
  "lc_started E env ttl x \<longleftrightarrow>
     (\<exists>e c1 e1. lc_Start E (NewLeasedClient ttl) e = (None, c1, e1) \<and> lc_reachable E env (c1, e1) x)"

text \<open>The same with the steps that were taken.\<close>

inductive lc_run ::
  "'e etcd_lib \<Rightarrow> ('e \<Rightarrow> 'e \<Rightarrow> bool) \<Rightarrow> lc_action list \<Rightarrow> LeasedClient \<times> 'e \<Rightarrow> LeasedClient \<times> 'e \<Rightarrow> bool" for E env where
  lc_run_none: "lc_run E env [] x x"
| lc_run_step: "lc_run E env as x y \<Longrightarrow> lc_step E env a y (Ret z) \<Longrightarrow> lc_run E env (as @ [a]) x z"

inductive_cases lc_stepE: "lc_step E env a (c, e) y"


section \<open>Invariants\<close>

text \<open>One keeper; the lease counts as valid until it takes the lock; \<open>Close\<close> returns nil only after
  the notification.\<close>

definition lc_inv :: "LeasedClient \<Rightarrow> bool" where
  "lc_inv c \<longleftrightarrow> length (keepers c) = 1 \<and>
     (keepers c ! 0 \<in> {AtWait, AtLock} \<longrightarrow> leaseOK c \<and> \<not> leaseLost c) \<and>
     (keepers c ! 0 \<in> {AtRevoke, AtNotify} \<longrightarrow> \<not> leaseOK c \<and> \<not> leaseLost c) \<and>
     (keepers c ! 0 = KeeperReturned \<longrightarrow> \<not> leaseOK c) \<and>
     (closer c = NotCalled \<longleftrightarrow> \<not> lc_closed c) \<and>
     (closer c = CloseReturned None \<longrightarrow> leaseLost c)"

lemma lc_inv_start: "lc_Start E (NewLeasedClient ttl) e = (None, c1, e1) \<Longrightarrow> lc_inv c1"
  by (auto simp: lc_Start_def NewLeasedClient_def lc_inv_def Let_def split: prod.splits sum.splits option.splits)

lemmas lc_ops = at_keeper_def set_keeper_def invalidate_lock_def invalidate_notify_def lc_Close_begin_def

lemma lc_inv_step: "lc_step E env a (c, e) (Ret (c', e')) \<Longrightarrow> lc_inv c \<Longrightarrow> lc_inv c'"
  by (erule lc_stepE) (auto simp: lc_ops lc_inv_def split: if_splits)

text \<open>Only a call of \<open>Close\<close> can panic, and only when the channel is closed.\<close>

lemma lc_step_outcome:
  "lc_step E env a (c, e) y \<Longrightarrow> lc_inv c \<Longrightarrow> (\<exists>z. y = Ret z) \<longleftrightarrow> \<not> (a = CloseCall \<and> lc_closed c)"
  by (erule lc_stepE) (auto simp: lc_ops lc_inv_def split: if_splits)

lemma lc_step_panic:
  "lc_step E env a (c, e) y \<Longrightarrow> (\<exists>z. y = Ret z) \<or> y = Panic ''close of closed channel''"
  by (erule lc_stepE) (auto simp: lc_ops split: if_splits)

text \<open>The channel is closed by the calls of \<open>Close\<close>.\<close>

lemma lc_closed_step: "lc_step E env a (c, e) (Ret (c', e')) \<Longrightarrow> lc_closed c' \<longleftrightarrow> lc_closed c \<or> a = CloseCall"
  by (erule lc_stepE) (auto simp: lc_ops split: if_splits)

lemma lc_run_facts:
  "lc_run E env as x y \<Longrightarrow> lc_inv (fst x) \<Longrightarrow> \<not> lc_closed (fst x) \<Longrightarrow>
     lc_inv (fst y) \<and> (lc_closed (fst y) \<longleftrightarrow> CloseCall \<in> set as)"
proof (induction rule: lc_run.induct)
  case (lc_run_step as x y a z)
  then show ?case
    using lc_inv_step [of E env a "fst y" "snd y" "fst z" "snd z"]
      lc_closed_step [of E env a "fst y" "snd y" "fst z" "snd z"] by auto
qed simp

lemma lc_leaseID_step: "lc_step E env a (c, e) (Ret (c', e')) \<Longrightarrow> leaseID c' = leaseID c"
  by (erule lc_stepE) (auto simp: lc_ops split: if_splits)

lemma lc_reachable_inv:
  "lc_reachable E env x y \<Longrightarrow> lc_inv (fst x) \<Longrightarrow> lc_inv (fst y) \<and> leaseID (fst y) = leaseID (fst x)"
proof (induction rule: lc_reachable.induct)
  case (lc_trans y a z)
  then show ?case
    using lc_inv_step [of E env a "fst y" "snd y" "fst z" "snd z"]
      lc_leaseID_step [of E env a "fst y" "snd y" "fst z" "snd z"] by simp
qed simp

lemma lc_started_inv: "lc_started E env ttl (c, e) \<Longrightarrow> lc_inv c"
  unfolding lc_started_def using lc_inv_start lc_reachable_inv by fastforce

text \<open>What the steps do to the server: leases that have ended stay ended, and a revocation that
  succeeded has ended the client's lease.\<close>

lemma invalidate_revoke_dead:
  assumes "etcd_laws E view env" and "invalidate_revoke E c e = (err, e')"
  shows "ev_dead (view e) \<subseteq> ev_dead (view e')" and "err = None \<Longrightarrow> leaseID c \<in> ev_dead (view e')"
    and "leaseID c \<in> ev_dead (view e) \<Longrightarrow> err \<noteq> None"
  using assms(2) etcd_lawsD(5,7,9) [OF assms(1), where l = "leaseID c" and e = e]
  by (auto simp: invalidate_revoke_def split: prod.splits option.splits)

lemma lc_dead_step:
  assumes "etcd_laws E view env" and "lc_step E env a (c, e) (Ret (c', e'))"
  shows "ev_dead (view e) \<subseteq> ev_dead (view e')"
  using assms(2)
proof cases
  case (lc_put k v err)
  then show ?thesis
    using etcd_lawsD(10) [OF assms(1), of e k v "leaseID c"]
    by (auto simp: lc_Put_def split: prod.splits option.splits)
next
  case lc_env
  then show ?thesis using etcd_lawsD(8) [OF assms(1)] by blast
qed (use invalidate_revoke_dead(1) [OF assms(1)] in \<open>auto simp: lc_ops split: if_splits\<close>)

definition lc_notified_inv :: "('e \<Rightarrow> etcd_view) \<Rightarrow> LeasedClient \<Rightarrow> 'e \<Rightarrow> bool" where
  "lc_notified_inv view c e \<longleftrightarrow>
     (leaseLost c \<or> keepers c ! 0 = AtNotify \<longrightarrow> leaseID c \<in> ev_dead (view e))"

lemma lc_notified_step:
  assumes "etcd_laws E view env" and "lc_step E env a (c, e) (Ret (c', e'))"
    and "lc_inv c" and "lc_notified_inv view c e"
  shows "lc_notified_inv view c' e'"
proof -
  have dead: "ev_dead (view e) \<subseteq> ev_dead (view e')" and id: "leaseID c' = leaseID c"
    using lc_dead_step [OF assms(1,2)] lc_leaseID_step [OF assms(2)] by auto
  from assms(2) have "leaseLost c' \<or> keepers c' ! 0 = AtNotify \<Longrightarrow>
      (leaseLost c \<or> keepers c ! 0 = AtNotify) \<or> leaseID c \<in> ev_dead (view e')"
  proof cases
    case (lc_revoked i)
    then show ?thesis using invalidate_revoke_dead(2) [OF assms(1)] by blast
  qed (use assms(3) in \<open>auto simp: lc_ops lc_inv_def split: if_splits\<close>)
  then show ?thesis
    using assms(4) dead id by (auto simp: lc_notified_inv_def)
qed

lemma lc_started_notified:
  assumes "etcd_laws E view env" and "lc_started E env ttl (c, e)"
  shows "lc_notified_inv view c e"
proof -
  obtain e0 c1 e1 where s: "lc_Start E (NewLeasedClient ttl) e0 = (None, c1, e1)"
    "lc_reachable E env (c1, e1) (c, e)"
    using assms(2) by (auto simp: lc_started_def)
  have "lc_notified_inv view c1 e1"
    using s(1) by (auto simp: lc_Start_def NewLeasedClient_def lc_notified_inv_def Let_def
        split: prod.splits sum.splits option.splits)
  moreover have "lc_reachable E env x y \<Longrightarrow> lc_inv (fst x) \<Longrightarrow> lc_notified_inv view (fst x) (snd x) \<Longrightarrow>
      lc_notified_inv view (fst y) (snd y)" for x y
  proof (induction rule: lc_reachable.induct)
    case (lc_trans y a z)
    then show ?case
      using lc_notified_step [OF assms(1), of a "fst y" "snd y" "fst z" "snd z"]
        lc_reachable_inv [OF lc_trans.hyps(1)] by simp
  qed simp
  ultimately show ?thesis using s(2) lc_inv_start [OF s(1)] by fastforce
qed

text \<open>A keeper whose lease has ended before it could revoke it cannot reach the notification.\<close>

lemma lc_no_notification_step:
  assumes "etcd_laws E view env" and "lc_step E env a (c, e) (Ret (c', e'))" and "lc_inv c"
    and "leaseID c \<in> ev_dead (view e)" and "\<not> leaseLost c" and "keepers c ! 0 \<noteq> AtNotify"
  shows "\<not> leaseLost c' \<and> keepers c' ! 0 \<noteq> AtNotify"
  using assms(2)
proof cases
  case (lc_revoked i)
  then show ?thesis using invalidate_revoke_dead(3) [OF assms(1) _ assms(4)] by blast
qed (use assms(3,5,6) in \<open>auto simp: lc_ops lc_inv_def split: if_splits\<close>)

lemma lc_no_notification:
  assumes "etcd_laws E view env" and "lc_reachable E env x y" and "lc_inv (fst x)"
    and "leaseID (fst x) \<in> ev_dead (view (snd x))" and "\<not> leaseLost (fst x)" and "keepers (fst x) ! 0 \<noteq> AtNotify"
  shows "leaseID (fst y) \<in> ev_dead (view (snd y)) \<and> \<not> leaseLost (fst y) \<and> keepers (fst y) ! 0 \<noteq> AtNotify"
  using assms(2)
proof (induction rule: lc_reachable.induct)
  case lc_refl
  then show ?case using assms by simp
next
  case (lc_trans y a z)
  have step: "lc_step E env a (fst y, snd y) (Ret (fst z, snd z))" using lc_trans.hyps(2) by simp
  have "lc_inv (fst y)" using lc_reachable_inv [OF lc_trans.hyps(1) assms(3)] by simp
  then show ?case
    using lc_no_notification_step [OF assms(1) step] lc_dead_step [OF assms(1) step]
      lc_leaseID_step [OF step] lc_trans.IH by auto
qed


text \<open>\<open>Close\<close> finishes: from any state in which it waits and the keeper has not returned, the keeper
  gets to the notification if the server accepts the revocation.\<close>

lemma at_keeper_0: "lc_inv c \<Longrightarrow> keepers c ! 0 = pc \<Longrightarrow> at_keeper 0 pc c"
  by (simp add: at_keeper_def lc_inv_def)

lemma lc_reachable_step: "lc_step E env a y (Ret z) \<Longrightarrow> lc_reachable E env x y \<Longrightarrow> lc_reachable E env x z"
  by (rule lc_reachable.lc_trans)

lemma Close_run_notify:
  assumes "lc_inv c" and "keepers c ! 0 = AtNotify" and "closer c = AwaitingRevocation"
  shows "\<exists>c'. lc_reachable E env (c, e) (c', e) \<and> closer c' = CloseReturned None"
proof -
  let ?c1 = "set_keeper 0 KeeperReturned (c\<lparr>leaseLost := True\<rparr>)"
  have "lc_step E env KeeperStep (c, e) (Ret (?c1, e))"
    using lc_notify [OF at_keeper_0 [OF assms(1,2)], of E env e] assms by (simp add: lc_ops lc_inv_def)
  moreover have "lc_step E env CloseWait (?c1, e) (Ret (?c1\<lparr>closer := CloseReturned None\<rparr>, e))"
    by (rule lc_close_ok) (simp_all add: set_keeper_def assms)
  ultimately have "lc_reachable E env (c, e) (?c1\<lparr>closer := CloseReturned None\<rparr>, e)"
    by (blast intro: lc_refl lc_reachable_step)
  then show ?thesis by fastforce
qed

lemma lc_reachable_append:
  "lc_reachable E env y z \<Longrightarrow> lc_reachable E env x y \<Longrightarrow> lc_reachable E env x z"
  by (induction rule: lc_reachable.induct) (blast intro: lc_reachable_step)+

lemma Close_run_revoke:
  assumes "lc_inv c" and "keepers c ! 0 = AtRevoke" and "closer c = AwaitingRevocation"
    and "lib_Revoke E (leaseID c) e = (None, e')"
  shows "\<exists>c'. lc_reachable E env (c, e) (c', e') \<and> closer c' = CloseReturned None"
proof -
  let ?c1 = "set_keeper 0 AtNotify c"
  have s: "lc_step E env KeeperStep (c, e) (Ret (?c1, e'))"
    by (rule lc_revoked [OF at_keeper_0 [OF assms(1,2)]]) (simp add: invalidate_revoke_def assms)
  have k: "keepers ?c1 ! 0 = AtNotify" "closer ?c1 = AwaitingRevocation"
    using assms by (simp_all add: set_keeper_def lc_inv_def)
  show ?thesis
    using Close_run_notify [OF lc_inv_step [OF s assms(1)] k, of E env e']
      lc_reachable_append lc_reachable_step [OF s lc_refl] by fast
qed

lemma Close_run_lock:
  assumes "lc_inv c" and "keepers c ! 0 = AtLock" and "closer c = AwaitingRevocation"
    and "lib_Revoke E (leaseID c) e = (None, e')"
  shows "\<exists>c'. lc_reachable E env (c, e) (c', e') \<and> closer c' = CloseReturned None"
proof -
  let ?c1 = "set_keeper 0 AtRevoke (c\<lparr>leaseOK := False\<rparr>)"
  have s: "lc_step E env KeeperStep (c, e) (Ret (?c1, e))"
    by (rule lc_invalidate [OF at_keeper_0 [OF assms(1,2)]])
      (use assms in \<open>simp add: invalidate_lock_def lc_inv_def\<close>)
  have k: "keepers ?c1 ! 0 = AtRevoke" "closer ?c1 = AwaitingRevocation" "leaseID ?c1 = leaseID c"
    using assms by (simp_all add: set_keeper_def lc_inv_def)
  show ?thesis
    using Close_run_revoke [OF lc_inv_step [OF s assms(1)] k(1,2), of E e e' env] k(3) assms(4)
      lc_reachable_append lc_reachable_step [OF s lc_refl] by simp blast
qed

lemma Close_run_wait:
  assumes "lc_inv c" and "keepers c ! 0 = AtWait" and "closer c = AwaitingRevocation"
    and "lib_Revoke E (leaseID c) e = (None, e')"
  shows "\<exists>c'. lc_reachable E env (c, e) (c', e') \<and> closer c' = CloseReturned None"
proof -
  let ?c1 = "set_keeper 0 AtLock c"
  have s: "lc_step E env KeeperStep (c, e) (Ret (?c1, e))"
    by (rule lc_wake_close [OF at_keeper_0 [OF assms(1,2)]]) (use assms in \<open>auto simp: lc_inv_def\<close>)
  have k: "keepers ?c1 ! 0 = AtLock" "closer ?c1 = AwaitingRevocation" "leaseID ?c1 = leaseID c"
    using assms by (simp_all add: set_keeper_def lc_inv_def)
  show ?thesis
    using Close_run_lock [OF lc_inv_step [OF s assms(1)] k(1,2), of E e e' env] k(3) assms(4)
      lc_reachable_append lc_reachable_step [OF s lc_refl] by simp blast
qed

section \<open>A concrete server\<close>

text \<open>A server that counts its leases up and holds the attached keys in a list; it satisfies the
  laws, so they are consistent, and the witnesses run on it.\<close>

record ref_etcd_state =
  re_log :: "etcd_event list"
  re_next :: int
  re_live :: "int list"
  re_attached :: "(string \<times> int) list"

definition ref_etcd_view :: "ref_etcd_state \<Rightarrow> etcd_view" where
  "ref_etcd_view e =
     \<lparr>ev_log = re_log e, ev_dead = {l. l < re_next e \<and> l \<notin> set (re_live e)},
      ev_attached = map_of (re_attached e)\<rparr>"

definition ref_etcd :: "ref_etcd_state etcd_lib" where
  "ref_etcd =
     \<lparr>lib_Grant = (\<lambda>ttl e. (Inr (re_next e), e\<lparr>re_next := re_next e + 1, re_live := re_next e # re_live e\<rparr>)),
      lib_KeepAlive = (\<lambda>l e. (None, e)),
      lib_Revoke = (\<lambda>l e. if l \<in> set (re_live e)
        then (None, e\<lparr>re_log := re_log e @ map (EvDelete \<circ> fst) (filter (\<lambda>(k, l'). l' = l) (re_attached e)),
               re_next := max (re_next e) (l + 1), re_live := removeAll l (re_live e),
               re_attached := filter (\<lambda>(k, l'). l' \<noteq> l) (re_attached e)\<rparr>)
        else (Some (Opaque ''requested lease not found''), e)),
      lib_Put = (\<lambda>k v l e. if l \<in> set (re_live e)
        then (None, e\<lparr>re_log := re_log e @ [EvPut k v], re_attached := (k, l) # re_attached e\<rparr>)
        else (Some (Opaque ''requested lease not found''), e))\<rparr>"

definition ref_env :: "ref_etcd_state \<Rightarrow> ref_etcd_state \<Rightarrow> bool" where
  "ref_env e e' \<longleftrightarrow> ev_dead (ref_etcd_view e) \<subseteq> ev_dead (ref_etcd_view e') \<and>
     (\<exists>evs. re_log e' = re_log e @ evs)"

definition ref_etcd0 :: ref_etcd_state where
  "ref_etcd0 = \<lparr>re_log = [], re_next = 1, re_live = [], re_attached = []\<rparr>"

lemma kv_deletes: "k \<in> set ks \<or> m k = None \<Longrightarrow> fold kv_apply (map EvDelete ks) m k = None"
  by (induction ks arbitrary: m) auto

lemma ref_etcd_laws: "etcd_laws ref_etcd ref_etcd_view ref_env"
proof -
  have "kv_after (re_log e @ map (EvDelete \<circ> fst) (filter (\<lambda>(k, l'). l' = l) (re_attached e))) k = None"
    if "map_of (re_attached e) k = Some l" for e k l
  proof -
    have "k \<in> set (map fst (filter (\<lambda>(k, l'). l' = l) (re_attached e)))"
      using map_of_SomeD [OF that] by force
    then show ?thesis using kv_deletes by (simp add: kv_after_def flip: map_map)
  qed
  then show ?thesis
    by (auto simp: etcd_laws_def ref_etcd_def ref_env_def ref_etcd_view_def split: if_splits)
qed


text \<open>The concrete client right after its start: lease 1 of the concrete server.\<close>

definition ref_client :: LeasedClient where
  "ref_client = \<lparr>leaseTTL = 15 * Second, leaseID = 1, leaseOK = True, leaseLost = False,
     lc_closed = False, keepers = [AtWait], closer = NotCalled\<rparr>"

definition ref_etcd1 :: ref_etcd_state where
  "ref_etcd1 = \<lparr>re_log = [], re_next = 2, re_live = [1], re_attached = []\<rparr>"

lemma ref_start: "lc_Start ref_etcd (NewLeasedClient (15 * Second)) ref_etcd0 = (None, ref_client, ref_etcd1)"
  by (simp add: lc_Start_def NewLeasedClient_def ref_etcd_def ref_etcd0_def ref_client_def ref_etcd1_def)

lemma ref_started: "lc_started ref_etcd ref_env (15 * Second) (ref_client, ref_etcd1)"
  unfolding lc_started_def using ref_start lc_refl by blast

lemma ref_started_step:
  assumes "lc_step ref_etcd ref_env a (ref_client, ref_etcd1) (Ret x)"
  shows "lc_started ref_etcd ref_env (15 * Second) x"
  unfolding lc_started_def using ref_start lc_reachable_step [OF assms lc_refl] by blast

definition ref_closed :: LeasedClient where
  "ref_closed = ref_client\<lparr>lc_closed := True, closer := AwaitingRevocation\<rparr>"

lemma ref_closed_step: "lc_step ref_etcd ref_env CloseCall (ref_client, ref_etcd1) (Ret (ref_closed, ref_etcd1))"
  using lc_close [of ref_etcd ref_env ref_client ref_etcd1]
  by (simp add: lc_Close_begin_def ref_closed_def ref_client_def)

section \<open>Properties\<close>

text \<open>C14: However the keeper, \<open>Close\<close>, puts and the server interleave after one \<open>Start\<close>, no channel is
  closed twice, but for the second of two calls of \<open>Close\<close>: the first call returns to its wait, no step of the
  keeper, of a wait, of a put or of the server ever panics, and every further call of \<open>Close\<close> does.\<close>

theorem lease_client_never_panics:
  assumes "lc_Start E (NewLeasedClient ttl) e0 = (None, c1, e1)" and "lc_run E env as (c1, e1) (c, e)"
    and "lc_step E env a (c, e) y"
  shows "if a = CloseCall \<and> CloseCall \<in> set as then y = Panic ''close of closed channel'' else \<exists>z. y = Ret z"
proof -
  have "\<not> lc_closed c1"
    using assms(1) by (auto simp: lc_Start_def NewLeasedClient_def Let_def split: prod.splits sum.splits option.splits)
  then have "lc_inv c" "lc_closed c \<longleftrightarrow> CloseCall \<in> set as"
    using lc_run_facts [OF assms(2)] lc_inv_start [OF assms(1)] by auto
  then show ?thesis using lc_step_outcome [OF assms(3)] lc_step_panic [OF assms(3)] by auto
qed

theorem lease_client_never_panics_witness:
  "(\<exists>z. go_bind (lc_Close_begin ref_client) (\<lambda>c. Ret (c, ref_etcd1)) = Ret z) \<and>
   go_bind (lc_Close_begin ref_closed) (\<lambda>c. Ret (c, ref_etcd1)) = Panic ''close of closed channel''"
proof -
  have "lc_run ref_etcd ref_env ([] @ [CloseCall]) (ref_client, ref_etcd1) (ref_closed, ref_etcd1)"
    by (rule lc_run_step [OF lc_run_none ref_closed_step])
  from lease_client_never_panics [OF ref_start this lc_close] lease_client_never_panics [OF ref_start lc_run_none lc_close]
  show ?thesis by simp
qed

lemma announced_lease_ended:
  assumes "etcd_laws E view env" and "lc_started E env ttl (c, e)"
    and "leaseLost c \<or> closer c = CloseReturned None"
  shows "leaseID c \<in> ev_dead (view e) \<and> \<not> leaseOK c \<and> (\<forall>k v e'. lc_Put E k v c e \<noteq> (None, e'))"
proof -
  have inv: "lc_inv c" and "lc_notified_inv view c e"
    using lc_started_inv [OF assms(2)] lc_started_notified [OF assms(1,2)] by auto
  then have dead: "leaseID c \<in> ev_dead (view e)" and "leaseLost c"
    using assms(3) by (auto simp: lc_inv_def lc_notified_inv_def)
  moreover have "lc_Put E k v c e \<noteq> (None, e')" for k v e'
    using etcd_lawsD(2) [OF assms(1)] dead by (auto simp: lc_Put_def split: prod.splits option.splits)
  moreover have "\<not> leaseOK c"
    using inv \<open>leaseLost c\<close> by (cases "keepers c ! 0") (auto simp: lc_inv_def)
  ultimately show ?thesis by blast
qed

text \<open>
  When the server has ended the lease on its own, the keeper tries to revoke a lease that no longer exists
  and returns on the error.
\<close>

lemma expired_lease_silent:
  assumes "etcd_laws E view env" and "lc_started E env ttl (c, e)"
    and "leaseID c \<in> ev_dead (view e)" and "keepers c ! 0 \<in> {AtWait, AtLock, AtRevoke}"
    and "lc_reachable E env (c, e) (c', e')"
  shows "\<not> leaseLost c' \<and> closer c' \<noteq> CloseReturned None"
proof -
  have inv: "lc_inv c" using lc_started_inv [OF assms(2)] .
  then have "\<not> leaseLost c" "keepers c ! 0 \<noteq> AtNotify"
    using assms(4) by (auto simp: lc_inv_def)
  then have "\<not> leaseLost c'"
    using lc_no_notification [OF assms(1,5)] inv assms(3) by simp
  moreover have "lc_inv c'" using lc_reachable_inv [OF assms(5)] inv by simp
  ultimately show ?thesis by (auto simp: lc_inv_def)
qed

lemma ref_closed_run:
  "\<exists>c e. lc_started ref_etcd ref_env (15 * Second) (c, e) \<and> closer c = CloseReturned None"
proof -
  have "lib_Revoke ref_etcd (leaseID ref_closed) ref_etcd1 =
      (None, \<lparr>re_log = [], re_next = 2, re_live = [], re_attached = []\<rparr>)"
    by (simp add: ref_etcd_def ref_closed_def ref_client_def ref_etcd1_def)
  moreover have "lc_inv ref_closed" "keepers ref_closed ! 0 = AtWait" "closer ref_closed = AwaitingRevocation"
    by (simp_all add: lc_inv_def ref_closed_def ref_client_def)
  ultimately obtain c e where "lc_reachable ref_etcd ref_env (ref_closed, ref_etcd1) (c, e)"
    "closer c = CloseReturned None" using Close_run_wait by metis
  moreover have "lc_reachable ref_etcd ref_env (ref_client, ref_etcd1) (ref_closed, ref_etcd1)"
    by (rule lc_reachable_step [OF ref_closed_step lc_refl])
  ultimately show ?thesis
    unfolding lc_started_def using ref_start lc_reachable_append by blast
qed

definition ref_expired :: ref_etcd_state where
  "ref_expired = ref_etcd1\<lparr>re_live := []\<rparr>"

lemma ref_expired_started: "lc_started ref_etcd ref_env (15 * Second) (ref_client, ref_expired)"
proof -
  have "ref_env ref_etcd1 ref_expired"
    by (auto simp: ref_env_def ref_etcd_view_def ref_etcd1_def ref_expired_def)
  then show ?thesis by (rule ref_started_step [OF lc_env])
qed

text \<open>C15: When the loss of the lease is announced, and in particular when \<open>Close\<close> returns without an
  error, the server has ended the lease, and no further put of this client succeeds. The doc of \<open>Start\<close>
  says that the channel of \<open>LeaseLostC\<close> tells when the lease is lost. When the server has ended the
  lease on its own (it expired), the channel is never closed: every later state is without a notification,
  and \<open>Close\<close> can only time out.\<close>

theorem announced_lease_has_ended:
  assumes "etcd_laws E view env" and "lc_started E env ttl (c, e)"
  shows "(leaseLost c \<or> closer c = CloseReturned None \<longrightarrow>
      leaseID c \<in> ev_dead (view e) \<and> \<not> leaseOK c \<and> (\<forall>k v e'. lc_Put E k v c e \<noteq> (None, e'))) \<and>
    (leaseID c \<in> ev_dead (view e) \<and> keepers c ! 0 \<in> {AtWait, AtLock, AtRevoke} \<longrightarrow>
      (\<forall>c' e'. lc_reachable E env (c, e) (c', e') \<longrightarrow> \<not> leaseLost c' \<and> closer c' \<noteq> CloseReturned None))"
  using announced_lease_ended [OF assms] expired_lease_silent [OF assms] by blast

theorem announced_lease_has_ended_witness:
  "(\<exists>c e. lc_started ref_etcd ref_env (15 * Second) (c, e) \<and> leaseID c \<in> ev_dead (ref_etcd_view e)) \<and>
   \<not> leaseLost (set_keeper 0 AtLock ref_client)"
proof
  obtain c e where "lc_started ref_etcd ref_env (15 * Second) (c, e)" "closer c = CloseReturned None"
    using ref_closed_run by blast
  then show "\<exists>c e. lc_started ref_etcd ref_env (15 * Second) (c, e) \<and> leaseID c \<in> ev_dead (ref_etcd_view e)"
    using announced_lease_has_ended [OF ref_etcd_laws] by blast
next
  have d: "leaseID ref_client \<in> ev_dead (ref_etcd_view ref_expired)"
    "keepers ref_client ! 0 \<in> {AtWait, AtLock, AtRevoke}" "at_keeper 0 AtWait ref_client"
    by (simp_all add: ref_client_def ref_etcd_view_def ref_expired_def ref_etcd1_def at_keeper_def)
  have "lc_reachable ref_etcd ref_env (ref_client, ref_expired) (set_keeper 0 AtLock ref_client, ref_expired)"
    by (rule lc_reachable_step [OF lc_wake_given_up [OF d(3)] lc_refl])
  from announced_lease_has_ended [OF ref_etcd_laws ref_expired_started, THEN conjunct2, rule_format, OF conjI, OF d(1,2) this]
  show "\<not> leaseLost (set_keeper 0 AtLock ref_client)" by (rule conjunct1)
qed

text \<open>C16: \<open>Close\<close> can always finish: whenever it waits, the notification has not been given, the keeper
  has not given up and the server would accept the revocation, some run ends with \<open>Close\<close> returning
  without an error.\<close>

theorem Close_can_finish:
  assumes "lc_started E env ttl (c, e)" and "closer c = AwaitingRevocation"
    and "\<not> leaseLost c" and "keepers c ! 0 \<noteq> KeeperReturned"
    and "lib_Revoke E (leaseID c) e = (None, e')"
  shows "\<exists>c' e'. lc_reachable E env (c, e) (c', e') \<and> closer c' = CloseReturned None"
proof -
  note inv = lc_started_inv [OF assms(1)]
  show ?thesis
  proof (cases "keepers c ! 0")
    case AtWait
    then show ?thesis using Close_run_wait [OF inv _ assms(2,5)] by blast
  next
    case AtLock
    then show ?thesis using Close_run_lock [OF inv _ assms(2,5)] by blast
  next
    case AtRevoke
    then show ?thesis using Close_run_revoke [OF inv _ assms(2,5)] by blast
  next
    case AtNotify
    then show ?thesis using Close_run_notify [OF inv _ assms(2), of E env e] by blast
  qed (use assms(4) in simp)
qed

theorem Close_can_finish_witness:
  "\<exists>c' e'. lc_reachable ref_etcd ref_env (ref_closed, ref_etcd1) (c', e') \<and> closer c' = CloseReturned None"
proof -
  have "closer ref_closed = AwaitingRevocation" "\<not> leaseLost ref_closed"
    "keepers ref_closed ! 0 \<noteq> KeeperReturned" "1 \<in> set (re_live ref_etcd1)" "leaseID ref_closed = 1"
    by (simp_all add: ref_closed_def ref_client_def ref_etcd1_def)
  moreover from this have "\<exists>e'. lib_Revoke ref_etcd (leaseID ref_closed) ref_etcd1 = (None, e')"
    by (simp add: ref_etcd_def)
  ultimately show ?thesis
    using Close_can_finish [OF ref_started_step [OF ref_closed_step]] by blast
qed

end
