(* ===== verification/Membership.thy ===== *)
theory Membership
  imports Json Rtconn EtcdLease
begin

text \<open>
  \<open>pkg/eventserver/membership\<close>: the cluster of event servers, kept in etcd under one key per server.
  \<open>manager.go\<close> runs in an event server and publishes its addresses with a lease; \<open>registry.go\<close> runs
  in a gateway and holds a replica of those keys, loaded once and then maintained from a watch.
\<close>

section \<open>ServerInfo\<close>

definition eventServersNamespace :: string where "eventServersNamespace = ''/event_servers/''"

definition refreshInfoDuration :: duration where "refreshInfoDuration = 15 * Second"

record ServerInfo =
  srv_ID :: string
  srv_GRPCAddress :: string
  srv_HTTPAddress :: string

definition ServerInfo_tree :: "ServerInfo \<Rightarrow> json" where
  "ServerInfo_tree i =
     JObj [(''id'', json_string (srv_ID i)), (''grpcAddress'', json_string (srv_GRPCAddress i)),
           (''httpAddress'', json_string (srv_HTTPAddress i))]"

definition ServerInfo_Marshall :: "ServerInfo \<Rightarrow> string result" where
  "ServerInfo_Marshall i = Inr (render (ServerInfo_tree i))"

definition ServerInfo_fields :: "(string \<times> ServerInfo field_setter) list" where
  "ServerInfo_fields =
     [(''id'', set_string (\<lambda>s i. i\<lparr>srv_ID := s\<rparr>)),
      (''grpcAddress'', set_string (\<lambda>s i. i\<lparr>srv_GRPCAddress := s\<rparr>)),
      (''httpAddress'', set_string (\<lambda>s i. i\<lparr>srv_HTTPAddress := s\<rparr>))]"

definition zero_ServerInfo :: ServerInfo where
  "zero_ServerInfo = \<lparr>srv_ID = [], srv_GRPCAddress = [], srv_HTTPAddress = []\<rparr>"

definition ServerInfo_Unmarshall :: "string \<Rightarrow> ServerInfo result" where
  "ServerInfo_Unmarshall data = json_Unmarshal ServerInfo_fields zero_ServerInfo data"

definition utf8_ServerInfo :: "ServerInfo \<Rightarrow> bool" where
  "utf8_ServerInfo i \<longleftrightarrow>
     valid_utf8 (srv_ID i) \<and> valid_utf8 (srv_GRPCAddress i) \<and> valid_utf8 (srv_HTTPAddress i)"

lemma ServerInfo_keys: "plain_key ''id''" "plain_key ''grpcAddress''" "plain_key ''httpAddress''"
  by (simp_all add: plain_key_def)

lemma ServerInfo_roundtrip:
  assumes "utf8_ServerInfo i"
  shows "ServerInfo_Unmarshall (render (ServerInfo_tree i)) = Inr i"
proof -
  have "wf_json 0 (ServerInfo_tree i)"
    using ServerInfo_keys [THEN plain_key_scans] by (simp add: ServerInfo_tree_def)
  then have "ServerInfo_Unmarshall (render (ServerInfo_tree i)) =
      decode_struct ServerInfo_fields zero_ServerInfo (ServerInfo_tree i)"
    by (simp add: ServerInfo_Unmarshall_def json_Unmarshal_render)
  with assms show ?thesis
    using ServerInfo_keys [THEN plain_key_unescape]
    by (simp add: ServerInfo_tree_def ServerInfo_fields_def zero_ServerInfo_def find_field_def utf8_ServerInfo_def)
qed

section \<open>manager.go\<close>

text \<open>\<open>mgr_closed\<close>: \<open>closeCh\<close> is closed; \<open>mgr_loops\<close>: how many refresh loops were started.\<close>

record manager =
  mgr_lease :: LeasedClient
  mgr_closed :: bool
  mgr_loops :: nat

definition NewManager :: manager where
  "NewManager = \<lparr>mgr_lease = NewLeasedClient (15 * Second), mgr_closed = False, mgr_loops = 0\<rparr>"

text \<open>\<open>info\<close> is what the caller's \<open>serverInfoFn\<close> returns.\<close>

definition refreshInfo :: "'e etcd_lib \<Rightarrow> LeasedClient \<Rightarrow> ServerInfo result \<Rightarrow> 'e \<Rightarrow> go_error option \<times> 'e" where
  "refreshInfo E lease info e =
     (case info of
        Inl err \<Rightarrow> (Some (Wrapped ''getting server info'' err), e)
      | Inr i \<Rightarrow>
          if srv_ID i = [] then (Some (Opaque ''empty server id provided''), e)
          else (case ServerInfo_Marshall i of
                  Inl err \<Rightarrow> (Some (Wrapped ''marshaling server info'' err), e)
                | Inr infoBytes \<Rightarrow>
                    (case lc_Put E (eventServersNamespace @ srv_ID i) infoBytes lease e of
                       (Some err, e') \<Rightarrow> (Some (Wrapped ''putting key'' err), e')
                     | (None, e') \<Rightarrow> (None, e'))))"

definition JoinCluster ::
  "'e etcd_lib \<Rightarrow> manager \<Rightarrow> ServerInfo result \<Rightarrow> 'e \<Rightarrow> go_error option \<times> manager \<times> 'e" where
  "JoinCluster E mg info e =
     (case lc_Start E (mgr_lease mg) e of
        (Some err, c, e1) \<Rightarrow> (Some (Wrapped ''acquiring lease'' err), mg\<lparr>mgr_lease := c\<rparr>, e1)
      | (None, c, e1) \<Rightarrow>
          (case refreshInfo E c info e1 of
             (Some err, e2) \<Rightarrow> (Some (Wrapped ''joining the cluster'' err), mg\<lparr>mgr_lease := c\<rparr>, e2)
           | (None, e2) \<Rightarrow> (None, mg\<lparr>mgr_lease := c, mgr_loops := Suc (mgr_loops mg)\<rparr>, e2)))"

text \<open>
  The refresh loop, driven by what its \<open>select\<close> receives: a tick (with the answer of
  \<open>serverInfoFn\<close> at that time and the server state \<open>move\<close>d meanwhile), the loss of the lease, or
  the close request.
\<close>

datatype 'e loop_wait = RefreshTick "ServerInfo result" "'e \<Rightarrow> 'e" | LeaseLostReceived | CloseReceived

datatype loop_end = LoopWaiting | LoopClosed

fun refreshInfoLoop ::
  "'e etcd_lib \<Rightarrow> LeasedClient \<Rightarrow> 'e loop_wait list \<Rightarrow> 'e \<Rightarrow> loop_end \<times> 'e" where
  "refreshInfoLoop E lease [] e = (LoopWaiting, e)"
| "refreshInfoLoop E lease (RefreshTick info move # ws) e =
     refreshInfoLoop E lease ws (snd (refreshInfo E lease info (move e)))"
| "refreshInfoLoop E lease (LeaseLostReceived # ws) e = (LoopClosed, e)"
| "refreshInfoLoop E lease (CloseReceived # ws) e = (LoopClosed, e)"

text \<open>\<open>LeaveCluster\<close> up to the point where it waits for the lease client.\<close>

definition LeaveCluster_begin :: "manager \<Rightarrow> manager go" where
  "LeaveCluster_begin mg =
     (if mgr_closed mg then Panic ''close of closed channel''
      else go_bind (lc_Close_begin (mgr_lease mg))
             (\<lambda>c. Ret (mg\<lparr>mgr_closed := True, mgr_lease := c\<rparr>)))"

section \<open>registry.go\<close>

record ServerRegistry =
  reg_servers :: "string \<rightharpoonup> ServerInfo"
  reg_closed :: bool

definition NewServerRegistry :: ServerRegistry where
  "NewServerRegistry = \<lparr>reg_servers = Map.empty, reg_closed = False\<rparr>"

text \<open>The read side of the client library: a prefix read and its revision.\<close>

type_synonym 'e get_prefix = "string \<Rightarrow> 'e \<Rightarrow> ((string \<times> string) list \<times> nat) result"

fun load_servers :: "(string \<times> string) list \<Rightarrow> (string \<rightharpoonup> ServerInfo) \<Rightarrow> go_error option \<times> (string \<rightharpoonup> ServerInfo)" where
  "load_servers [] servers = (None, servers)"
| "load_servers ((k, v) # kvs) servers =
     (case ServerInfo_Unmarshall v of
        Inl err \<Rightarrow> (Some (Wrapped ''unmarshaling server info'' err), servers)
      | Inr info \<Rightarrow> load_servers kvs (servers(srv_ID info \<mapsto> info)))"

text \<open>The last component of the result is the revision from which the watch starts.\<close>

definition registry_Start ::
  "'e get_prefix \<Rightarrow> 'e \<Rightarrow> ServerRegistry \<Rightarrow> (go_error + nat) \<times> ServerRegistry" where
  "registry_Start get e r =
     (case get eventServersNamespace e of
        Inl err \<Rightarrow> (Inl (Wrapped ''getting initial servers'' err), r)
      | Inr (kvs, revision) \<Rightarrow>
          (case load_servers kvs (reg_servers r) of
             (Some err, servers) \<Rightarrow> (Inl err, r\<lparr>reg_servers := servers\<rparr>)
           | (None, servers) \<Rightarrow> (Inr (revision + 1), r\<lparr>reg_servers := servers\<rparr>)))"

definition registry_Resolve :: "string \<Rightarrow> ServerRegistry \<Rightarrow> ServerInfo result" where
  "registry_Resolve serverID r =
     (case reg_servers r serverID of
        None \<Rightarrow> Inl (Opaque ''server not found in the registry'')
      | Some info \<Rightarrow> Inr info)"

text \<open>\<open>order\<close> is the order in which the range visits the keys, \<open>intn\<close> is \<open>rand.Intn\<close>.\<close>

fun select_loop :: "int \<Rightarrow> int \<Rightarrow> ServerInfo list \<Rightarrow> ServerInfo result go" where
  "select_loop num i [] = Panic ''not reachable''"
| "select_loop num i (s # ss) = (if i = num then Ret (Inr s) else select_loop num (i + 1) ss)"

definition SelectServerForConnection ::
  "(int \<Rightarrow> int) \<Rightarrow> string list \<Rightarrow> ServerRegistry \<Rightarrow> ServerInfo result go" where
  "SelectServerForConnection intn order r =
     (if order = [] then Ret (Inl (Opaque ''no servers in the registry''))
      else select_loop (intn (int (length order))) 0 (map (\<lambda>k. the (reg_servers r k)) order))"

text \<open>One event of a watch response. The key of a delete is cut like a Go slice: it panics when the
  key is shorter than the namespace.\<close>

definition handle_event :: "etcd_event \<Rightarrow> ServerRegistry \<Rightarrow> ServerRegistry go" where
  "handle_event ev r =
     (case ev of
        EvPut k v \<Rightarrow>
          (case ServerInfo_Unmarshall v of
             Inl err \<Rightarrow> Ret r
           | Inr info \<Rightarrow> Ret (r\<lparr>reg_servers := (reg_servers r)(srv_ID info \<mapsto> info)\<rparr>))
      | EvDelete k \<Rightarrow>
          go_bind (slice_from (length eventServersNamespace) k)
            (\<lambda>serverID. if reg_servers r serverID = None then Ret r
                        else Ret (r\<lparr>reg_servers := (reg_servers r)(serverID := None)\<rparr>)))"

fun handle_events :: "etcd_event list \<Rightarrow> ServerRegistry \<Rightarrow> ServerRegistry go" where
  "handle_events [] r = Ret r"
| "handle_events (ev # evs) r = go_bind (handle_event ev r) (handle_events evs)"

record watch_response =
  wr_Canceled :: bool
  wr_Err :: "go_error option"
  wr_Events :: "etcd_event list"

text \<open>What the \<open>select\<close> of the loop receives; from a closed channel Go receives the zero value.\<close>

datatype watch_in = CloseSignal | Response watch_response | ChannelClosed

definition zero_response :: watch_response where
  "zero_response = \<lparr>wr_Canceled = False, wr_Err = None, wr_Events = []\<rparr>"

datatype watch_end = Watching | ClosedOnRequest | WatchCancelled | WatchError go_error

definition handle_response :: "watch_response \<Rightarrow> ServerRegistry \<Rightarrow> (watch_end \<times> ServerRegistry) go" where
  "handle_response w r =
     (if wr_Canceled w then Ret (WatchCancelled, r)
      else case wr_Err w of
             Some err \<Rightarrow> Ret (WatchError err, r)
           | None \<Rightarrow> go_bind (handle_events (wr_Events w) r) (\<lambda>r'. Ret (Watching, r')))"

fun watchForUpdates :: "watch_in list \<Rightarrow> ServerRegistry \<Rightarrow> (watch_end \<times> ServerRegistry) go" where
  "watchForUpdates [] r = Ret (Watching, r)"
| "watchForUpdates (CloseSignal # ins) r = Ret (ClosedOnRequest, r)"
| "watchForUpdates (Response w # ins) r =
     go_bind (handle_response w r)
       (\<lambda>(st, r'). if st = Watching then watchForUpdates ins r' else Ret (st, r'))"
| "watchForUpdates (ChannelClosed # ins) r =
     go_bind (handle_response zero_response r)
       (\<lambda>(st, r'). if st = Watching then watchForUpdates ins r' else Ret (st, r'))"

definition registry_Close :: "ServerRegistry \<Rightarrow> ServerRegistry go" where
  "registry_Close r =
     (if reg_closed r then Panic ''close of closed channel'' else Ret (r\<lparr>reg_closed := True\<rparr>))"


section \<open>A replica driven by events\<close>

fun go_fold :: "('ev \<Rightarrow> 'c \<Rightarrow> 'c go) \<Rightarrow> 'ev list \<Rightarrow> 'c \<Rightarrow> 'c go" where
  "go_fold f [] c = Ret c"
| "go_fold f (ev # evs) c = go_bind (f ev c) (go_fold f evs)"

lemma go_fold_append: "go_fold f (xs @ ys) c = go_bind (go_fold f xs c) (go_fold f ys)"
proof (induction xs arbitrary: c)
  case (Cons x xs)
  then show ?case by (cases "f x c") simp_all
qed simp

text \<open>
  The contract of a replica: applying an event to the replica (\<open>step\<close>) keeps it related to the
  original to which the event is applied (\<open>astep\<close>), for the events that are \<open>ok\<close>.
\<close>

locale replica =
  fixes step :: "'ev \<Rightarrow> 'c \<Rightarrow> 'c go" and astep :: "'ev \<Rightarrow> 'a \<Rightarrow> 'a"
    and ok :: "'ev \<Rightarrow> bool" and rel :: "'c \<Rightarrow> 'a \<Rightarrow> bool"
  assumes step_rel: "ok ev \<Longrightarrow> rel c a \<Longrightarrow> \<exists>c'. step ev c = Ret c' \<and> rel c' (astep ev a)"
begin

lemma replay_rel:
  "list_all ok evs \<Longrightarrow> rel c a \<Longrightarrow> \<exists>c'. go_fold step evs c = Ret c' \<and> rel c' (fold astep evs a)"
proof (induction evs arbitrary: c a)
  case (Cons ev evs)
  then obtain c1 where "step ev c = Ret c1" "rel c1 (astep ev a)"
    using step_rel [of ev c a] by auto
  with Cons show ?case by simp
qed simp

lemma replay_twice:
  assumes "list_all ok evs" and "list_all ok evs'" and "rel c a"
  shows "\<exists>c1 c2. go_fold step evs c = Ret c1 \<and> rel c1 (fold astep evs a) \<and>
    go_fold step evs' c1 = Ret c2 \<and> rel c2 (fold astep evs' (fold astep evs a))"
  using replay_rel [OF assms(1,3)] replay_rel [OF assms(2)] by blast

end

section \<open>The registry as a replica of the cluster\<close>

text \<open>What the key space says about the servers, and the events that the managers cause.\<close>

definition registry_abs :: "(string \<rightharpoonup> string) \<Rightarrow> string \<rightharpoonup> ServerInfo" where
  "registry_abs kv serverID =
     (case kv (eventServersNamespace @ serverID) of
        None \<Rightarrow> None
      | Some v \<Rightarrow> (case ServerInfo_Unmarshall v of Inl _ \<Rightarrow> None | Inr info \<Rightarrow> Some info))"

definition in_namespace :: "etcd_event \<Rightarrow> bool" where
  "in_namespace ev \<longleftrightarrow> prefix eventServersNamespace (ev_key ev)"

fun ok_event :: "etcd_event \<Rightarrow> bool" where
  "ok_event (EvPut k v) \<longleftrightarrow>
     (case ServerInfo_Unmarshall v of Inl _ \<Rightarrow> False | Inr info \<Rightarrow> k = eventServersNamespace @ srv_ID info)"
| "ok_event (EvDelete k) \<longleftrightarrow> prefix eventServersNamespace k"

definition caught_up :: "ServerRegistry \<Rightarrow> (string \<rightharpoonup> string) \<Rightarrow> bool" where
  "caught_up r kv \<longleftrightarrow> reg_servers r = registry_abs kv"

definition cluster_log :: "etcd_event list \<Rightarrow> bool" where
  "cluster_log evs \<longleftrightarrow> (\<forall>ev \<in> set evs. in_namespace ev \<longrightarrow> ok_event ev)"

lemma handle_event_rel:
  "ok_event ev \<Longrightarrow> caught_up r kv \<Longrightarrow> \<exists>r'. handle_event ev r = Ret r' \<and> caught_up r' (kv_apply ev kv)"
proof (cases ev)
  case (EvPut k v)
  assume "ok_event ev" "caught_up r kv"
  with EvPut obtain info where "ServerInfo_Unmarshall v = Inr info" "k = eventServersNamespace @ srv_ID info"
    by (auto split: sum.splits)
  with EvPut \<open>caught_up r kv\<close> show ?thesis
    by (auto simp: handle_event_def caught_up_def registry_abs_def fun_eq_iff)
next
  case (EvDelete k)
  assume "ok_event ev" "caught_up r kv"
  with EvDelete obtain serverID where "k = eventServersNamespace @ serverID" by (auto simp: prefix_def)
  with EvDelete \<open>caught_up r kv\<close> show ?thesis
    by (auto simp: handle_event_def caught_up_def registry_abs_def fun_eq_iff slice_from_def)
qed

interpretation registry: replica handle_event kv_apply ok_event caught_up
  by unfold_locales (rule handle_event_rel)

lemma handle_events_fold: "handle_events evs r = go_fold handle_event evs r"
proof (induction evs arbitrary: r)
  case (Cons ev evs)
  then have "handle_events evs = go_fold handle_event evs" by blast
  then show ?case by simp
qed simp

lemma handle_events_keep: "handle_events evs r = Ret r' \<Longrightarrow> reg_closed r' = reg_closed r"
proof (induction evs arbitrary: r)
  case (Cons ev evs)
  then obtain r1 where "handle_event ev r = Ret r1" "handle_events evs r1 = Ret r'" by auto
  moreover from this(1) have "reg_closed r1 = reg_closed r"
    by (auto simp: handle_event_def split: etcd_event.splits sum.splits if_splits)
  ultimately show ?case using Cons.IH by simp
qed simp

text \<open>Loading the keys is replaying a put for each.\<close>

definition puts :: "(string \<times> string) list \<Rightarrow> etcd_event list" where
  "puts kvs = map (\<lambda>(k, v). EvPut k v) kvs"

lemma load_servers_replay:
  "list_all ok_event (puts kvs) \<Longrightarrow> go_fold handle_event (puts kvs) r = Ret r' \<Longrightarrow>
     load_servers kvs (reg_servers r) = (None, reg_servers r')"
proof (induction kvs arbitrary: r)
  case (Cons kv kvs)
  obtain k v where kv: "kv = (k, v)" by fastforce
  then have ok: "ok_event (EvPut k v)" "list_all ok_event (puts kvs)"
    using Cons.prems(1) by (simp_all add: puts_def)
  obtain info where info: "ServerInfo_Unmarshall v = Inr info"
    using ok(1) by (auto split: sum.splits)
  let ?r = "r\<lparr>reg_servers := (reg_servers r)(srv_ID info \<mapsto> info)\<rparr>"
  have "handle_event (EvPut k v) r = Ret ?r" by (simp add: handle_event_def info)
  then have "go_fold handle_event (puts kvs) ?r = Ret r'"
    using Cons.prems(2) by (simp add: kv puts_def)
  with Cons.IH [OF ok(2) this] show ?case by (simp add: kv info fun_upd_def)
qed (simp add: puts_def)

lemma fold_puts: "distinct (map fst kvs) \<Longrightarrow> fold kv_apply (puts kvs) m k = (case map_of kvs k of None \<Rightarrow> m k | Some v \<Rightarrow> Some v)"
proof (induction kvs arbitrary: m)
  case (Cons kv kvs)
  obtain k' v where kv: "kv = (k', v)" by fastforce
  have "k' \<notin> dom (map_of kvs)" using Cons.prems kv by (simp add: dom_map_of_conv_image_fst)
  with Cons kv show ?case by (auto simp: puts_def split: option.splits)
qed (simp add: puts_def)

text \<open>Events outside the namespace do not matter to the registry.\<close>

lemma fold_namespace:
  "prefix eventServersNamespace k \<Longrightarrow> m k = m' k \<Longrightarrow>
     fold kv_apply (filter in_namespace evs) m k = fold kv_apply evs m' k"
proof (induction evs arbitrary: m m')
  case (Cons ev evs)
  have "kv_apply ev m' k = m' k" if "\<not> in_namespace ev"
    using that Cons.prems(1) by (cases ev) (auto simp: in_namespace_def)
  moreover have "kv_apply ev m k = kv_apply ev m' k"
    using Cons.prems(2) by (cases ev) auto
  moreover note Cons.IH [OF Cons.prems(1), of "kv_apply ev m" "kv_apply ev m'"]
    Cons.IH [OF Cons.prems(1), of m "kv_apply ev m'"]
  ultimately show ?case using Cons.prems(2) by auto
qed simp

lemma registry_abs_cong:
  "(\<And>k. prefix eventServersNamespace k \<Longrightarrow> kv k = kv' k) \<Longrightarrow> registry_abs kv = registry_abs kv'"
  by (simp add: registry_abs_def fun_eq_iff)

lemma kv_after_Some: "kv_after evs k = Some v \<Longrightarrow> EvPut k v \<in> set evs"
proof (induction evs rule: rev_induct)
  case (snoc ev evs)
  then show ?case by (cases ev) (auto simp: kv_after_snoc split: if_splits)
qed (simp add: kv_after_def)

lemma cluster_log_filter: "cluster_log evs \<Longrightarrow> list_all ok_event (filter in_namespace evs)"
  by (auto simp: cluster_log_def list_all_iff)

text \<open>What the prefix read of the client library documents.\<close>

definition get_prefix_laws :: "'e get_prefix \<Rightarrow> ('e \<Rightarrow> etcd_view) \<Rightarrow> bool" where
  "get_prefix_laws get view \<longleftrightarrow>
     (\<forall>p e kvs n. get p e = Inr (kvs, n) \<longrightarrow> n = length (ev_log (view e)) \<and> distinct (map fst kvs) \<and>
        (\<forall>k v. (k, v) \<in> set kvs \<longleftrightarrow> prefix p k \<and> kv_after (ev_log (view e)) k = Some v))"

lemma get_prefixD:
  assumes "get_prefix_laws get view" and "get p e = Inr (kvs, n)"
  shows "n = length (ev_log (view e))" and "distinct (map fst kvs)"
    and "(k, v) \<in> set kvs \<longleftrightarrow> prefix p k \<and> kv_after (ev_log (view e)) k = Some v"
  using assms(1) [unfolded get_prefix_laws_def, rule_format, OF assms(2)] by simp_all

lemma registry_Start_caught_up:
  assumes "get_prefix_laws get view" and "get eventServersNamespace e = Inr (kvs, n)"
    and "cluster_log (ev_log (view e))"
  shows "\<exists>r. registry_Start get e NewServerRegistry = (Inr (n + 1), r) \<and>
    caught_up r (kv_after (ev_log (view e)))"
proof -
  note kvs = get_prefixD(2,3) [OF assms(1,2)]
  have "ok_event (EvPut k v)" if "(k, v) \<in> set kvs" for k v
  proof -
    have "prefix eventServersNamespace k" "EvPut k v \<in> set (ev_log (view e))"
      using that kvs(2) kv_after_Some by blast+
    then show ?thesis
      using assms(3) unfolding cluster_log_def in_namespace_def by (metis etcd_event.sel(1))
  qed
  then have ok: "list_all ok_event (puts kvs)" by (auto simp: puts_def list_all_iff)
  have "caught_up NewServerRegistry Map.empty"
    by (simp add: caught_up_def NewServerRegistry_def registry_abs_def fun_eq_iff)
  then obtain r where r: "go_fold handle_event (puts kvs) NewServerRegistry = Ret r"
    "caught_up r (fold kv_apply (puts kvs) Map.empty)"
    using registry.replay_rel [OF ok] by blast
  have "fold kv_apply (puts kvs) Map.empty k = kv_after (ev_log (view e)) k"
    if "prefix eventServersNamespace k" for k
  proof -
    have some: "map_of kvs k = Some v \<longleftrightarrow> kv_after (ev_log (view e)) k = Some v" for v
      using map_of_eq_Some_iff [OF kvs(1), of k v] kvs(2) [of k v] that by simp
    have "map_of kvs k = kv_after (ev_log (view e)) k"
    proof (cases "map_of kvs k")
      case None
      then show ?thesis using some by (metis not_Some_eq)
    next
      case (Some v)
      then show ?thesis using some [of v] by simp
    qed
    moreover have "fold kv_apply (puts kvs) Map.empty k = map_of kvs k"
      using fold_puts [OF kvs(1), of Map.empty k] by (simp split: option.splits)
    ultimately show ?thesis by simp
  qed
  then have "registry_abs (fold kv_apply (puts kvs) Map.empty) = registry_abs (kv_after (ev_log (view e)))"
    by (rule registry_abs_cong)
  with r(2) have abs: "reg_servers r = registry_abs (kv_after (ev_log (view e)))"
    by (simp add: caught_up_def)
  have "load_servers kvs (reg_servers NewServerRegistry) = (None, reg_servers r)"
    by (rule load_servers_replay [OF ok r(1)])
  then have "registry_Start get e NewServerRegistry =
      (Inr (n + 1), NewServerRegistry\<lparr>reg_servers := reg_servers r\<rparr>)"
    using assms(2) by (simp add: registry_Start_def)
  then show ?thesis by (simp add: caught_up_def abs)
qed

text \<open>A batch of responses without cancellation or error is the replay of their events.\<close>

definition plain_response :: "watch_response \<Rightarrow> bool" where
  "plain_response w \<longleftrightarrow> \<not> wr_Canceled w \<and> wr_Err w = None"

lemma watchForUpdates_plain:
  "list_all plain_response ws \<Longrightarrow>
     watchForUpdates (map Response ws) r =
       go_bind (go_fold handle_event (concat (map wr_Events ws)) r) (\<lambda>r'. Ret (Watching, r'))"
proof (induction ws arbitrary: r)
  case (Cons w ws)
  then show ?case
    by (cases "handle_events (wr_Events w) r")
      (simp_all add: plain_response_def handle_response_def handle_events_fold go_fold_append)
qed simp

lemma watch_caught_up:
  assumes "list_all plain_response ws" and "cluster_log evs"
    and "concat (map wr_Events ws) = filter in_namespace evs" and "caught_up r kv"
  shows "\<exists>r'. watchForUpdates (map Response ws) r = Ret (Watching, r') \<and> caught_up r' (fold kv_apply evs kv)"
proof -
  obtain r' where r': "go_fold handle_event (filter in_namespace evs) r = Ret r'"
    "caught_up r' (fold kv_apply (filter in_namespace evs) kv)"
    using registry.replay_rel [OF cluster_log_filter [OF assms(2)] assms(4)] by blast
  have "registry_abs (fold kv_apply (filter in_namespace evs) kv) = registry_abs (fold kv_apply evs kv)"
    by (rule registry_abs_cong) (simp add: fold_namespace)
  with r' watchForUpdates_plain [OF assms(1)] assms(3) show ?thesis
    by (simp add: caught_up_def)
qed


section \<open>What the manager publishes\<close>

lemma lc_Put_None: "lc_Put E k v c e = (None, e') \<longleftrightarrow> lib_Put E k v (leaseID c) e = (None, e')"
  by (auto simp: lc_Put_def split: prod.splits option.splits)

lemma snd_lc_Put: "snd (lc_Put E k v c e) = snd (lib_Put E k v (leaseID c) e)"
  by (auto simp: lc_Put_def split: prod.splits option.splits)

lemma refreshInfo_None:
  "refreshInfo E c info e = (None, e') \<Longrightarrow>
     \<exists>i. info = Inr i \<and> srv_ID i \<noteq> [] \<and>
       lib_Put E (eventServersNamespace @ srv_ID i) (render (ServerInfo_tree i)) (leaseID c) e = (None, e')"
  by (auto simp: refreshInfo_def ServerInfo_Marshall_def lc_Put_None split: sum.splits if_splits prod.splits option.splits)

lemma JoinCluster_None:
  "JoinCluster E mg info e = (None, mg', e') \<Longrightarrow>
     \<exists>c e1. lc_Start E (mgr_lease mg) e = (None, c, e1) \<and> refreshInfo E c info e1 = (None, e') \<and>
       mg' = mg\<lparr>mgr_lease := c, mgr_loops := Suc (mgr_loops mg)\<rparr>"
  by (auto simp: JoinCluster_def split: prod.splits option.splits)

lemma lc_Start_leaseOK: "lc_Start E c e = (None, c', e') \<Longrightarrow> leaseOK c' \<and> leaseLost c' = leaseLost c \<and> lc_closed c' = lc_closed c"
  by (auto simp: lc_Start_def Let_def split: prod.splits sum.splits option.splits)

lemma registry_abs_put:
  "utf8_ServerInfo i \<Longrightarrow>
    registry_abs (kv(eventServersNamespace @ srv_ID i \<mapsto> render (ServerInfo_tree i))) (srv_ID i) = Some i"
  by (simp add: registry_abs_def ServerInfo_roundtrip)

lemma ok_put: "utf8_ServerInfo i \<Longrightarrow> ok_event (EvPut (eventServersNamespace @ srv_ID i) (render (ServerInfo_tree i)))"
  by (simp add: ServerInfo_roundtrip)

definition utf8_answer :: "ServerInfo result \<Rightarrow> bool" where
  "utf8_answer info \<longleftrightarrow> (\<forall>i. info = Inr i \<longrightarrow> utf8_ServerInfo i)"

lemma refreshInfo_cluster_log:
  assumes "etcd_laws E view env" and "utf8_answer info" and "cluster_log (ev_log (view e))"
  shows "cluster_log (ev_log (view (snd (refreshInfo E c info e))))"
proof -
  have "snd (refreshInfo E c info e) = e \<or> (\<exists>i. info = Inr i \<and>
      snd (refreshInfo E c info e) =
        snd (lib_Put E (eventServersNamespace @ srv_ID i) (render (ServerInfo_tree i)) (leaseID c) e))"
    by (auto simp: refreshInfo_def ServerInfo_Marshall_def lc_Put_def split: sum.splits prod.splits option.splits)
  then show ?thesis
  proof
    assume "\<exists>i. info = Inr i \<and> snd (refreshInfo E c info e) =
        snd (lib_Put E (eventServersNamespace @ srv_ID i) (render (ServerInfo_tree i)) (leaseID c) e)"
    then obtain i where i: "utf8_ServerInfo i" "snd (refreshInfo E c info e) =
        snd (lib_Put E (eventServersNamespace @ srv_ID i) (render (ServerInfo_tree i)) (leaseID c) e)"
      using assms(2) by (auto simp: utf8_answer_def)
    then have "ev_log (view (snd (refreshInfo E c info e))) \<in> {ev_log (view e), ev_log (view e) @
        [EvPut (eventServersNamespace @ srv_ID i) (render (ServerInfo_tree i))]}"
      using etcd_lawsD(14) [OF assms(1), where e = e and l = "leaseID c"] by simp
    then show ?thesis
      using ok_put [OF i(1)] assms(3) by (auto simp: cluster_log_def simp del: ok_event.simps)
  qed (use assms(3) in simp)
qed

lemma lc_Start_log: "etcd_laws E view env \<Longrightarrow> ev_log (view (snd (snd (lc_Start E c e)))) = ev_log (view e)"
  using etcd_lawsD(12) [where E = E and view = view and env = env and ttl = "quot_i64 (leaseTTL c) Second" and e = e]
    etcd_lawsD(13) [where E = E and view = view and env = env]
  by (auto simp: lc_Start_def Let_def split: prod.splits sum.splits option.splits) (metis snd_conv)+


lemma JoinCluster_cluster_log:
  assumes "etcd_laws E view env" and "utf8_answer info" and "cluster_log (ev_log (view e))"
  shows "cluster_log (ev_log (view (snd (snd (JoinCluster E mg info e)))))"
proof -
  obtain err c e1 where s: "lc_Start E (mgr_lease mg) e = (err, c, e1)" by (metis surj_pair)
  then have "cluster_log (ev_log (view e1))"
    using lc_Start_log [OF assms(1), of "mgr_lease mg" e] assms(3) by simp
  then show ?thesis
    using refreshInfo_cluster_log [OF assms(1,2), of e1 c] s
    by (auto simp: JoinCluster_def split: prod.splits option.splits)
qed

fun wait_ok :: "('e \<Rightarrow> etcd_view) \<Rightarrow> 'e loop_wait \<Rightarrow> bool" where
  "wait_ok view (RefreshTick info move) \<longleftrightarrow>
     utf8_answer info \<and> (\<forall>e. cluster_log (ev_log (view e)) \<longrightarrow> cluster_log (ev_log (view (move e))))"
| "wait_ok view w \<longleftrightarrow> True"

lemma refreshInfoLoop_cluster_log:
  assumes "etcd_laws E view env"
  shows "list_all (wait_ok view) ws \<Longrightarrow> cluster_log (ev_log (view e)) \<Longrightarrow>
    cluster_log (ev_log (view (snd (refreshInfoLoop E c ws e))))"
proof (induction ws arbitrary: e)
  case (Cons w ws)
  then show ?case
    using refreshInfo_cluster_log [OF assms] by (cases w) simp_all
qed simp

section \<open>Selecting a server\<close>

lemma select_loop_nth:
  "0 \<le> i \<Longrightarrow> i \<le> num \<Longrightarrow> num < i + int (length ss) \<Longrightarrow>
     select_loop num i ss = Ret (Inr (ss ! nat (num - i)))"
proof (induction ss arbitrary: i)
  case (Cons s ss)
  show ?case
  proof (cases "i = num")
    case False
    then have "nat (num - i) = Suc (nat (num - (i + 1)))" using Cons.prems by linarith
    with False Cons show ?thesis by simp
  qed simp
qed simp

lemma SelectServer_nth:
  assumes "order \<noteq> []" and "0 \<le> intn (int (length order))" and "intn (int (length order)) < int (length order)"
  shows "SelectServerForConnection intn order r =
    Ret (Inr (the (reg_servers r (order ! nat (intn (int (length order)))))))"
  using select_loop_nth [of 0 "intn (int (length order))" "map (\<lambda>k. the (reg_servers r k)) order"] assms
  by (simp add: SelectServerForConnection_def nat_less_iff)

section \<open>A concrete read side\<close>

definition ref_get :: "ref_etcd_state get_prefix" where
  "ref_get p e =
     Inr (map (\<lambda>k. (k, the (kv_after (re_log e) k)))
            (filter (\<lambda>k. prefix p k \<and> kv_after (re_log e) k \<noteq> None) (remdups (map ev_key (re_log e)))),
          length (re_log e))"

lemma ref_get_laws: "get_prefix_laws ref_get ref_etcd_view"
proof -
  have "k \<in> ev_key ` set evs" if "kv_after evs k = Some v" for evs k v
    using kv_after_Some [OF that] by force
  moreover have "map (fst \<circ> (\<lambda>k. (k, the (m k)))) ks = ks" for m :: "string \<rightharpoonup> string" and ks
    by (induction ks) simp_all
  ultimately show ?thesis
    by (auto simp: get_prefix_laws_def ref_get_def ref_etcd_view_def)
qed

definition ref_info :: ServerInfo where
  "ref_info = \<lparr>srv_ID = ''es-1'', srv_GRPCAddress = ''10.0.0.1:9000'', srv_HTTPAddress = ''10.0.0.1:8080''\<rparr>"

lemma utf8_ref_info: "utf8_ServerInfo ref_info"
  by (auto simp: utf8_ServerInfo_def ref_info_def intro!: valid_utf8_ascii)

definition ref_put :: etcd_event where
  "ref_put = EvPut (eventServersNamespace @ srv_ID ref_info) (render (ServerInfo_tree ref_info))"

definition ref_joined :: ref_etcd_state where
  "ref_joined = ref_etcd1\<lparr>re_log := [ref_put],
     re_attached := [(eventServersNamespace @ srv_ID ref_info, 1)]\<rparr>"

lemma ref_JoinCluster:
  "JoinCluster ref_etcd NewManager (Inr ref_info) ref_etcd0 =
     (None, \<lparr>mgr_lease = ref_client, mgr_closed = False, mgr_loops = 1\<rparr>, ref_joined)"
proof -
  have "srv_ID ref_info \<noteq> []" by (simp add: ref_info_def)
  then have "refreshInfo ref_etcd ref_client (Inr ref_info) ref_etcd1 = (None, ref_joined)"
    by (simp add: refreshInfo_def ServerInfo_Marshall_def lc_Put_def ref_etcd_def ref_etcd1_def
        ref_client_def ref_joined_def ref_put_def)
  then show ?thesis
    using ref_start by (simp add: JoinCluster_def NewManager_def)
qed

text \<open>
  Events after which the server \<open>i\<close> is still announced: other servers may join, refresh and leave, and
  the key of \<open>i\<close> is only written again with the same addresses, as its own refresh loop does.
\<close>

definition stays_announced :: "ServerInfo \<Rightarrow> etcd_event list \<Rightarrow> bool" where
  "stays_announced i evs \<longleftrightarrow>
     (\<forall>ev \<in> set evs. ev_key ev = eventServersNamespace @ srv_ID i \<longrightarrow>
        ev = EvPut (eventServersNamespace @ srv_ID i) (render (ServerInfo_tree i)))"

lemma stays_announced_kv:
  "stays_announced i evs \<Longrightarrow> kv (eventServersNamespace @ srv_ID i) = Some (render (ServerInfo_tree i)) \<Longrightarrow>
   fold kv_apply evs kv (eventServersNamespace @ srv_ID i) = Some (render (ServerInfo_tree i))"
proof (induction evs arbitrary: kv)
  case (Cons ev evs)
  have "kv_apply ev kv (eventServersNamespace @ srv_ID i) = Some (render (ServerInfo_tree i))"
    using Cons.prems by (cases ev) (auto simp: stays_announced_def)
  moreover have "stays_announced i evs" using Cons.prems(1) by (simp add: stays_announced_def)
  ultimately show ?case using Cons.IH by simp
qed simp

text \<open>A server that has joined, and is still announced, is known to every registry that has caught up.\<close>

lemma joined_resolved:
  assumes "etcd_laws E view env" and "JoinCluster E mg (Inr i) e = (None, mg', e1)" and "utf8_ServerInfo i"
    and "stays_announced i later" and "caught_up r (kv_after (ev_log (view e1) @ later))"
  shows "registry_Resolve (srv_ID i) r = Inr i"
proof -
  obtain c0 e0 where j: "lc_Start E (mgr_lease mg) e = (None, c0, e0)"
    "lib_Put E (eventServersNamespace @ srv_ID i) (render (ServerInfo_tree i)) (leaseID c0) e0 = (None, e1)"
    "mg' = mg\<lparr>mgr_lease := c0, mgr_loops := Suc (mgr_loops mg)\<rparr>"
    using JoinCluster_None [OF assms(2)] refreshInfo_None by (metis sum.inject(2))
  have "kv_after (ev_log (view e1)) (eventServersNamespace @ srv_ID i) = Some (render (ServerInfo_tree i))"
    using etcd_lawsD(3) [OF assms(1) j(2)] by (simp add: kv_after_snoc)
  then have "kv_after (ev_log (view e1) @ later) (eventServersNamespace @ srv_ID i) = Some (render (ServerInfo_tree i))"
    using stays_announced_kv [OF assms(4)] by (simp add: kv_after_def)
  then show ?thesis
    using assms(5) ServerInfo_roundtrip [OF assms(3)] by (simp add: caught_up_def registry_Resolve_def registry_abs_def)
qed

section \<open>Properties\<close>

text \<open>C18: The registry is a replica of the cluster: right after its start it knows exactly the servers
  that the key space holds, and after the responses of its watch, in whatever batches the later
  events arrive, exactly those that the key space holds then, provided every key of the namespace
  was written by a manager.\<close>

theorem registry_tracks_cluster:
  assumes "get_prefix_laws get view" and "get eventServersNamespace e = Inr (kvs, n)"
    and "cluster_log (ev_log (view e) @ later)"
    and "list_all plain_response ws" and "concat (map wr_Events ws) = filter in_namespace later"
  shows "\<exists>r1 r2. registry_Start get e NewServerRegistry = (Inr (length (ev_log (view e)) + 1), r1) \<and>
    reg_servers r1 = registry_abs (kv_after (ev_log (view e))) \<and>
    watchForUpdates (map Response ws) r1 = Ret (Watching, r2) \<and>
    reg_servers r2 = registry_abs (kv_after (ev_log (view e) @ later))"
proof -
  have logs: "cluster_log (ev_log (view e))" "cluster_log later"
    using assms(3) by (auto simp: cluster_log_def)
  obtain r1 where r1: "registry_Start get e NewServerRegistry = (Inr (n + 1), r1)"
    "caught_up r1 (kv_after (ev_log (view e)))"
    using registry_Start_caught_up [OF assms(1,2) logs(1)] by blast
  obtain r2 where "watchForUpdates (map Response ws) r1 = Ret (Watching, r2)"
    "caught_up r2 (fold kv_apply later (kv_after (ev_log (view e))))"
    using watch_caught_up [OF assms(4) logs(2) assms(5) r1(2)] by blast
  with r1 get_prefixD(1) [OF assms(1,2)] show ?thesis
    by (simp add: caught_up_def kv_after_def)
qed

theorem registry_tracks_cluster_witness:
  "\<exists>r1 r2. registry_Start ref_get ref_etcd0 NewServerRegistry = (Inr 1, r1) \<and>
     watchForUpdates (map Response [\<lparr>wr_Canceled = False, wr_Err = None, wr_Events = [ref_put]\<rparr>]) r1 =
       Ret (Watching, r2) \<and>
     reg_servers r2 = registry_abs (kv_after [ref_put])"
proof -
  let ?ws = "[\<lparr>wr_Canceled = False, wr_Err = None, wr_Events = [ref_put]\<rparr>]"
  have log: "ev_log (ref_etcd_view ref_etcd0) = []" by (simp add: ref_etcd_view_def ref_etcd0_def)
  have get: "ref_get eventServersNamespace ref_etcd0 = Inr ([], 0)"
    by (simp add: ref_get_def ref_etcd0_def)
  have put: "ok_event ref_put" "in_namespace ref_put"
    using ok_put [OF utf8_ref_info] by (simp_all add: ref_put_def in_namespace_def)
  then have "cluster_log (ev_log (ref_etcd_view ref_etcd0) @ [ref_put])"
    "list_all plain_response ?ws" "concat (map wr_Events ?ws) = filter in_namespace [ref_put]"
    by (simp_all add: log cluster_log_def plain_response_def)
  from registry_tracks_cluster [OF ref_get_laws get this] show ?thesis
    unfolding log append_Nil list.size add_0 by blast
qed

text \<open>C19: Everything a manager writes keeps the namespace readable for the registries: joining, whatever
  its outcome, and any number of refreshes, successful or not, with other writers of the same kind
  moving in between.\<close>

theorem manager_keeps_cluster_log:
  assumes "etcd_laws E view env" and "cluster_log (ev_log (view e))" and "utf8_answer info"
    and "list_all (wait_ok view) ws" and "cluster_log (ev_log (view e2))"
  shows "cluster_log (ev_log (view (snd (snd (JoinCluster E mg info e))))) \<and>
    cluster_log (ev_log (view (snd (refreshInfoLoop E c ws e2))))"
  using JoinCluster_cluster_log [OF assms(1,3,2)] refreshInfoLoop_cluster_log [OF assms(1,4,5)] by blast

theorem manager_keeps_cluster_log_witness:
  "cluster_log (re_log (snd (refreshInfoLoop ref_etcd ref_client
     [RefreshTick (Inr ref_info) (\<lambda>e. e), RefreshTick (Inl (Opaque ''x'')) (\<lambda>e. e), CloseReceived] ref_joined)))"
proof -
  have w: "list_all (wait_ok ref_etcd_view)
     [RefreshTick (Inr ref_info) (\<lambda>e. e), RefreshTick (Inl (Opaque ''x'')) (\<lambda>e. e), CloseReceived]"
    by (simp add: utf8_answer_def utf8_ref_info)
  have l: "cluster_log (ev_log (ref_etcd_view ref_etcd0))" "cluster_log (ev_log (ref_etcd_view ref_joined))"
    using ok_put [OF utf8_ref_info]
    by (simp_all add: cluster_log_def ref_etcd_view_def ref_etcd0_def ref_joined_def ref_put_def)
  have "utf8_answer (Inr ref_info)" by (simp add: utf8_answer_def utf8_ref_info)
  from manager_keeps_cluster_log [OF ref_etcd_laws l(1) this w l(2), of NewManager ref_client]
  show ?thesis by (simp add: ref_etcd_view_def)
qed

text \<open>C20: A server that has joined is resolved, with the addresses it announced, by every registry that
  has caught up; once its lease has been revoked, as leaving the cluster does, none resolves it.\<close>

theorem joined_until_left:
  assumes "etcd_laws E view env" and "JoinCluster E mg (Inr i) e = (None, mg', e1)" and "utf8_ServerInfo i"
  shows "(\<forall>r. caught_up r (kv_after (ev_log (view e1))) \<longrightarrow> registry_Resolve (srv_ID i) r = Inr i) \<and>
    leaseOK (mgr_lease mg') \<and> mgr_loops mg' = Suc (mgr_loops mg) \<and>
    (\<forall>c e2 r. invalidateLease E (mgr_lease mg') e1 = Ret (None, c, e2) \<longrightarrow>
       caught_up r (kv_after (ev_log (view e2))) \<longrightarrow> (\<exists>err. registry_Resolve (srv_ID i) r = Inl err))"
proof -
  let ?k = "eventServersNamespace @ srv_ID i"
  obtain c0 e0 where j: "lc_Start E (mgr_lease mg) e = (None, c0, e0)"
    "lib_Put E ?k (render (ServerInfo_tree i)) (leaseID c0) e0 = (None, e1)"
    "mg' = mg\<lparr>mgr_lease := c0, mgr_loops := Suc (mgr_loops mg)\<rparr>"
    using JoinCluster_None [OF assms(2)] refreshInfo_None by (metis sum.inject(2))
  have join: "registry_Resolve (srv_ID i) r = Inr i" if "caught_up r (kv_after (ev_log (view e1)))" for r
    using joined_resolved [OF assms, of "[]" r] that by (simp add: stays_announced_def)
  have attached: "ev_attached (view e1) ?k = Some (leaseID c0)"
    using etcd_lawsD(4) [OF assms(1) j(2)] by simp
  have leave: "\<exists>err. registry_Resolve (srv_ID i) r = Inl err"
    if inv: "invalidateLease E c0 e1 = Ret (None, c, e2)" and r: "caught_up r (kv_after (ev_log (view e2)))" for c e2 r
  proof -
    have "lib_Revoke E (leaseID c0) e1 = (None, e2)"
      using inv by (auto simp: invalidateLease_def invalidate_lock_def invalidate_revoke_def
          split: if_splits prod.splits option.splits)
    then have "kv_after (ev_log (view e2)) ?k = None"
      using etcd_lawsD(6) [OF assms(1)] attached by blast
    with r show ?thesis by (simp add: caught_up_def registry_Resolve_def registry_abs_def)
  qed
  from join leave lc_Start_leaseOK [OF j(1)] j(3) show ?thesis by simp
qed

theorem joined_until_left_witness:
  "\<exists>mg' e1. JoinCluster ref_etcd NewManager (Inr ref_info) ref_etcd0 = (None, mg', e1) \<and>
     registry_Resolve ''es-1'' \<lparr>reg_servers = registry_abs (kv_after (re_log e1)), reg_closed = False\<rparr> = Inr ref_info \<and>
     (\<exists>err. registry_Resolve ''es-1''
        \<lparr>reg_servers = registry_abs (kv_after (re_log ref_joined @ [EvDelete (eventServersNamespace @ ''es-1'')])),
         reg_closed = False\<rparr> = Inl err)"
proof -
  let ?e2 = "\<lparr>re_log = re_log ref_joined @ [EvDelete (eventServersNamespace @ ''es-1'')], re_next = 2,
    re_live = [], re_attached = []\<rparr>"
  have "invalidateLease ref_etcd ref_client ref_joined =
      Ret (None, ref_client\<lparr>leaseOK := False, leaseLost := True\<rparr>, ?e2)"
    by (simp add: invalidateLease_def invalidate_lock_def invalidate_revoke_def invalidate_notify_def
        ref_client_def ref_etcd_def ref_joined_def ref_etcd1_def ref_info_def)
  then show ?thesis
    using joined_until_left [OF ref_etcd_laws ref_JoinCluster utf8_ref_info] ref_JoinCluster
    by (simp add: caught_up_def ref_etcd_view_def ref_info_def)
qed

text \<open>C21: Selecting a server for a connection fails exactly when the registry is empty; otherwise it
  returns one of the registered servers, whatever the iteration order of the map, never reaches its
  final panic, and every registered server is the answer for some random number.\<close>

theorem SelectServer_correct:
  assumes "Intn_ok intn" and "range_order (reg_servers r) order"
  shows "(reg_servers r = Map.empty \<longleftrightarrow> (\<exists>err. SelectServerForConnection intn order r = Ret (Inl err))) \<and>
    (reg_servers r \<noteq> Map.empty \<longrightarrow>
       (\<exists>k info. reg_servers r k = Some info \<and> SelectServerForConnection intn order r = Ret (Inr info))) \<and>
    (\<forall>k info. reg_servers r k = Some info \<longrightarrow>
       (\<exists>num. 0 \<le> num \<and> num < int (length order) \<and>
          SelectServerForConnection (\<lambda>_. num) order r = Ret (Inr info)))"
proof -
  have dom: "set order = dom (reg_servers r)" using assms(2) by (simp add: range_order_def)
  have empty: "reg_servers r = Map.empty \<longleftrightarrow> order = []"
    using dom by (cases order) auto
  have some: "\<exists>k info. reg_servers r k = Some info \<and> SelectServerForConnection intn order r = Ret (Inr info)"
    if "order \<noteq> []"
  proof -
    let ?n = "intn (int (length order))"
    have n: "0 \<le> ?n" "?n < int (length order)" using assms(1) that by (simp_all add: Intn_ok_def)
    then have "order ! nat ?n \<in> dom (reg_servers r)"
      using dom by (metis nat_less_iff nth_mem)
    then show ?thesis using SelectServer_nth [of order intn, OF that n] by auto
  qed
  have each: "\<exists>num. 0 \<le> num \<and> num < int (length order) \<and>
      SelectServerForConnection (\<lambda>_. num) order r = Ret (Inr info)" if "reg_servers r k = Some info" for k info
  proof -
    have "k \<in> set order" using that dom by auto
    then obtain j where j: "j < length order" "order ! j = k" by (metis in_set_conv_nth)
    moreover from j have "order \<noteq> []" by auto
    ultimately show ?thesis
      using SelectServer_nth [of order "\<lambda>_. int j" r] that by (intro exI [of _ "int j"]) auto
  qed
  have "\<exists>err. SelectServerForConnection intn order r = Ret (Inl err)" if "order = []"
    using that by (simp add: SelectServerForConnection_def)
  with empty some each show ?thesis by fastforce
qed

theorem SelectServer_correct_witness:
  "\<exists>num. 0 \<le> num \<and> SelectServerForConnection (\<lambda>_. num) [''es-1'']
     \<lparr>reg_servers = [''es-1'' \<mapsto> ref_info], reg_closed = False\<rparr> = Ret (Inr ref_info)"
proof -
  let ?r = "\<lparr>reg_servers = [''es-1'' \<mapsto> ref_info], reg_closed = False\<rparr>"
  have "Intn_ok (\<lambda>_. 0)" "range_order (reg_servers ?r) [''es-1'']"
    by (simp_all add: Intn_ok_def range_order_def)
  moreover have "reg_servers ?r ''es-1'' = Some ref_info" by simp
  ultimately show ?thesis using SelectServer_correct [of "\<lambda>_. 0" ?r "[''es-1'']"] by blast
qed

end
