(* ===== verification/EventRelay.thy ===== *)
theory EventRelay
  imports EventServer Membership
begin

text \<open>
  \<open>gateway/services/event_relay.go\<close> and \<open>pkg/eventserver/client/client.go\<close>: forwarding an event to the
  event server that a user is connected to. The relay asks one directory for the server of the user
  (the connection records in the store) and another for the address of the server (the registry),
  and posts the event there. Both directories are stated as contracts and provided by the models of
  their components; the transport and the protobuf encoder are parameters.
\<close>

section \<open>client.go\<close>

text \<open>\<open>resolveServer\<close> is the pool's \<open>ServerInfoResolver\<close>.\<close>

definition ClientForServer :: "(string \<Rightarrow> 's \<Rightarrow> ServerInfo result) \<Rightarrow> string \<Rightarrow> 's \<Rightarrow> Client result" where
  "ClientForServer resolveServer serverID s =
     (case resolveServer serverID s of
        Inl err \<Rightarrow> Inl (Wrapped ''resolving server info'' err)
      | Inr info \<Rightarrow> Inr (NewClient (srv_HTTPAddress info)))"

definition pool_Close :: "go_error option" where "pool_Close = None"

definition client_Send ::
  "'s http_lib \<Rightarrow> (DirectMessage \<Rightarrow> string result) \<Rightarrow> Client \<Rightarrow> DirectMessage \<Rightarrow> 's \<Rightarrow> go_error option \<times> 's" where
  "client_Send H pbMarshal c event s =
     (case pbMarshal event of
        Inl err \<Rightarrow> (Some (Wrapped ''marshalling event'' err), s)
      | Inr buff \<Rightarrow>
          (case client_Post H c ''/send-event'' buff s of
             (Inl err, s') \<Rightarrow> (Some (Wrapped ''sending HTTP request'' err), s')
           | (Inr resp, s') \<Rightarrow>
               if resp_StatusCode resp \<noteq> 200
               then (Some (Opaque (''received non-200 status code: '' @ show_int (resp_StatusCode resp))), s')
               else (None, s')))"

section \<open>event_relay.go\<close>

definition relay_Forward ::
  "(ID \<Rightarrow> 's \<Rightarrow> ServerInformation result) \<Rightarrow> (string \<Rightarrow> 's \<Rightarrow> ServerInfo result) \<Rightarrow> 's http_lib \<Rightarrow>
    (DirectMessage \<Rightarrow> string result) \<Rightarrow> ID \<Rightarrow> DirectMessage \<Rightarrow> 's \<Rightarrow> go_error option \<times> 's" where
  "relay_Forward resolveUser resolveServer H pbMarshal recipientID event s =
     (case resolveUser recipientID s of
        Inl err \<Rightarrow> (Some (Wrapped ''resolving user server'' err), s)
      | Inr serverInfo \<Rightarrow>
          (case ClientForServer resolveServer (ServerID serverInfo) s of
             Inl err \<Rightarrow> (Some (Wrapped ''resolving client for server'' err), s)
           | Inr client \<Rightarrow>
               (case client_Send H pbMarshal client event s of
                  (Some err, s') \<Rightarrow> (Some (Wrapped ''sending event'' err), s')
                | (None, s') \<Rightarrow> (None, s'))))"

section \<open>The two directories\<close>

text \<open>\<open>connected s u\<close> is the server that holds the connection of the user, \<open>address s sid\<close> what is known
  of a server.\<close>

locale user_directory =
  fixes resolve_user :: "ID \<Rightarrow> 's \<Rightarrow> ServerInformation result" and connected :: "'s \<Rightarrow> ID \<Rightarrow> string option"
  assumes user_found: "connected s u = Some sid \<Longrightarrow> resolve_user u s = Inr \<lparr>ServerID = sid\<rparr>"
    and user_missing: "connected s u = None \<Longrightarrow> \<exists>err. resolve_user u s = Inl err"

locale server_directory =
  fixes resolve_server :: "string \<Rightarrow> 's \<Rightarrow> ServerInfo result" and address :: "'s \<Rightarrow> string \<rightharpoonup> ServerInfo"
  assumes server_found: "address s sid = Some info \<Longrightarrow> resolve_server sid s = Inr info"
    and server_missing: "address s sid = None \<Longrightarrow> \<exists>err. resolve_server sid s = Inl err"

text \<open>The relay over both: it either fails before it sends anything, or posts to the address of the
  server that the user is connected to and reports its answer.\<close>

locale relay_directories = user_directory resolve_user connected + server_directory resolve_server address
  for resolve_user :: "ID \<Rightarrow> 's \<Rightarrow> ServerInformation result" and connected
    and resolve_server :: "string \<Rightarrow> 's \<Rightarrow> ServerInfo result" and address
begin

lemma forward_unknown:
  assumes "\<forall>sid info. connected s u = Some sid \<longrightarrow> address s sid \<noteq> Some info"
  shows "\<exists>err. relay_Forward resolve_user resolve_server H pb u event s = (Some err, s)"
proof (cases "connected s u")
  case None
  then obtain err where "resolve_user u s = Inl err" using user_missing by blast
  then show ?thesis by (simp add: relay_Forward_def)
next
  case (Some sid)
  then have "address s sid = None" using assms by auto
  then obtain err where "resolve_server sid s = Inl err" using server_missing by blast
  with user_found [OF Some] show ?thesis by (simp add: relay_Forward_def ClientForServer_def)
qed

lemma forward_known:
  assumes "connected s u = Some sid" and "address s sid = Some info"
  shows "relay_Forward resolve_user resolve_server H pb u event s =
    (case client_Send H pb \<lparr>baseAddress = srv_HTTPAddress info\<rparr> event s of
       (Some err, s') \<Rightarrow> (Some (Wrapped ''sending event'' err), s') | (None, s') \<Rightarrow> (None, s'))"
  using user_found [OF assms(1)] server_found [OF assms(2)]
  by (simp add: relay_Forward_def ClientForServer_def NewClient_def)

end

text \<open>The providers: the resolver of the connection records, and the registry. The state of the relay
  is split into theirs by projections.\<close>

definition connected_in :: "uuid_lib \<Rightarrow> 'r Store \<Rightarrow> ('s \<Rightarrow> 'r) \<Rightarrow> 's \<Rightarrow> ID \<Rightarrow> string option" where
  "connected_in L st store_of s u =
     (case Store_Get st connectionsNamespace (ID_String L u) (store_of s) of
        Inl _ \<Rightarrow> None
      | Inr data \<Rightarrow> (case ConnectionInfo_Unmarshall data of Inl _ \<Rightarrow> None | Inr i \<Rightarrow> Some (conn_ServerID i)))"

interpretation connections: user_directory
  "\<lambda>u s. ServerResolver_Resolve L st u (store_of s)" "connected_in L st store_of"
  for L st store_of
  by unfold_locales
    (auto simp: connected_in_def ServerResolver_Resolve_def split: sum.splits)

interpretation servers: server_directory
  "\<lambda>sid s. registry_Resolve sid (registry_of s)" "\<lambda>s. reg_servers (registry_of s)"
  for registry_of :: "'s \<Rightarrow> ServerRegistry"
  by unfold_locales (auto simp: registry_Resolve_def)

interpretation relay: relay_directories
  "\<lambda>u s. ServerResolver_Resolve L st u (store_of s)" "connected_in L st store_of"
  "\<lambda>sid s. registry_Resolve sid (registry_of s)" "\<lambda>s. reg_servers (registry_of s)"
  for L st store_of and registry_of :: "'s \<Rightarrow> ServerRegistry"
  by unfold_locales


section \<open>The relay against the event server\<close>

text \<open>
  \<open>reaches H serve mux addr\<close>: a request to the address is served there, without a principal in its
  context; a panicking handler breaks the connection.
\<close>

definition reaches ::
  "'s http_lib \<Rightarrow> (Principal option, 's) dispatch \<Rightarrow> (Principal option, 's) route list \<Rightarrow> string \<Rightarrow> bool" where
  "reaches H serve mux addr \<longleftrightarrow>
     (\<forall>meth path body headers s. lib_NewRequest H meth (''http://'' @ addr @ path) = None \<and>
        lib_Do H meth (''http://'' @ addr @ path) body headers s =
          (case serve mux \<lparr>rq_method = meth, rq_path = path, rq_headers = headers, rq_body = body, rq_ctx = None\<rparr>
                  (fresh_writer, s) of
             Panic m \<Rightarrow> (Inl (Opaque ''EOF''), s)
           | Ret (w, s') \<Rightarrow> (Inr (case w_status w of None \<Rightarrow> StatusOK | Some code \<Rightarrow> code, Inr (w_body w)), s')))"

lemma post_not_found:
  assumes "reaches H serve mux addr" and "dispatch_laws serve" and "\<forall>rt \<in> set mux. rt_path rt \<noteq> path"
  shows "\<exists>body'. client_Post H \<lparr>baseAddress = addr\<rparr> path body s =
    (Inr \<lparr>resp_StatusCode = StatusNotFound, resp_Body = body'\<rparr>, s)"
proof -
  let ?r = "\<lparr>rq_method = MethodPost, rq_path = path, rq_headers = [], rq_body = body, rq_ctx = None\<rparr>"
  have "\<forall>rt \<in> set mux. rt_path rt \<noteq> rq_path ?r" using assms(3) by simp
  then obtain w' where "serve mux ?r (fresh_writer, s) = Ret (w', s)" "w_status w' = Some StatusNotFound"
    using assms(2) unfolding dispatch_laws_def by (metis fresh_writer_def response_writer.select_convs(2))
  then show ?thesis
    using assms(1) unfolding reaches_def
    by (simp add: client_Post_def client_execute_def client_url_def)
qed

lemma client_Send_fails:
  assumes "reaches H serve mux addr" and "dispatch_laws serve" and "\<forall>rt \<in> set mux. rt_path rt \<noteq> ''/send-event''"
  shows "\<exists>err. client_Send H pb \<lparr>baseAddress = addr\<rparr> event s = (Some err, s)"
proof (cases "pb event")
  case (Inr buff)
  then show ?thesis
    using post_not_found [OF assms, of buff s] by (auto simp: client_Send_def StatusNotFound_def)
qed (simp add: client_Send_def)

section \<open>A concrete transport\<close>

definition ref_http ::
  "(Principal option, 's) dispatch \<Rightarrow> (Principal option, 's) route list \<Rightarrow> string \<Rightarrow> 's http_lib" where
  "ref_http serve mux addr =
     \<lparr>lib_NewRequest = (\<lambda>meth url. None),
      lib_Do = (\<lambda>meth url body headers s.
        if prefix (''http://'' @ addr) url
        then (case serve mux \<lparr>rq_method = meth, rq_path = drop (length (''http://'' @ addr)) url,
                   rq_headers = headers, rq_body = body, rq_ctx = None\<rparr> (fresh_writer, s) of
                Panic m \<Rightarrow> (Inl (Opaque ''EOF''), s)
              | Ret (w, s') \<Rightarrow> (Inr (case w_status w of None \<Rightarrow> StatusOK | Some code \<Rightarrow> code, Inr (w_body w)), s'))
        else (Inl (Opaque ''no such host''), s))\<rparr>"

lemma ref_http_reaches: "reaches (ref_http serve mux addr) serve mux addr"
  by (simp add: reaches_def ref_http_def)

section \<open>Properties\<close>

text \<open>C35: The relay never delivers an event: whatever the two directories say, and for every event
  server with the routes that the event server configures, forwarding ends with an error and leaves
  the state of the servers as it was. The client posts to \<open>/send-event\<close>, a path that no route of the
  event server has, and is answered 404.\<close>

theorem relay_never_delivers:
  assumes "dispatch_laws serve"
    and "es_Configure L clock sendEvent record_log metricsMw authMw metricsHandler = Ret mux"
    and "\<forall>sid info. reg_servers (registry_of s) sid = Some info \<longrightarrow> reaches H serve mux (srv_HTTPAddress info)"
  shows "\<exists>err. relay_Forward (\<lambda>u s. ServerResolver_Resolve L st u (store_of s))
    (\<lambda>sid s. registry_Resolve sid (registry_of s)) H pb recipientID event s = (Some err, s)"
proof (cases "\<exists>sid info. connected_in L st store_of s recipientID = Some sid \<and>
    reg_servers (registry_of s) sid = Some info")
  case False
  then show ?thesis
    using relay.forward_unknown [of L st store_of s recipientID registry_of H pb event] by blast
next
  case True
  then obtain sid info where known: "connected_in L st store_of s recipientID = Some sid"
    "reg_servers (registry_of s) sid = Some info" by blast
  have "\<forall>rt \<in> set mux. rt_path rt \<noteq> ''/send-event''"
    using assms(2) by (auto simp: es_Configure_mux)
  then obtain err where "client_Send H pb \<lparr>baseAddress = srv_HTTPAddress info\<rparr> event s = (Some err, s)"
    using client_Send_fails [OF _ assms(1)] assms(3) known(2) by blast
  then show ?thesis
    using relay.forward_known [of L st store_of s recipientID sid registry_of info H pb event] known by simp
qed

definition ref_relay_state :: "ref_server \<times> ServerRegistry" where
  "ref_relay_state =
     ((snd (SetCollectionItemWithTTL ref_redis (NewRedisClient []) connectionsNamespace (ID_String ref_uuid (ID 7))
         (render (JObj [(''serverID'', json_string ''es-1'')])) heartBeatTTL ([], 0))),
      \<lparr>reg_servers = [''es-1'' \<mapsto> ref_info], reg_closed = False\<rparr>)"

theorem relay_never_delivers_witness:
  "\<exists>mux err. es_Configure ref_uuid (\<lambda>s. 0) (\<lambda>e s. (None, s)) (\<lambda>l s. s) (\<lambda>h. h) (HTTPNoopMiddleware 1)
       (\<lambda>r st. Ret st) = Ret mux \<and>
     relay_Forward (\<lambda>u s. ServerResolver_Resolve ref_uuid (redis_Store ref_redis (NewRedisClient [])) u (fst s))
       (\<lambda>sid s. registry_Resolve sid (snd s)) (ref_http ref_serve mux (srv_HTTPAddress ref_info)) (\<lambda>e. Inr [])
       (ID 7) \<lparr>dm_SenderId = [], dm_Message = ''hi''\<rparr> ref_relay_state = (Some err, ref_relay_state)"
proof -
  obtain mux where mux: "es_Configure ref_uuid (\<lambda>s :: ref_server \<times> ServerRegistry. 0) (\<lambda>e s. (None, s)) (\<lambda>l s. s) (\<lambda>h. h)
      (HTTPNoopMiddleware 1) (\<lambda>r st. Ret st) = Ret mux"
    by (simp add: es_Configure_mux)
  have "\<forall>sid info. reg_servers (snd ref_relay_state) sid = Some info \<longrightarrow>
      reaches (ref_http ref_serve mux (srv_HTTPAddress ref_info)) ref_serve mux (srv_HTTPAddress info)"
    using ref_http_reaches by (auto simp: ref_relay_state_def)
  from relay_never_delivers [where registry_of = snd and store_of = fst and
      st = "redis_Store ref_redis (NewRedisClient [])" and s = ref_relay_state and pb = "\<lambda>e. Inr []" and
      recipientID = "ID 7" and event = "\<lparr>dm_SenderId = [], dm_Message = ''hi''\<rparr>", OF ref_serve_laws mux this]
    mux show ?thesis by blast
qed

end
