(* ===== verification/Gateway.thy ===== *)
theory Gateway
  imports ActiveUsers EventRelay
begin

text \<open>
  The HTTP interface of the gateway, \<open>gateway/http/routes.go\<close> and \<open>types.go\<close>: registering, logging in,
  and the authenticated routes (heartbeat, active users, selecting an event server, sending a
  message). The services behind the routes are the models of the other components, put together as
  \<open>StartServices\<close> and \<open>Start\<close> of the gateway do.
\<close>

section \<open>types.go\<close>

record RegistrationRequest =
  rr_Username :: string
  rr_Password :: string

record LoginRequest =
  lr_Username :: string
  lr_Password :: string

record RelayMessageRequest =
  rmr_RecipientID :: ID
  rmr_Message :: string

definition RegistrationRequest_fields :: "(string \<times> RegistrationRequest field_setter) list" where
  "RegistrationRequest_fields =
     [(''username'', set_string (\<lambda>s m. m\<lparr>rr_Username := s\<rparr>)), (''password'', set_string (\<lambda>s m. m\<lparr>rr_Password := s\<rparr>))]"

definition LoginRequest_fields :: "(string \<times> LoginRequest field_setter) list" where
  "LoginRequest_fields =
     [(''username'', set_string (\<lambda>s m. m\<lparr>lr_Username := s\<rparr>)), (''password'', set_string (\<lambda>s m. m\<lparr>lr_Password := s\<rparr>))]"

definition RelayMessageRequest_fields :: "uuid_lib \<Rightarrow> (string \<times> RelayMessageRequest field_setter) list" where
  "RelayMessageRequest_fields L =
     [(''recipientId'', set_custom (ID_UnmarshalJSON L) (\<lambda>i m. m\<lparr>rmr_RecipientID := i\<rparr>)),
      (''message'', set_string (\<lambda>s m. m\<lparr>rmr_Message := s\<rparr>))]"

definition zero_RegistrationRequest :: RegistrationRequest where
  "zero_RegistrationRequest = \<lparr>rr_Username = [], rr_Password = []\<rparr>"
definition zero_LoginRequest :: LoginRequest where
  "zero_LoginRequest = \<lparr>lr_Username = [], lr_Password = []\<rparr>"
definition zero_RelayMessageRequest :: RelayMessageRequest where
  "zero_RelayMessageRequest = \<lparr>rmr_RecipientID = ID 0, rmr_Message = []\<rparr>"

text \<open>The responses; fields marked \<open>omitempty\<close> are left out when empty.\<close>

definition RegistrationResponse :: resp_val where "RegistrationResponse = RespJSON (JObj [])"

definition LoginResponse :: "string \<Rightarrow> resp_val" where
  "LoginResponse token = RespJSON (JObj (if token = [] then [] else [(''token'', json_string token)]))"

definition SelectServerResponse :: "string \<Rightarrow> resp_val" where
  "SelectServerResponse address = RespJSON (JObj [(''address'', json_string address)])"

fun user_trees :: "uuid_lib \<Rightarrow> 't time_lib \<Rightarrow> 't ActiveUser list \<Rightarrow> json list result" where
  "user_trees L T [] = Inr []"
| "user_trees L T (u # us) =
     (case tm_Marshal T (au_LastSeen u) of
        Inl err \<Rightarrow> Inl err
      | Inr t \<Rightarrow> (case user_trees L T us of Inl err \<Rightarrow> Inl err | Inr ts \<Rightarrow> Inr (ActiveUser_tree L u t # ts)))"

definition ActiveUsersResponse :: "uuid_lib \<Rightarrow> 't time_lib \<Rightarrow> 't ActiveUser list \<Rightarrow> resp_val" where
  "ActiveUsersResponse L T users =
     (case user_trees L T users of
        Inl err \<Rightarrow> RespUnencodable err
      | Inr ts \<Rightarrow> RespJSON (JObj [(''activeUsers'', JArr ts)]))"

section \<open>routes.go\<close>

text \<open>The services of the routes, over a state \<open>'s\<close>; \<open>svc_Forward\<close> is None when the interface value of the
  relay is nil.\<close>

record 's gw_services =
  svc_Register :: "string \<Rightarrow> string \<Rightarrow> 's \<Rightarrow> go_error option \<times> 's"
  svc_Login :: "string \<Rightarrow> string \<Rightarrow> 's \<Rightarrow> string result go"
  svc_AuthMiddleware :: "(Principal option, 's) middleware"
  svc_HeartBeat :: "Principal option \<Rightarrow> 's \<Rightarrow> (go_error option \<times> 's) go"
  svc_ActiveUsers :: "'s \<Rightarrow> int ActiveUser list result"
  svc_Select :: "'s \<Rightarrow> ServerInfo result go"
  svc_Forward :: "(ID \<Rightarrow> DirectMessage \<Rightarrow> 's \<Rightarrow> go_error option \<times> 's) option"

definition register_handler :: "'s gw_services \<Rightarrow> (Principal option, 's) json_func" where
  "register_handler svc r st =
     (case st of (w, s) \<Rightarrow>
        case json_Decode RegistrationRequest_fields zero_RegistrationRequest (rq_body r) of
          Inl err \<Rightarrow> Ret (Inl err, w, s)
        | Inr req \<Rightarrow>
            (case svc_Register svc (rr_Username req) (rr_Password req) s of
               (Some err, s') \<Rightarrow> Ret (Inl err, w, s')
             | (None, s') \<Rightarrow> Ret (Inr RegistrationResponse, w, s')))"

definition login_handler :: "'s gw_services \<Rightarrow> (Principal option, 's) json_func" where
  "login_handler svc r st =
     (case st of (w, s) \<Rightarrow>
        case json_Decode LoginRequest_fields zero_LoginRequest (rq_body r) of
          Inl err \<Rightarrow> Ret (Inl err, w, s)
        | Inr req \<Rightarrow>
            go_bind (svc_Login svc (lr_Username req) (lr_Password req) s)
              (\<lambda>res. case res of
                 Inl err \<Rightarrow> Ret (Inl err, w, s)
               | Inr token \<Rightarrow> Ret (Inr (LoginResponse token), w, s)))"

definition heartbeat_handler :: "'s gw_services \<Rightarrow> (Principal option, 's) json_func" where
  "heartbeat_handler svc r st =
     (case st of (w, s) \<Rightarrow>
        go_bind (svc_HeartBeat svc (rq_ctx r) s)
          (\<lambda>res. case res of
             (Some err, s') \<Rightarrow> Ret (Inl (Wrapped ''hearth beating user'' err), w, s')
           | (None, s') \<Rightarrow> Ret (Inr DefaultOKResponse, w, s')))"

definition active_users_handler ::
  "uuid_lib \<Rightarrow> int time_lib \<Rightarrow> 's gw_services \<Rightarrow> (Principal option, 's) json_func" where
  "active_users_handler L T svc r st =
     (case st of (w, s) \<Rightarrow>
        case svc_ActiveUsers svc s of
          Inl err \<Rightarrow> Ret (Inl (Wrapped ''getting active users'' err), w, s)
        | Inr users \<Rightarrow> Ret (Inr (ActiveUsersResponse L T users), w, s))"

definition select_server_handler :: "'s gw_services \<Rightarrow> (Principal option, 's) json_func" where
  "select_server_handler svc r st =
     (case st of (w, s) \<Rightarrow>
        go_bind (svc_Select svc s)
          (\<lambda>res. case res of
             Inl err \<Rightarrow> Ret (Inl (Wrapped ''selecting event server'' err), w, s)
           | Inr server \<Rightarrow>
               go_bind (PrincipalFromContext (rq_ctx r))
                 (\<lambda>_. Ret (Inr (SelectServerResponse (srv_GRPCAddress server)), w, s))))"

definition relay_message_handler :: "uuid_lib \<Rightarrow> 's gw_services \<Rightarrow> (Principal option, 's) json_func" where
  "relay_message_handler L svc r st =
     (case st of (w, s) \<Rightarrow>
        case json_Decode (RelayMessageRequest_fields L) zero_RelayMessageRequest (rq_body r) of
          Inl err \<Rightarrow> Ret (Inl err, w, s)
        | Inr req \<Rightarrow>
            go_bind (PrincipalFromContext (rq_ctx r))
              (\<lambda>p. case svc_Forward svc of
                 None \<Rightarrow> Panic ''runtime error: invalid memory address or nil pointer dereference''
               | Some forward \<Rightarrow>
                   (case forward (rmr_RecipientID req) (NewDirectMessageEvent L (p_ID p) (rmr_Message req)) s of
                      (Some err, s') \<Rightarrow> Ret (Inl (Wrapped ''forwaring real time event'' err), w, s')
                    | (None, s') \<Rightarrow> Ret (Inr DefaultOKResponse, w, s'))))"

definition gw_health :: "(Principal option, 's) json_func" where
  "gw_health r st = (case st of (w, s) \<Rightarrow> Ret (Inr DefaultOKResponse, w, s))"

definition gw_Configure ::
  "uuid_lib \<Rightarrow> int time_lib \<Rightarrow> 's gw_services \<Rightarrow> (log_entry \<Rightarrow> 's \<Rightarrow> 's) \<Rightarrow> (Principal option, 's) middleware \<Rightarrow>
    (Principal option, 's) handler \<Rightarrow> (Principal option, 's) route list go" where
  "gw_Configure L T svc record_log metricsMiddleware metricsHandler =
     (let (raw, mux) = HandleFunc ''/metrics'' [MethodGet] metricsHandler NewRouterBuilder [] in
      go_bind (With [metricsMiddleware, RequestLogger record_log] (SubGroup raw)) (\<lambda>instrumented.
      let (instrumented, mux) = HandleJSONFunc ''/health'' [MethodGet] gw_health instrumented mux;
          (instrumented, mux) = HandleJSONFunc ''/register'' [MethodPost] (register_handler svc) instrumented mux;
          (instrumented, mux) = HandleJSONFunc ''/login'' [MethodPost] (login_handler svc) instrumented mux in
      go_bind (With [svc_AuthMiddleware svc] (SubGroup instrumented)) (\<lambda>authed.
      let (authed, mux) = HandleJSONFunc ''/heartbeat'' [MethodPost] (heartbeat_handler svc) authed mux;
          (authed, mux) = HandleJSONFunc ''/active-users'' [MethodGet] (active_users_handler L T svc) authed mux;
          (authed, mux) = HandleJSONFunc ''/select-server'' [MethodGet] (select_server_handler svc) authed mux;
          (authed, mux) = HandleJSONFunc ''/send-message'' [] (relay_message_handler L svc) authed mux in
      Ret mux)))"

section \<open>The services, put together\<close>

text \<open>The state of the gateway: the users database, the store, the registry of event servers, the clock
  and the request log.\<close>

record ('g, 'r) gw_state =
  gw_db :: 'g
  gw_store :: 'r
  gw_registry :: ServerRegistry
  gw_clock :: int
  gw_log :: "log_entry list"

definition record_log :: "log_entry \<Rightarrow> ('g, 'r) gw_state \<Rightarrow> ('g, 'r) gw_state" where
  "record_log e s = s\<lparr>gw_log := gw_log s @ [e]\<rparr>"

text \<open>\<open>draw\<close> gives the random identifier and salt of a registration, \<open>forward\<close> is the relay.\<close>

definition gw_services_of ::
  "uuid_lib \<Rightarrow> 'g gorm_lib \<Rightarrow> bcrypt_lib \<Rightarrow> int time_lib \<Rightarrow> 'r redis_lib \<Rightarrow> RedisClient \<Rightarrow> ('sk, 'pk) jwt_lib \<Rightarrow>
    'sk \<Rightarrow> 'pk \<Rightarrow> (('g, 'r) gw_state \<Rightarrow> uuid \<times> string) \<Rightarrow> (int \<Rightarrow> int) \<Rightarrow> (ServerRegistry \<Rightarrow> string list) \<Rightarrow>
    (ID \<Rightarrow> DirectMessage \<Rightarrow> ('g, 'r) gw_state \<Rightarrow> go_error option \<times> ('g, 'r) gw_state) \<Rightarrow>
    ('g, 'r) gw_state gw_services" where
  "gw_services_of L G B T R c J sk pk draw intn order forward =
     \<lparr>svc_Register = (\<lambda>name pw s. case draw s of (u, salt) \<Rightarrow>
        (case Register L G B u salt name pw (gw_db s) of (e, g) \<Rightarrow> (e, s\<lparr>gw_db := g\<rparr>))),
      svc_Login = (\<lambda>name pw s. Login L G B (JWTIssuer_Issue J sk (gw_clock s)) name pw (gw_db s)),
      svc_AuthMiddleware = HTTPTokenAuthorizationMiddleware (JWTValidator_Validate J pk gw_clock),
      svc_HeartBeat = (\<lambda>ctx s.
        go_bind (tracker_HeartBeat L T (redis_Store R c) ctx (gw_clock s) (gw_store s))
          (\<lambda>(e, r). Ret (e, s\<lparr>gw_store := r\<rparr>))),
      svc_ActiveUsers = (\<lambda>s. tracker_ActiveUsers L T (redis_Store R c) (gw_store s)),
      svc_Select = (\<lambda>s. SelectServerForConnection intn (order (gw_registry s)) (gw_registry s)),
      svc_Forward = Some forward\<rparr>"

text \<open>\<open>Start\<close> hands the services to the routes one by one, without the relay.\<close>

definition gw_http_services :: "'s gw_services \<Rightarrow> 's gw_services" where
  "gw_http_services svc =
     \<lparr>svc_Register = svc_Register svc, svc_Login = svc_Login svc, svc_AuthMiddleware = svc_AuthMiddleware svc,
      svc_HeartBeat = svc_HeartBeat svc, svc_ActiveUsers = svc_ActiveUsers svc, svc_Select = svc_Select svc,
      svc_Forward = None\<rparr>"

section \<open>The routes\<close>

lemma gw_Configure_mux:
  "gw_Configure L T svc lg mw mh = Ret
     [\<lparr>rt_path = ''/metrics'', rt_methods = [MethodGet], rt_handler = mh\<rparr>,
      \<lparr>rt_path = ''/health'', rt_methods = [MethodGet], rt_handler = RequestLogger lg (mw (json_handler gw_health))\<rparr>,
      \<lparr>rt_path = ''/register'', rt_methods = [MethodPost],
         rt_handler = RequestLogger lg (mw (json_handler (register_handler svc)))\<rparr>,
      \<lparr>rt_path = ''/login'', rt_methods = [MethodPost],
         rt_handler = RequestLogger lg (mw (json_handler (login_handler svc)))\<rparr>,
      \<lparr>rt_path = ''/heartbeat'', rt_methods = [MethodPost],
         rt_handler = svc_AuthMiddleware svc (RequestLogger lg (mw (json_handler (heartbeat_handler svc))))\<rparr>,
      \<lparr>rt_path = ''/active-users'', rt_methods = [MethodGet],
         rt_handler = svc_AuthMiddleware svc (RequestLogger lg (mw (json_handler (active_users_handler L T svc))))\<rparr>,
      \<lparr>rt_path = ''/select-server'', rt_methods = [MethodGet],
         rt_handler = svc_AuthMiddleware svc (RequestLogger lg (mw (json_handler (select_server_handler svc))))\<rparr>,
      \<lparr>rt_path = ''/send-message'', rt_methods = [],
         rt_handler = svc_AuthMiddleware svc (RequestLogger lg (mw (json_handler (relay_message_handler L svc))))\<rparr>]"
  by (simp add: gw_Configure_def HandleFunc_def HandleJSONFunc_def NewRouterBuilder_def SubGroup_def With_def
      wrap_def Let_def)

lemma gw_distinct: "gw_Configure L T svc lg mw mh = Ret mux \<Longrightarrow> distinct (map rt_path mux)"
  by (auto simp: gw_Configure_mux)

text \<open>Which handler serves a request, by its path.\<close>

lemma gw_login_served:
  assumes "gw_Configure L T svc lg mw mh = Ret mux" and "dispatch_laws serve"
    and "rq_path r = ''/login''" and "rq_method r = MethodPost"
  shows "serve mux r = RequestLogger lg (mw (json_handler (login_handler svc))) r"
  using dispatch_distinct [OF assms(2) gw_distinct [OF assms(1)], of
      "\<lparr>rt_path = ''/login'', rt_methods = [MethodPost], rt_handler = RequestLogger lg (mw (json_handler (login_handler svc)))\<rparr>" r]
    assms(1,3,4) by (auto simp: gw_Configure_mux serves_def)

lemma gw_heartbeat_served:
  assumes "gw_Configure L T svc lg mw mh = Ret mux" and "dispatch_laws serve"
    and "rq_path r = ''/heartbeat''" and "rq_method r = MethodPost"
  shows "serve mux r = svc_AuthMiddleware svc (RequestLogger lg (mw (json_handler (heartbeat_handler svc)))) r"
  using dispatch_distinct [OF assms(2) gw_distinct [OF assms(1)], of
      "\<lparr>rt_path = ''/heartbeat'', rt_methods = [MethodPost],
        rt_handler = svc_AuthMiddleware svc (RequestLogger lg (mw (json_handler (heartbeat_handler svc))))\<rparr>" r]
    assms(1,3,4) by (auto simp: gw_Configure_mux serves_def)

lemma gw_send_message_served:
  assumes "gw_Configure L T svc lg mw mh = Ret mux" and "dispatch_laws serve" and "rq_path r = ''/send-message''"
  shows "serve mux r = svc_AuthMiddleware svc (RequestLogger lg (mw (json_handler (relay_message_handler L svc)))) r"
  using dispatch_distinct [OF assms(2) gw_distinct [OF assms(1)], of
      "\<lparr>rt_path = ''/send-message'', rt_methods = [],
        rt_handler = svc_AuthMiddleware svc (RequestLogger lg (mw (json_handler (relay_message_handler L svc))))\<rparr>" r]
    assms(1,3) by (auto simp: gw_Configure_mux serves_def)

section \<open>Handlers behind the middlewares\<close>

lemma fresh_simps [simp]: "w_status fresh_writer = None" "w_calls fresh_writer = []" "w_body fresh_writer = []"
  by (simp_all add: fresh_writer_def)

lemma authenticated:
  assumes "header_Get ''Authorization'' (rq_headers r) \<noteq> []"
    and "validate (strip_bearer (header_Get ''Authorization'' (rq_headers r))) s = Inr p"
  shows "HTTPTokenAuthorizationMiddleware validate h r (w, s) = h (r\<lparr>rq_ctx := Some p\<rparr>) (w, s)"
  using assms by (simp add: HTTPTokenAuthorizationMiddleware_def Let_def ContextWithPrincipal_def)

lemma logged_json:
  "f r (fresh_writer, s) = Ret (Inr v, fresh_writer, s') \<Longrightarrow>
    RequestLogger lg (json_handler f) r (fresh_writer, s) = Ret (RespondWithJSON v fresh_writer,
      lg \<lparr>le_method = rq_method r, le_path = rq_path r, le_status_code = StatusOK\<rparr> s')"
  "f r (fresh_writer, s) = Ret (Inl err, fresh_writer, s') \<Longrightarrow>
    RequestLogger lg (json_handler f) r (fresh_writer, s) = Ret (RespondWithJSONError err fresh_writer,
      lg \<lparr>le_method = rq_method r, le_path = rq_path r, le_status_code = StatusCode (DetermineHTTPError err)\<rparr> s')"
  "f r (fresh_writer, s) = Panic m \<Longrightarrow> RequestLogger lg (json_handler f) r (fresh_writer, s) = Panic m"
  using RespondWithJSON_simps(5) [of fresh_writer v] RespondWithJSONError_simps(5) [of fresh_writer err]
  by (simp_all add: RequestLogger_def json_handler_def captured_def)

text \<open>The bodies that clients send: two string members are read back.\<close>

definition credentials :: "string \<Rightarrow> string \<Rightarrow> json" where
  "credentials name pw = JObj [(''username'', json_string name), (''password'', json_string pw)]"

lemma credentials_keys: "plain_key ''username''" "plain_key ''password''"
  by (simp_all add: plain_key_def)

lemma wf_credentials: "wf_json 0 (credentials name pw)"
  using credentials_keys [THEN plain_key_scans] by (simp add: credentials_def)

lemma decode_credentials:
  assumes "valid_utf8 name" and "valid_utf8 pw"
  shows "json_Decode RegistrationRequest_fields zero_RegistrationRequest (render (credentials name pw)) =
      Inr \<lparr>rr_Username = name, rr_Password = pw\<rparr>"
    and "json_Decode LoginRequest_fields zero_LoginRequest (render (credentials name pw)) =
      Inr \<lparr>lr_Username = name, lr_Password = pw\<rparr>"
  unfolding json_Decode_render [OF wf_credentials]
  using assms credentials_keys [THEN plain_key_unescape]
  by (simp_all add: credentials_def RegistrationRequest_fields_def zero_RegistrationRequest_def
      LoginRequest_fields_def zero_LoginRequest_def find_field_def)

definition credentials_request :: "string \<Rightarrow> string \<Rightarrow> string \<Rightarrow> Principal option request" where
  "credentials_request path name pw =
     \<lparr>rq_method = MethodPost, rq_path = path, rq_headers = [], rq_body = render (credentials name pw), rq_ctx = None\<rparr>"

definition heartbeat_request :: "string \<Rightarrow> Principal option request" where
  "heartbeat_request token =
     \<lparr>rq_method = MethodPost, rq_path = ''/heartbeat'', rq_headers = [(''Authorization'', bearer @ token)],
      rq_body = [], rq_ctx = None\<rparr>"

lemma gw_register_served:
  assumes "gw_Configure L T svc lg mw mh = Ret mux" and "dispatch_laws serve"
    and "rq_path r = ''/register''" and "rq_method r = MethodPost"
  shows "serve mux r = RequestLogger lg (mw (json_handler (register_handler svc))) r"
  using dispatch_distinct [OF assms(2) gw_distinct [OF assms(1)], of
      "\<lparr>rt_path = ''/register'', rt_methods = [MethodPost], rt_handler = RequestLogger lg (mw (json_handler (register_handler svc)))\<rparr>" r]
    assms(1,3,4) by (auto simp: gw_Configure_mux serves_def)

lemma gw_http_services_simps [simp]:
  "svc_Register (gw_http_services svc) = svc_Register svc" "svc_Login (gw_http_services svc) = svc_Login svc"
  "svc_AuthMiddleware (gw_http_services svc) = svc_AuthMiddleware svc"
  "svc_HeartBeat (gw_http_services svc) = svc_HeartBeat svc" "svc_ActiveUsers (gw_http_services svc) = svc_ActiveUsers svc"
  "svc_Select (gw_http_services svc) = svc_Select svc" "svc_Forward (gw_http_services svc) = None"
  by (simp_all add: gw_http_services_def)

text \<open>The steps of a session: registering, logging in, and beating with the token.\<close>

lemma DetermineHTTPError_status: "StatusCode (DetermineHTTPError err) \<in> {400, 401, 500}"
  by (auto simp: DetermineHTTPError_def http_statuses split: option.split)

lemma register_served_ok:
  assumes "gw_Configure L T svc lg (\<lambda>h. h) mh = Ret mux" and "dispatch_laws serve"
    and "valid_utf8 name" and "valid_utf8 pw"
    and "serve mux (credentials_request ''/register'' name pw) (fresh_writer, s) = Ret (w, s1)"
    and "w_status w = Some StatusOK"
  shows "\<exists>s' e. svc_Register svc name pw s = (None, s') \<and> s1 = lg e s'"
proof -
  let ?r = "credentials_request ''/register'' name pw"
  have served: "serve mux ?r = RequestLogger lg (json_handler (register_handler svc)) ?r"
    by (rule gw_register_served [OF assms(1,2)]) (simp_all add: credentials_request_def)
  have run: "register_handler svc ?r (fresh_writer, s) =
      (case svc_Register svc name pw s of
         (Some err, s') \<Rightarrow> Ret (Inl err, fresh_writer, s') | (None, s') \<Rightarrow> Ret (Inr RegistrationResponse, fresh_writer, s'))"
    using assms(3,4) by (simp add: register_handler_def credentials_request_def decode_credentials)
  obtain res s' where reg: "svc_Register svc name pw s = (res, s')" by (metis surj_pair)
  show ?thesis
  proof (cases res)
    case None
    with run reg assms(5) served show ?thesis by (auto simp: logged_json)
  next
    case (Some err)
    then have "w = RespondWithJSONError err fresh_writer" using run reg assms(5) served by (simp add: logged_json)
    then show ?thesis
      using assms(6) DetermineHTTPError_status [of err] RespondWithJSONError_simps(1) [of fresh_writer err]
      by (simp add: StatusOK_def)
  qed
qed

lemma register_served_headers:
  assumes "gw_Configure L T svc lg (\<lambda>h. h) mh = Ret mux" and "dispatch_laws serve"
    and "valid_utf8 name" and "valid_utf8 pw" and "svc_Register svc name pw s = (None, s')"
  shows "serve mux ((credentials_request ''/register'' name pw)\<lparr>rq_headers := hs\<rparr>) (fresh_writer, s) =
    Ret (RespondWithJSON RegistrationResponse fresh_writer,
      lg \<lparr>le_method = MethodPost, le_path = ''/register'', le_status_code = StatusOK\<rparr> s')"
proof -
  let ?r = "(credentials_request ''/register'' name pw)\<lparr>rq_headers := hs\<rparr>"
  have served: "serve mux ?r = RequestLogger lg (json_handler (register_handler svc)) ?r"
    by (rule gw_register_served [OF assms(1,2)]) (simp_all add: credentials_request_def)
  have run: "register_handler svc ?r (fresh_writer, s) = Ret (Inr RegistrationResponse, fresh_writer, s')"
    using assms(3-5) by (simp add: register_handler_def credentials_request_def decode_credentials)
  have r: "rq_method ?r = MethodPost" "rq_path ?r = ''/register''" by (simp_all add: credentials_request_def)
  show ?thesis unfolding served using logged_json(1) [where f = "register_handler svc", OF run] r by simp
qed

lemma login_served_headers:
  assumes "gw_Configure L T svc lg (\<lambda>h. h) mh = Ret mux" and "dispatch_laws serve"
    and "valid_utf8 name" and "valid_utf8 pw" and "svc_Login svc name pw s = Ret (Inr token)"
  shows "serve mux ((credentials_request ''/login'' name pw)\<lparr>rq_headers := hs\<rparr>) (fresh_writer, s) =
    Ret (RespondWithJSON (LoginResponse token) fresh_writer,
      lg \<lparr>le_method = MethodPost, le_path = ''/login'', le_status_code = StatusOK\<rparr> s)"
proof -
  let ?r = "(credentials_request ''/login'' name pw)\<lparr>rq_headers := hs\<rparr>"
  have served: "serve mux ?r = RequestLogger lg (json_handler (login_handler svc)) ?r"
    by (rule gw_login_served [OF assms(1,2)]) (simp_all add: credentials_request_def)
  have run: "login_handler svc ?r (fresh_writer, s) = Ret (Inr (LoginResponse token), fresh_writer, s)"
    using assms(3-5) by (simp add: login_handler_def credentials_request_def decode_credentials)
  have r: "rq_method ?r = MethodPost" "rq_path ?r = ''/login''" by (simp_all add: credentials_request_def)
  show ?thesis unfolding served using logged_json(1) [where f = "login_handler svc", OF run] r by simp
qed

lemma no_headers: "(credentials_request path name pw)\<lparr>rq_headers := []\<rparr> = credentials_request path name pw"
  by (simp add: credentials_request_def)

lemmas register_served = register_served_headers [where hs = "[]", unfolded no_headers]
lemmas login_served = login_served_headers [where hs = "[]", unfolded no_headers]

text \<open>An authenticated request with a valid token reaches its handler with the principal.\<close>

lemma token_passes:
  assumes "svc_AuthMiddleware svc = HTTPTokenAuthorizationMiddleware validate" and "validate token s = Inr p"
    and "header_Get ''Authorization'' (rq_headers r) = bearer @ token"
  shows "svc_AuthMiddleware svc h r (fresh_writer, s) = h (r\<lparr>rq_ctx := Some p\<rparr>) (fresh_writer, s)"
proof -
  have "strip_bearer (bearer @ token) = token" by (simp add: strip_bearer_def)
  moreover have "bearer \<noteq> []" by (simp add: bearer_def)
  ultimately show ?thesis
    unfolding assms(1) by (intro authenticated) (simp_all add: assms(2,3))
qed

lemma heartbeat_served_headers:
  assumes "gw_Configure L T svc lg (\<lambda>h. h) mh = Ret mux" and "dispatch_laws serve"
    and "svc_AuthMiddleware svc = HTTPTokenAuthorizationMiddleware validate" and "validate token s = Inr p"
    and "svc_HeartBeat svc (Some p) s = Ret (None, s')"
    and "rq_method r = MethodPost" and "rq_path r = ''/heartbeat''" and "header_Get ''Authorization'' (rq_headers r) = bearer @ token"
  shows "serve mux r (fresh_writer, s) =
    Ret (RespondWithJSON DefaultOKResponse fresh_writer,
      lg \<lparr>le_method = MethodPost, le_path = ''/heartbeat'', le_status_code = StatusOK\<rparr> s')"
proof -
  have run: "heartbeat_handler svc (r\<lparr>rq_ctx := Some p\<rparr>) (fresh_writer, s) = Ret (Inr DefaultOKResponse, fresh_writer, s')"
    using assms(5) by (simp add: heartbeat_handler_def)
  show ?thesis
    unfolding gw_heartbeat_served [OF assms(1,2,7,6)] token_passes [OF assms(3,4,8)]
    using logged_json(1) [where f = "heartbeat_handler svc", OF run] assms(6,7) by simp
qed

lemma heartbeat_served:
  assumes "gw_Configure L T svc lg (\<lambda>h. h) mh = Ret mux" and "dispatch_laws serve"
    and "svc_AuthMiddleware svc = HTTPTokenAuthorizationMiddleware validate" and "validate token s = Inr p"
    and "svc_HeartBeat svc (Some p) s = Ret (None, s')"
  shows "serve mux (heartbeat_request token) (fresh_writer, s) =
    Ret (RespondWithJSON DefaultOKResponse fresh_writer,
      lg \<lparr>le_method = MethodPost, le_path = ''/heartbeat'', le_status_code = StatusOK\<rparr> s')"
  by (rule heartbeat_served_headers [OF assms]) (simp_all add: heartbeat_request_def header_Get_def)

lemma gw_active_users_served:
  assumes "gw_Configure L T svc lg mw mh = Ret mux" and "dispatch_laws serve"
    and "rq_path r = ''/active-users''" and "rq_method r = MethodGet"
  shows "serve mux r = svc_AuthMiddleware svc (RequestLogger lg (mw (json_handler (active_users_handler L T svc)))) r"
  using dispatch_distinct [OF assms(2) gw_distinct [OF assms(1)], of
      "\<lparr>rt_path = ''/active-users'', rt_methods = [MethodGet],
        rt_handler = svc_AuthMiddleware svc (RequestLogger lg (mw (json_handler (active_users_handler L T svc))))\<rparr>" r]
    assms(1,3,4) by (auto simp: gw_Configure_mux serves_def)

lemma active_users_served_headers:
  assumes "gw_Configure L T svc lg (\<lambda>h. h) mh = Ret mux" and "dispatch_laws serve"
    and "svc_AuthMiddleware svc = HTTPTokenAuthorizationMiddleware validate" and "validate token s = Inr p"
    and "svc_ActiveUsers svc s = Inr us"
    and "rq_method r = MethodGet" and "rq_path r = ''/active-users''" and "header_Get ''Authorization'' (rq_headers r) = bearer @ token"
  shows "serve mux r (fresh_writer, s) =
    Ret (RespondWithJSON (ActiveUsersResponse L T us) fresh_writer,
      lg \<lparr>le_method = MethodGet, le_path = ''/active-users'', le_status_code = StatusOK\<rparr> s)"
proof -
  have run: "active_users_handler L T svc (r\<lparr>rq_ctx := Some p\<rparr>) (fresh_writer, s) =
      Ret (Inr (ActiveUsersResponse L T us), fresh_writer, s)"
    using assms(5) by (simp add: active_users_handler_def)
  show ?thesis
    unfolding gw_active_users_served [OF assms(1,2,7,6)] token_passes [OF assms(3,4,8)]
    using logged_json(1) [where f = "active_users_handler L T svc", OF run] assms(6,7) by simp
qed

section \<open>Typed answers\<close>

text \<open>A response value has a JSON text unless its encoding fails; a typed handler leaves the writer to the
  router.\<close>

definition encodes :: "resp_val \<Rightarrow> bool" where
  "encodes v = (case v of RespString x \<Rightarrow> (\<exists>t. json_parse_prefix x = Some (t, [])) | RespJSON t \<Rightarrow> wf_json 0 t | RespUnencodable err \<Rightarrow> True)"

definition typed_func :: "('c, 's) json_func \<Rightarrow> bool" where
  "typed_func f \<longleftrightarrow> (\<forall>r w s a w' s'. f r (w, s) = Ret (a, w', s') \<longrightarrow> w' = w \<and> (\<forall>v. a = Inr v \<longrightarrow> encodes v))"

definition json_answer :: "response_writer \<Rightarrow> bool" where
  "json_answer w \<longleftrightarrow> (\<exists>code. w_calls w = [code] \<and> w_status w = Some code \<and>
     (if code = 200 then w_body w = [] \<or> (\<exists>t rest. json_parse_prefix (w_body w) = Some (t, rest) \<and> rest \<in> {[], newline})
      else code \<in> {400, 401, 500} \<and> (\<exists>details. w_body w = render (JObj [(''details'', json_string details)]) @ newline)))"

definition typed_handler :: "('c, 's) handler \<Rightarrow> bool" where
  "typed_handler h \<longleftrightarrow> (\<forall>r s w s'. h r (fresh_writer, s) = Ret (w, s') \<longrightarrow> json_answer w)"

lemma parse_line: "wf_json 0 t \<Longrightarrow> json_parse_prefix (render t @ rest) = Some (t, rest)"
  unfolding json_parse_prefix_def
  using parse_render(1) [of 0 t "2 * length (render t @ rest) + 2" rest] by (simp del: parse_value.simps)

lemma answer_ok: "encodes v \<Longrightarrow> json_answer (RespondWithJSON v fresh_writer)"
  using RespondWithJSON_simps [of fresh_writer v] parse_line
  by (auto simp: json_answer_def encodes_def resp_text_def StatusOK_def split: resp_val.splits)

lemma answer_error: "json_answer (RespondWithJSONError err fresh_writer)"
  using RespondWithJSONError_simps [of fresh_writer err] DetermineHTTPError_status [of err]
  by (auto simp: json_answer_def resp_text_def JSONErrorResponse_def simp del: render.simps)

lemma typed_json_handler:
  assumes "typed_func f"
  shows "typed_handler (json_handler f)"
  unfolding typed_handler_def
proof (intro allI impI)
  fix r s w s' assume run: "json_handler f r (fresh_writer, s) = Ret (w, s')"
  then obtain a w0 s0 where f: "f r (fresh_writer, s) = Ret (a, w0, s0)"
    by (auto simp: json_handler_def)
  then have "w0 = fresh_writer" "\<forall>v. a = Inr v \<longrightarrow> encodes v" using assms unfolding typed_func_def by blast+
  with run f show "json_answer w" using answer_ok answer_error by (cases a) (auto simp: json_handler_def)
qed

lemma typed_RequestLogger: "typed_handler h \<Longrightarrow> typed_handler (RequestLogger lg h)"
  by (auto simp: typed_handler_def RequestLogger_def)

lemma typed_authentication: "typed_handler h \<Longrightarrow> typed_handler (HTTPTokenAuthorizationMiddleware validate h)"
  using answer_error by (auto simp: typed_handler_def HTTPTokenAuthorizationMiddleware_def Let_def split: if_splits sum.splits)

text \<open>The handlers of the gateway are typed.\<close>

lemma DefaultOKResponse_encodes: "encodes DefaultOKResponse"
proof -
  have "(case json_parse_prefix (case DefaultOKResponse of RespString x \<Rightarrow> x | _ \<Rightarrow> []) of
      Some (t, rest) \<Rightarrow> rest = [] | None \<Rightarrow> False)" by code_simp
  then show ?thesis by (auto simp: encodes_def DefaultOKResponse_def split: option.splits)
qed

lemma plain_members: "scans ''token''" "scans ''address''" "scans ''activeUsers''"
  "scans ''id''" "scans ''username''" "scans ''lastSeen''"
  by (rule plain_key_scans, simp add: plain_key_def)+

lemma wf_user_trees:
  assumes "uuid_plain L" and "\<forall>t b. tm_Marshal T t = Inr b \<longrightarrow> scans b"
  shows "user_trees L T us = Inr ts \<Longrightarrow> wf_elems 2 ts"
proof (induction us arbitrary: ts)
  case (Cons u us)
  have "scans (ID_String L (au_ID u))"
    using assms(1) plain_key_scans by (simp add: uuid_plain_def ID_String_def)
  with Cons assms(2) show ?case
    by (auto simp: ActiveUser_tree_def plain_members maxNestingDepth_def split: sum.splits)
qed simp

lemma responses_encode:
  "encodes RegistrationResponse" "encodes (LoginResponse token)" "encodes (SelectServerResponse address)"
  by (simp_all add: encodes_def RegistrationResponse_def LoginResponse_def SelectServerResponse_def plain_members)

lemma ActiveUsersResponse_encodes:
  assumes "uuid_plain L" and "\<forall>t b. tm_Marshal T t = Inr b \<longrightarrow> scans b"
  shows "encodes (ActiveUsersResponse L T us)"
  using wf_user_trees [OF assms, of us]
  by (auto simp: encodes_def ActiveUsersResponse_def plain_members maxNestingDepth_def numeral_2_eq_2 split: sum.split)

lemma go_bind_RetE: "go_bind x f = Ret b \<Longrightarrow> (\<And>a. x = Ret a \<Longrightarrow> f a = Ret b \<Longrightarrow> P) \<Longrightarrow> P"
  by auto

lemma typed_handlers:
  "typed_func gw_health" "typed_func (register_handler svc)" "typed_func (login_handler svc)"
  "typed_func (heartbeat_handler svc)" "typed_func (select_server_handler svc)" "typed_func (relay_message_handler L svc)"
  "uuid_plain L \<Longrightarrow> \<forall>t b. tm_Marshal T t = Inr b \<longrightarrow> scans b \<Longrightarrow> typed_func (active_users_handler L T svc)"
  by (auto simp: typed_func_def gw_health_def register_handler_def login_handler_def heartbeat_handler_def
      select_server_handler_def relay_message_handler_def active_users_handler_def DefaultOKResponse_encodes
      responses_encode ActiveUsersResponse_encodes simp del: go_bind_eq_Ret elim!: go_bind_RetE
      split: sum.splits option.splits prod.splits)

section \<open>A concrete gateway\<close>

definition ref_int_time :: "int time_lib" where
  "ref_int_time =
     \<lparr>tm_Marshal = (\<lambda>t. Inr (replicate (nat t) (CHR ''0''))), tm_Unmarshal = (\<lambda>raw. Inr (int (length raw) - 2)), tm_zero = 0\<rparr>"

lemma zeros_scan: "scans (replicate n (CHR ''0''))"
proof -
  have "plain_key (replicate n (CHR ''0''))" by (induction n) (simp_all add: plain_key_def)
  then show ?thesis by (rule plain_key_scans)
qed

lemma ref_int_time_laws: "time_laws ref_int_time (\<lambda>t. 0 \<le> t)"
  by (simp add: time_laws_def ref_int_time_def zeros_scan)

type_synonym ref_gateway = "((string \<times> User) list, ref_server) gw_state"

definition ref_services :: "ref_gateway gw_services" where
  "ref_services = gw_services_of ref_uuid ref_gorm ref_bcrypt ref_int_time ref_redis (NewRedisClient []) ref_jwt () ()
     (\<lambda>s. (7, [])) (\<lambda>n. 0) (\<lambda>r. []) (\<lambda>u e s. (None, s))"

definition ref_gateway :: ref_gateway where
  "ref_gateway = \<lparr>gw_db = [], gw_store = ([], 0), gw_registry = \<lparr>reg_servers = Map.empty, reg_closed = False\<rparr>,
     gw_clock = 0, gw_log = []\<rparr>"

lemma ref_token_valid: "JWTValidator_Validate ref_jwt () gw_clock ''tok'' ref_gateway = Inr \<lparr>p_ID = ID 7, p_UserName = ''bob''\<rparr>"
  by (simp add: JWTValidator_Validate_def ref_jwt_def jwt_unexpired_def ref_claims_def ref_gateway_def Second_eq)

section \<open>Properties\<close>

text \<open>C36: As the gateway is started, every authenticated, well-formed request to \<open>/send-message\<close> panics: the
  relay is built, but not handed to the routes. With it, the request would be answered by what the
  relay says.\<close>

theorem gateway_send_message_panics:
  assumes "gw_Configure L T (gw_http_services svc) lg (\<lambda>h. h) mh = Ret mux" and "dispatch_laws serve"
    and "rq_path r = ''/send-message''" and "svc_AuthMiddleware svc = HTTPTokenAuthorizationMiddleware validate"
    and "header_Get ''Authorization'' (rq_headers r) \<noteq> []"
    and "validate (strip_bearer (header_Get ''Authorization'' (rq_headers r))) s = Inr p"
    and "json_Decode (RelayMessageRequest_fields L) zero_RelayMessageRequest (rq_body r) = Inr msg"
  shows "(\<exists>m. serve mux r (fresh_writer, s) = Panic m) \<and>
    (\<forall>forward mux' err s'. svc_Forward svc = Some forward \<longrightarrow> gw_Configure L T svc lg (\<lambda>h. h) mh = Ret mux' \<longrightarrow>
       forward (rmr_RecipientID msg) (NewDirectMessageEvent L (p_ID p) (rmr_Message msg)) s = (err, s') \<longrightarrow>
       (\<exists>w e. serve mux' r (fresh_writer, s) = Ret (w, lg e s') \<and> (w_status w = Some StatusOK \<longleftrightarrow> err = None)))"
proof (intro conjI allI impI)
  have relay: "serve m r (fresh_writer, s) =
      RequestLogger lg (json_handler (relay_message_handler L x)) (r\<lparr>rq_ctx := Some p\<rparr>) (fresh_writer, s)"
    if "gw_Configure L T x lg (\<lambda>h. h) mh = Ret m" "svc_AuthMiddleware x = HTTPTokenAuthorizationMiddleware validate" for m x
    unfolding gw_send_message_served [OF that(1) assms(2,3)] that(2) by (rule authenticated [where validate = validate, OF assms(5,6)])
  show "\<exists>m. serve mux r (fresh_writer, s) = Panic m"
    using relay [OF assms(1)] assms(4,7) logged_json(3) [of "relay_message_handler L (gw_http_services svc)"]
    by (simp add: relay_message_handler_def PrincipalFromContext_def)
  fix forward mux' err s'
  assume with_relay: "svc_Forward svc = Some forward" "gw_Configure L T svc lg (\<lambda>h. h) mh = Ret mux'"
    "forward (rmr_RecipientID msg) (NewDirectMessageEvent L (p_ID p) (rmr_Message msg)) s = (err, s')"
  then have run: "relay_message_handler L svc (r\<lparr>rq_ctx := Some p\<rparr>) (fresh_writer, s) =
      (case err of Some e \<Rightarrow> Ret (Inl (Wrapped ''forwaring real time event'' e), fresh_writer, s')
       | None \<Rightarrow> Ret (Inr DefaultOKResponse, fresh_writer, s'))"
    using assms(7) by (simp add: relay_message_handler_def PrincipalFromContext_def split: option.split)
  show "\<exists>w e. serve mux' r (fresh_writer, s) = Ret (w, lg e s') \<and> (w_status w = Some StatusOK \<longleftrightarrow> err = None)"
  proof (cases err)
    case None
    then show ?thesis
      using relay [OF with_relay(2) assms(4)] run RespondWithJSON_simps(1) [of fresh_writer]
        logged_json(1) [where f = "relay_message_handler L svc" and r = "r\<lparr>rq_ctx := Some p\<rparr>" and lg = lg] by auto
  next
    case (Some e)
    then show ?thesis
      using relay [OF with_relay(2) assms(4)] run RespondWithJSONError_simps(1) [of fresh_writer]
        DetermineHTTPError_status [of "Wrapped ''forwaring real time event'' e"]
        logged_json(2) [where f = "relay_message_handler L svc" and r = "r\<lparr>rq_ctx := Some p\<rparr>" and lg = lg]
      by (auto simp: StatusOK_def)
  qed
qed

definition ref_relay_request :: "Principal option request" where
  "ref_relay_request = \<lparr>rq_method = MethodPost, rq_path = ''/send-message'',
     rq_headers = [(''Authorization'', ''Bearer tok'')], rq_body = ''{}'', rq_ctx = None\<rparr>"

lemma ex_conj_mono: "A \<Longrightarrow> \<exists>x. P x \<Longrightarrow> \<exists>x. A \<and> P x"
  by blast

theorem gateway_send_message_panics_witness:
  "\<exists>mux m. gw_Configure ref_uuid ref_int_time (gw_http_services ref_services) record_log (\<lambda>h. h) (\<lambda>r st. Ret st) = Ret mux \<and>
     ref_serve mux ref_relay_request (fresh_writer, ref_gateway) = Panic m"
proof -
  obtain mux where mux: "gw_Configure ref_uuid ref_int_time (gw_http_services ref_services) record_log (\<lambda>h. h)
      (\<lambda>r st. Ret st) = Ret mux"
    by (simp add: gw_Configure_mux)
  have r: "rq_path ref_relay_request = ''/send-message''" by (simp add: ref_relay_request_def)
  have auth: "svc_AuthMiddleware ref_services = HTTPTokenAuthorizationMiddleware (JWTValidator_Validate ref_jwt () gw_clock)"
    by (simp add: ref_services_def gw_services_of_def)
  have tok: "header_Get ''Authorization'' (rq_headers ref_relay_request) \<noteq> []"
    "strip_bearer (header_Get ''Authorization'' (rq_headers ref_relay_request)) = ''tok''"
    by code_simp+
  have "json_parse_prefix (render (JObj [])) = Some (JObj [], [])"
    by (rule json_parse_prefix_render) simp
  then have body: "json_Decode (RelayMessageRequest_fields ref_uuid) zero_RelayMessageRequest (rq_body ref_relay_request) =
      Inr zero_RelayMessageRequest"
    by (simp add: json_Decode_def ref_relay_request_def)
  have valid: "JWTValidator_Validate ref_jwt () gw_clock
      (strip_bearer (header_Get ''Authorization'' (rq_headers ref_relay_request))) ref_gateway =
      Inr \<lparr>p_ID = ID 7, p_UserName = ''bob''\<rparr>"
    unfolding tok(2) by (rule ref_token_valid)
  show ?thesis
    by (rule exI, rule ex_conj_mono [OF mux gateway_send_message_panics
          [where validate = "JWTValidator_Validate ref_jwt () gw_clock" and s = ref_gateway and r = ref_relay_request, OF mux ref_serve_laws r auth tok(1) valid body, THEN conjunct1]])
qed

text \<open>C37: A session, end to end: a user whose registration was answered with 200 can log in with the same
  credentials as long as the users database keeps its rows, gets a token, and a heartbeat with that
  token, before it expires, is answered with 200 and makes exactly the registered identity active: it
  is listed among the active users with the present time.\<close>

theorem session_end_to_end:
  assumes "gw_Configure L T (gw_http_services (gw_services_of L G B T R c J sk pk draw intn order forward))
      record_log (\<lambda>h. h) mh = Ret mux" and "dispatch_laws serve"
    and "uuid_laws L" and "uuid_plain L" and "gorm_laws G collate rows up" and "bcrypt_laws B" and "jwt_laws J sk pk"
    and "time_laws T in_range" and "valid_utf8 name" and "valid_utf8 pw"
    and "serve mux (credentials_request ''/register'' name pw) (fresh_writer, s) = Ret (w, s1)" and "w_status w = Some StatusOK"
    and "gw_db s2 = gw_db s1" and "up (gw_db s2)"
    and "JWTIssuer_Issue J sk (gw_clock s2) \<lparr>p_ID = NewID (fst (draw s)), p_UserName = name\<rparr> = Inr token"
    and "gw_clock s3 < (gw_clock s2 + tokenDuration) div Second * Second" and "in_range (gw_clock s3)"
    and "redis_ready R rup view (gw_store s3)" and "coll_ok c activeUsersCollection"
    and "tracker_inv L T in_range c view (gw_store s3)"
  shows "serve mux (credentials_request ''/login'' name pw) (fresh_writer, s2) =
      Ret (RespondWithJSON (LoginResponse token) fresh_writer,
        record_log \<lparr>le_method = MethodPost, le_path = ''/login'', le_status_code = StatusOK\<rparr> s2) \<and>
    (\<exists>s4 us. serve mux (heartbeat_request token) (fresh_writer, s3) = Ret (RespondWithJSON DefaultOKResponse fresh_writer, s4) \<and>
       tracker_ActiveUsers L T (redis_Store R c) (gw_store s4) = Inr us \<and>
       \<lparr>au_ID = NewID (fst (draw s)), au_Username = name, au_LastSeen = gw_clock s3\<rparr> \<in> set us)"
proof -
  let ?svc = "gw_services_of L G B T R c J sk pk draw intn order forward"
  obtain u salt where draw: "draw s = (u, salt)" by (metis surj_pair)
  let ?p = "\<lparr>p_ID = NewID u, p_UserName = name\<rparr>"
  let ?au = "\<lparr>au_ID = p_ID ?p, au_Username = p_UserName ?p, au_LastSeen = gw_clock s3\<rparr>"
  obtain g' where reg: "Register L G B u salt name pw (gw_db s) = (None, g')" "gw_db s1 = g'"
    using register_served_ok [OF assms(1,2,9-12)] draw
    by (cases "Register L G B u salt name pw (gw_db s)") (auto simp: gw_services_of_def record_log_def)
  obtain h where h: "bc_Generate B pw salt = Inr h" "rows g' = (rows (gw_db s))(collate name \<mapsto>
      \<lparr>usr_ID = ID_String L (NewID u), usr_Username = name, usr_Password = h\<rparr>)"
    using registered_row [OF assms(5) reg(1)] by blast
  have "Login L G B (JWTIssuer_Issue J sk (gw_clock s2)) name pw (gw_db s2) = Ret (Inr token)"
    using login_of_row [OF assms(3,5,6,14) _ h(1), of name "NewID u" name "JWTIssuer_Issue J sk (gw_clock s2)"]
      h(2) reg(2) assms(13,15) draw by simp
  then have login: "svc_Login (gw_http_services ?svc) name pw s2 = Ret (Inr token)" by (simp add: gw_services_of_def)
  have valid: "JWTValidator_Validate J pk gw_clock token s3 = Inr ?p"
    using issued_token_validity(1) [where clock = gw_clock and s = s3 and p = ?p and now = "gw_clock s2", OF assms(7)]
      assms(9,15,16) draw by simp
  have "good_user in_range ?au" using assms(9,17) by (simp add: good_user_def)
  then obtain r where beat: "tracker_HeartBeat L T (redis_Store R c) (Some ?p) (gw_clock s3) (gw_store s3) = Ret (None, r)"
    "redis_ready R rup view r" "tracker_inv L T in_range c view r"
    "\<forall>v. active L T in_range c view r v \<longleftrightarrow>
      (if au_ID v = p_ID ?p then v = ?au else active L T in_range c view (gw_store s3) v)"
    using heartbeat_effect [OF assms(3,4,8,18-20) refl] by blast
  have active: "active L T in_range c view r ?au" using beat(4) by simp
  have auth: "svc_AuthMiddleware (gw_http_services ?svc) = HTTPTokenAuthorizationMiddleware (JWTValidator_Validate J pk gw_clock)"
    by (simp add: gw_services_of_def)
  have "svc_HeartBeat (gw_http_services ?svc) (Some ?p) s3 = Ret (None, s3\<lparr>gw_store := r\<rparr>)"
    using beat(1) by (simp add: gw_services_of_def)
  note beat_served = heartbeat_served [OF assms(1,2) auth valid this]
  obtain us where us: "tracker_ActiveUsers L T (redis_Store R c) r = Inr us"
    "\<forall>v. v \<in> set us \<longleftrightarrow> active L T in_range c view r v"
    using tracker_lists [OF assms(3,4,8) beat(2) assms(19) beat(3)] by blast
  have "?au \<in> set us" using us(2) active by (simp del: Principal.simps)
  with us(1) show ?thesis
    using login_served [OF assms(1,2,9,10) login] beat_served draw by (simp add: record_log_def)
qed

theorem session_end_to_end_witness:
  "\<exists>mux w s1 s4 us.
     gw_Configure ref_uuid ref_int_time (gw_http_services ref_services) record_log (\<lambda>h. h) (\<lambda>r st. Ret st) = Ret mux \<and>
     ref_serve mux (credentials_request ''/register'' ''bob'' ''pw'') (fresh_writer, ref_gateway) = Ret (w, s1) \<and>
     ref_serve mux (heartbeat_request ''tok'') (fresh_writer, s1) = Ret (RespondWithJSON DefaultOKResponse fresh_writer, s4) \<and>
     tracker_ActiveUsers ref_uuid ref_int_time (redis_Store ref_redis (NewRedisClient [])) (gw_store s4) = Inr us \<and>
     \<lparr>au_ID = NewID 7, au_Username = ''bob'', au_LastSeen = 0\<rparr> \<in> set us"
proof -
  obtain mux where mux: "gw_Configure ref_uuid ref_int_time (gw_http_services ref_services) record_log (\<lambda>h. h)
      (\<lambda>r st. Ret st) = Ret mux"
    by (simp add: gw_Configure_mux)
  have utf8: "valid_utf8 ''bob''" "valid_utf8 ''pw''" by (auto intro!: valid_utf8_ascii)
  define g' where "g' = snd (Register ref_uuid ref_gorm ref_bcrypt 7 [] ''bob'' ''pw'' [])"
  have "Register ref_uuid ref_gorm ref_bcrypt 7 [] ''bob'' ''pw'' [] = (None, g')"
    by (simp add: Register_def UsersDB_Create_def ref_bcrypt_def ref_gorm_def BeforeCreate_def g'_def)
  then have "svc_Register (gw_http_services ref_services) ''bob'' ''pw'' ref_gateway = (None, ref_gateway\<lparr>gw_db := g'\<rparr>)"
    by (simp add: ref_services_def gw_services_of_def ref_gateway_def)
  note register = register_served [OF mux ref_serve_laws utf8 this]
  define s1 where "s1 = record_log \<lparr>le_method = MethodPost, le_path = ''/register'', le_status_code = StatusOK\<rparr> (ref_gateway\<lparr>gw_db := g'\<rparr>)"
  have s1: "gw_clock s1 = 0" "gw_store s1 = ([], 0)" by (simp_all add: s1_def record_log_def ref_gateway_def)
  have ok: "w_status (RespondWithJSON RegistrationResponse fresh_writer) = Some StatusOK"
    by (simp add: RespondWithJSON_simps)
  have token: "JWTIssuer_Issue ref_jwt () (gw_clock s1) \<lparr>p_ID = NewID (fst (7, [])), p_UserName = ''bob''\<rparr> = Inr ''tok''"
    by (simp add: s1 JWTIssuer_Issue_def ref_jwt_def ref_claims_def NewNumericDate_def tokenDuration_def Second_eq NewID_def)
  have early: "gw_clock s1 < (gw_clock s1 + tokenDuration) div Second * Second"
    by (simp add: s1 tokenDuration_def Second_eq)
  have ready: "redis_ready ref_redis ref_up ref_view (gw_store s1)"
    using ref_redis_laws by (simp add: s1 redis_ready_def ref_up_def)
  have coll: "coll_ok (NewRedisClient []) activeUsersCollection" by code_simp
  have inv: "tracker_inv ref_uuid ref_int_time (\<lambda>t. 0 \<le> t) (NewRedisClient []) ref_view (gw_store s1)"
    by (simp add: s1 tracker_inv_def redis_item_def live_def ref_view_def)
  have range: "0 \<le> gw_clock s1" by (simp add: s1)
  note session = session_end_to_end [where in_range = "\<lambda>t. 0 \<le> t" and draw = "\<lambda>s. (7, [])",
      OF mux [unfolded ref_services_def] ref_serve_laws ref_uuid_laws
      ref_uuid_plain ref_gorm_laws ref_bcrypt_laws ref_jwt_laws ref_int_time_laws utf8
      register [folded s1_def] ok refl TrueI token early range ready coll inv, THEN conjunct2]
  show ?thesis
    using mux register [folded s1_def] session s1(1) by auto
qed

text \<open>C38: Every answer of a route of the gateway, the metrics apart, is well-formed: the header is written
  exactly once; with 200 comes a body that parses as JSON (or none, when the value has no encoding), and
  with any other status, which is then 400, 401 or 500, comes an object whose only member is the
  string of the details.\<close>

theorem gateway_answers_are_json:
  assumes "gw_Configure L T svc lg (\<lambda>h. h) mh = Ret mux" and "dispatch_laws serve"
    and "svc_AuthMiddleware svc = HTTPTokenAuthorizationMiddleware validate" and "uuid_plain L"
    and "\<forall>t b. tm_Marshal T t = Inr b \<longrightarrow> scans b" and "rt \<in> set mux" and "rt_path rt \<noteq> ''/metrics''" and "serves rt r"
    and "serve mux r (fresh_writer, s) = Ret (w, s')"
  shows "\<exists>code. w_calls w = [code] \<and> w_status w = Some code \<and>
    (if code = 200 then w_body w = [] \<or> (\<exists>t rest. json_parse_prefix (w_body w) = Some (t, rest) \<and> rest \<in> {[], newline})
     else code \<in> {400, 401, 500} \<and> (\<exists>details. w_body w = render (JObj [(''details'', json_string details)]) @ newline))"
proof -
  note typed = typed_handlers(1-6) [THEN typed_json_handler, THEN typed_RequestLogger]
    typed_handlers(7) [OF assms(4,5), THEN typed_json_handler, THEN typed_RequestLogger]
  have "typed_handler (rt_handler rt)"
    using assms(1,6,7) typed typed [THEN typed_authentication, of validate] unfolding gw_Configure_mux assms(3) by auto
  moreover have "rt_handler rt r (fresh_writer, s) = Ret (w, s')"
    using dispatch_distinct [OF assms(2) gw_distinct [OF assms(1)] assms(6,8)] assms(9) by simp
  ultimately show ?thesis unfolding typed_handler_def json_answer_def by blast
qed

theorem gateway_answers_are_json_witness:
  "\<exists>mux w s'. gw_Configure ref_uuid ref_int_time ref_services record_log (\<lambda>h. h) (\<lambda>r st. Ret st) = Ret mux \<and>
     ref_serve mux (credentials_request ''/login'' ''bob'' ''pw'') (fresh_writer, ref_gateway) = Ret (w, s') \<and>
     (\<exists>details. w_body w = render (JObj [(''details'', json_string details)]) @ newline)"
proof -
  obtain mux where mux: "gw_Configure ref_uuid ref_int_time ref_services record_log (\<lambda>h. h) (\<lambda>r st. Ret st) = Ret mux"
    by (simp add: gw_Configure_mux)
  let ?r = "credentials_request ''/login'' ''bob'' ''pw''"
  let ?rt = "\<lparr>rt_path = ''/login'', rt_methods = [MethodPost],
    rt_handler = RequestLogger record_log (json_handler (login_handler ref_services))\<rparr>"
  have auth: "svc_AuthMiddleware ref_services = HTTPTokenAuthorizationMiddleware (JWTValidator_Validate ref_jwt () gw_clock)"
    by (simp add: ref_services_def gw_services_of_def)
  have scan: "\<forall>t b. tm_Marshal ref_int_time t = Inr b \<longrightarrow> scans b" by (auto simp: ref_int_time_def zeros_scan)
  have rt: "?rt \<in> set mux" "rt_path ?rt \<noteq> ''/metrics''" "serves ?rt ?r"
    using mux by (auto simp: gw_Configure_mux serves_def credentials_request_def)
  have utf8: "valid_utf8 ''bob''" "valid_utf8 ''pw''" by (auto intro!: valid_utf8_ascii)
  have "\<exists>err. svc_Login ref_services ''bob'' ''pw'' ref_gateway = Ret (Inl err)"
    by (simp add: ref_services_def gw_services_of_def Login_def UsersDB_FindByUsername_def ref_gorm_def ref_gateway_def
        ref_bcrypt_def zero_User_def)
  then obtain err where err: "login_handler ref_services ?r (fresh_writer, ref_gateway) = Ret (Inl err, fresh_writer, ref_gateway)"
    using utf8 by (auto simp: login_handler_def credentials_request_def decode_credentials)
  have served: "ref_serve mux ?r = RequestLogger record_log (json_handler (login_handler ref_services)) ?r"
    by (rule gw_login_served [OF mux ref_serve_laws]) (simp_all add: credentials_request_def)
  obtain s' where run: "ref_serve mux ?r (fresh_writer, ref_gateway) = Ret (RespondWithJSONError err fresh_writer, s')"
    unfolding served using logged_json(2) [where f = "login_handler ref_services", OF err] by blast
  have "w_status (RespondWithJSONError err fresh_writer) \<noteq> Some 200"
    using DetermineHTTPError_status [of err] by (auto simp: RespondWithJSONError_simps)
  with gateway_answers_are_json [OF mux ref_serve_laws auth ref_uuid_plain scan rt run]
  obtain details where
    "w_body (RespondWithJSONError err fresh_writer) = render (JObj [(''details'', json_string details)]) @ newline"
    by (auto split: if_splits)
  with mux run show ?thesis by (intro exI conjI)
qed

end
