(* ===== verification/Testers.thy ===== *)
theory Testers
  imports Gateway
begin

text \<open>
  The drivers of the integration tests: the HTTP helpers, \<open>pkg/test/http.go\<close>, and the gateway tester,
  \<open>integration/gateway/tester.go\<close>, a client that requires every answer to be as expected. A requirement that
  is not met ends the test: None. The drivers are connected with the model of the gateway, so that a
  whole session is seen from the client's side, down to the bytes of the bodies.
\<close>

section \<open>pkg/test/http.go\<close>

text \<open>
  \<open>lib_Do\<close> is the round trip of the default client; reading and closing the body are part of it, and so is giving
  up after the timeout of a second, an error.
\<close>

definition HTTPExec ::
  "'s http_lib \<Rightarrow> string \<Rightarrow> string \<Rightarrow> string \<Rightarrow> (string \<times> string) list \<Rightarrow> 's \<Rightarrow> (int \<times> string) option \<times> 's" where
  "HTTPExec H method url body headers s =
     (case lib_Do H method url body headers s of
        (Inl err, s') \<Rightarrow> (None, s')
      | (Inr (code, Inl err), s') \<Rightarrow> (None, s')
      | (Inr (code, Inr resBody), s') \<Rightarrow> (Some (code, resBody), s'))"

definition HTTPGetBody :: "'s http_lib \<Rightarrow> string \<Rightarrow> string \<Rightarrow> 's \<Rightarrow> (int \<times> string) option \<times> 's" where
  "HTTPGetBody H addr path s =
     (let addr = (if prefix ''http://'' addr then addr else ''http://'' @ addr) in
      case lib_NewRequest H MethodGet (addr @ path) of
        Some err \<Rightarrow> (None, s)
      | None \<Rightarrow> HTTPExec H MethodGet (addr @ path) [] [] s)"

definition ToJSONBody :: "json \<Rightarrow> string" where "ToJSONBody val = render val"

definition FromJSONBytes :: "(string \<times> 'a field_setter) list \<Rightarrow> 'a \<Rightarrow> string \<Rightarrow> 'a option" where
  "FromJSONBytes flds zero bytes = (case json_Unmarshal flds zero bytes of Inl err \<Rightarrow> None | Inr val \<Rightarrow> Some val)"

section \<open>What the tester decodes\<close>

record login_response =
  lgr_Token :: string
  lgr_Error :: string

definition login_response_fields :: "(string \<times> login_response field_setter) list" where
  "login_response_fields =
     [(''token'', set_string (\<lambda>x r. r\<lparr>lgr_Token := x\<rparr>)), (''error'', set_string (\<lambda>x r. r\<lparr>lgr_Error := x\<rparr>))]"

definition zero_login_response :: login_response where
  "zero_login_response = \<lparr>lgr_Token = [], lgr_Error = []\<rparr>"

text \<open>A field that is a slice of structs: \<open>null\<close> makes it nil. Whether an error in an element stops the decoding
  at once or at its end is not told apart: nobody sees what was decoded before it.\<close>

fun decode_list :: "(string \<times> 'b field_setter) list \<Rightarrow> 'b \<Rightarrow> json list \<Rightarrow> 'b list result" where
  "decode_list flds zero [] = Inr []"
| "decode_list flds zero (v # vs) =
     (case decode_struct flds zero v of
        Inl err \<Rightarrow> Inl err
      | Inr x \<Rightarrow> (case decode_list flds zero vs of Inl err \<Rightarrow> Inl err | Inr xs \<Rightarrow> Inr (x # xs)))"

fun set_list :: "(string \<times> 'b field_setter) list \<Rightarrow> 'b \<Rightarrow> ('b list \<Rightarrow> 'a \<Rightarrow> 'a) \<Rightarrow> 'a field_setter" where
  "set_list flds zero upd (JArr vs) x =
     (case decode_list flds zero vs of Inl err \<Rightarrow> Aborted err | Inr ys \<Rightarrow> Stored (upd ys x))"
| "set_list flds zero upd JNull x = Stored (upd [] x)"
| "set_list flds zero upd v x = Saved type_error x"

definition active_users_response_fields ::
  "uuid_lib \<Rightarrow> 't time_lib \<Rightarrow> (string \<times> 't ActiveUser list field_setter) list" where
  "active_users_response_fields L T =
     [(''activeUsers'', set_list (ActiveUser_fields L T) (zero_ActiveUser T) (\<lambda>us _. us))]"

section \<open>tester.go\<close>

record Tester =
  tst_address :: string
  tst_token :: string

definition NewTester :: "string \<Rightarrow> Tester" where
  "NewTester address = \<lparr>tst_address = address, tst_token = []\<rparr>"

text \<open>A request is its method, URL, body and headers.\<close>

type_synonym http_req = "string \<times> string \<times> string \<times> (string \<times> string) list"

definition createReq :: "'s http_lib \<Rightarrow> Tester \<Rightarrow> string \<Rightarrow> string \<Rightarrow> string \<Rightarrow> http_req option" where
  "createReq H g method path body =
     (case lib_NewRequest H method (''http://'' @ tst_address g @ path) of
        Some err \<Rightarrow> None
      | None \<Rightarrow> Some (method, ''http://'' @ tst_address g @ path, body, []))"

definition createAuthenticatedReq :: "'s http_lib \<Rightarrow> Tester \<Rightarrow> string \<Rightarrow> string \<Rightarrow> string \<Rightarrow> http_req option" where
  "createAuthenticatedReq H g method path body =
     (if tst_token g = [] then None
      else map_option (\<lambda>(m, url, b, hs). (m, url, b, hs @ [(''Authorization'', ''Bearer '' @ tst_token g)]))
             (createReq H g method path body))"

text \<open>Executing a request that was made, and requiring the status 200; the body is the result.\<close>

definition exec_ok :: "'s http_lib \<Rightarrow> http_req option \<Rightarrow> 's \<Rightarrow> string option \<times> 's" where
  "exec_ok H req s =
     (case req of
        None \<Rightarrow> (None, s)
      | Some (method, url, body, headers) \<Rightarrow>
          (case HTTPExec H method url body headers s of
             (None, s') \<Rightarrow> (None, s')
           | (Some (code, resBody), s') \<Rightarrow> (if code = StatusOK then (Some resBody, s') else (None, s'))))"

definition tester_Register :: "'s http_lib \<Rightarrow> Tester \<Rightarrow> string \<Rightarrow> string \<Rightarrow> 's \<Rightarrow> unit option \<times> 's" where
  "tester_Register H g username password s =
     (case exec_ok H (createReq H g MethodPost ''/register'' (ToJSONBody (credentials username password))) s of
        (res, s') \<Rightarrow> (map_option (\<lambda>_. ()) res, s'))"

definition tester_Login :: "'s http_lib \<Rightarrow> Tester \<Rightarrow> string \<Rightarrow> string \<Rightarrow> 's \<Rightarrow> (string \<times> Tester) option \<times> 's" where
  "tester_Login H g username password s =
     (case exec_ok H (createReq H g MethodPost ''/login'' (ToJSONBody (credentials username password))) s of
        (None, s') \<Rightarrow> (None, s')
      | (Some body, s') \<Rightarrow>
          (case FromJSONBytes login_response_fields zero_login_response body of
             None \<Rightarrow> (None, s')
           | Some loginResp \<Rightarrow>
               (if lgr_Token loginResp = [] then (None, s')
                else (Some (lgr_Token loginResp, g\<lparr>tst_token := lgr_Token loginResp\<rparr>), s'))))"

definition tester_Heartbeat :: "'s http_lib \<Rightarrow> Tester \<Rightarrow> 's \<Rightarrow> unit option \<times> 's" where
  "tester_Heartbeat H g s =
     (case exec_ok H (createAuthenticatedReq H g MethodPost ''/heartbeat'' []) s of
        (res, s') \<Rightarrow> (map_option (\<lambda>_. ()) res, s'))"

definition tester_ActiveUsers ::
  "uuid_lib \<Rightarrow> int time_lib \<Rightarrow> 's http_lib \<Rightarrow> Tester \<Rightarrow> 's \<Rightarrow> int ActiveUser list option \<times> 's" where
  "tester_ActiveUsers L T H g s =
     (case exec_ok H (createAuthenticatedReq H g MethodGet ''/active-users'' []) s of
        (None, s') \<Rightarrow> (None, s')
      | (Some body, s') \<Rightarrow> (FromJSONBytes (active_users_response_fields L T) [] body, s'))"

text \<open>The session that the tests run: registering, logging in, listing the active users, a heartbeat, and
  listing them again.\<close>

definition tester_session ::
  "uuid_lib \<Rightarrow> int time_lib \<Rightarrow> 's http_lib \<Rightarrow> Tester \<Rightarrow> string \<Rightarrow> string \<Rightarrow> 's \<Rightarrow>
    (int ActiveUser list \<times> int ActiveUser list) option \<times> 's" where
  "tester_session L T H g username password s =
     (case tester_Register H g username password s of
        (None, s1) \<Rightarrow> (None, s1)
      | (Some _, s1) \<Rightarrow>
     (case tester_Login H g username password s1 of
        (None, s2) \<Rightarrow> (None, s2)
      | (Some (token, g), s2) \<Rightarrow>
     (case tester_ActiveUsers L T H g s2 of
        (None, s3) \<Rightarrow> (None, s3)
      | (Some before, s3) \<Rightarrow>
     (case tester_Heartbeat H g s3 of
        (None, s4) \<Rightarrow> (None, s4)
      | (Some _, s4) \<Rightarrow>
     (case tester_ActiveUsers L T H g s4 of
        (None, s5) \<Rightarrow> (None, s5)
      | (Some after, s5) \<Rightarrow> (Some (before, after), s5))))))"

section \<open>Bodies are read back\<close>

text \<open>A body that the encoder wrote ends with a newline, which \<open>Unmarshal\<close> skips.\<close>

lemma json_Unmarshal_newline:
  assumes "wf_json 0 v"
  shows "json_Unmarshal flds x (render v @ newline) = decode_struct flds x v"
proof -
  have "parse_value (2 * length (render v @ newline) + 2) 0 (render v @ newline) = Some (v, newline)"
    by (rule parse_render(1) [OF assms]) simp
  then have "json_parse (render v @ newline) = Some v"
    by (simp add: json_parse_def json_parse_prefix_def newline_def is_ws_def)
  then show ?thesis by (simp add: json_Unmarshal_def)
qed

lemma response_keys: "plain_key ''token''" "plain_key ''activeUsers''"
  by (simp_all add: plain_key_def)

lemma login_response_roundtrip:
  assumes "valid_utf8 token" and "token \<noteq> []"
  shows "FromJSONBytes login_response_fields zero_login_response (resp_text (LoginResponse token)) =
    Some \<lparr>lgr_Token = token, lgr_Error = []\<rparr>"
proof -
  have "wf_json 0 (JObj [(''token'', json_string token)])" using response_keys [THEN plain_key_scans] by simp
  note decode = json_Unmarshal_newline [OF this]
  have "resp_text (LoginResponse token) = render (JObj [(''token'', json_string token)]) @ newline"
    using assms(2) by (simp add: LoginResponse_def resp_text_def)
  then show ?thesis
    unfolding FromJSONBytes_def using assms response_keys [THEN plain_key_unescape]
    by (simp only: decode) (simp add: login_response_fields_def zero_login_response_def find_field_def)
qed

text \<open>The list of active users.\<close>

lemma ActiveUser_tree_decodes:
  assumes "uuid_laws L" and "uuid_plain L" and "time_laws T in_range" and "good_user in_range u"
  shows "\<exists>b. tm_Marshal T (au_LastSeen u) = Inr b \<and> (\<forall>d < maxNestingDepth. wf_json d (ActiveUser_tree L u b)) \<and>
    decode_struct (ActiveUser_fields L T) (zero_ActiveUser T) (ActiveUser_tree L u b) = Inr u"
proof -
  obtain b where b: "tm_Marshal T (au_LastSeen u) = Inr b" "scans b"
    "tm_Unmarshal T (dquote # b @ [dquote]) = Inr (au_LastSeen u)"
    using assms(3,4) by (auto simp: time_laws_def good_user_def)
  have "scans (ID_String L (au_ID u))"
    using assms(2) plain_key_scans by (simp add: uuid_plain_def ID_String_def)
  then have "\<forall>d < maxNestingDepth. wf_json d (ActiveUser_tree L u b)"
    using b(2) ActiveUser_keys [THEN plain_key_scans] by (simp add: ActiveUser_tree_def)
  moreover have "decode_struct (ActiveUser_fields L T) (zero_ActiveUser T) (ActiveUser_tree L u b) = Inr u"
    using ActiveUser_keys [THEN plain_key_unescape] b(3) ID_raw [OF assms(1)] assms(4)
    by (simp add: ActiveUser_tree_def ActiveUser_fields_def zero_ActiveUser_def find_field_def set_custom_def
        good_user_def)
  ultimately show ?thesis using b(1) by blast
qed

lemma user_trees_decode:
  assumes "uuid_laws L" and "uuid_plain L" and "time_laws T in_range" and "\<forall>u \<in> set us. good_user in_range u"
    and "d < maxNestingDepth"
  shows "\<exists>ts. user_trees L T us = Inr ts \<and> wf_elems d ts \<and> decode_list (ActiveUser_fields L T) (zero_ActiveUser T) ts = Inr us"
  using assms(4)
proof (induction us)
  case (Cons u us)
  then obtain b ts where "tm_Marshal T (au_LastSeen u) = Inr b" "wf_json d (ActiveUser_tree L u b)"
    "decode_struct (ActiveUser_fields L T) (zero_ActiveUser T) (ActiveUser_tree L u b) = Inr u"
    "user_trees L T us = Inr ts" "wf_elems d ts" "decode_list (ActiveUser_fields L T) (zero_ActiveUser T) ts = Inr us"
    using ActiveUser_tree_decodes [OF assms(1-3), of u] assms(5) by auto
  then show ?case by simp
qed simp

lemma active_users_response_roundtrip:
  assumes "uuid_laws L" and "uuid_plain L" and "time_laws T in_range" and "\<forall>u \<in> set us. good_user in_range u"
  shows "FromJSONBytes (active_users_response_fields L T) [] (resp_text (ActiveUsersResponse L T us)) = Some us"
proof -
  have "2 < maxNestingDepth" by (simp add: maxNestingDepth_def)
  then obtain ts where ts: "user_trees L T us = Inr ts" "wf_elems 2 ts"
    "decode_list (ActiveUser_fields L T) (zero_ActiveUser T) ts = Inr us"
    using user_trees_decode [OF assms] by blast
  have "wf_json 0 (JObj [(''activeUsers'', JArr ts)])"
    using ts(2) response_keys [THEN plain_key_scans] by (simp add: maxNestingDepth_def numeral_2_eq_2)
  note decode = json_Unmarshal_newline [OF this]
  have "resp_text (ActiveUsersResponse L T us) = render (JObj [(''activeUsers'', JArr ts)]) @ newline"
    using ts(1) by (simp add: ActiveUsersResponse_def resp_text_def)
  then show ?thesis
    unfolding FromJSONBytes_def using ts(3) response_keys [THEN plain_key_unescape]
    by (simp only: decode) (simp add: active_users_response_fields_def find_field_def)
qed

section \<open>The transport\<close>

text \<open>
  \<open>connects\<close>: behind an address stands a handler. The client's transport hands a request to it, with headers of
  its own, but none for the authorization, and gives back the status (200 when the handler set none) and
  the body that the handler wrote.
\<close>

definition request_of :: "string \<Rightarrow> string \<Rightarrow> string \<Rightarrow> (string \<times> string) list \<Rightarrow> Principal option request" where
  "request_of method path body headers =
     \<lparr>rq_method = method, rq_path = path, rq_headers = headers, rq_body = body, rq_ctx = None\<rparr>"

definition written_status :: "response_writer \<Rightarrow> int" where
  "written_status w = (case w_status w of None \<Rightarrow> StatusOK | Some code \<Rightarrow> code)"

definition connects :: "'s http_lib \<Rightarrow> (Principal option, 's) handler \<Rightarrow> string \<Rightarrow> string list \<Rightarrow> bool" where
  "connects H h address paths \<longleftrightarrow>
     (\<forall>method path body headers s. path \<in> set paths \<longrightarrow> method \<in> {MethodGet, MethodPost} \<longrightarrow>
        lib_NewRequest H method (''http://'' @ address @ path) = None \<and>
        (\<exists>extra. ''Authorization'' \<notin> fst ` set extra \<and>
           (\<forall>w s'. h (request_of method path body (headers @ extra)) (fresh_writer, s) = Ret (w, s') \<longrightarrow>
              lib_Do H method (''http://'' @ address @ path) body headers s =
                (Inr (written_status w, Inr (w_body w)), s'))))"

lemma connectsD:
  assumes "connects H h address paths" and "path \<in> set paths" and "method \<in> {MethodGet, MethodPost}"
  shows "lib_NewRequest H method (''http://'' @ address @ path) = None"
    and "\<exists>extra. ''Authorization'' \<notin> fst ` set extra \<and>
      (\<forall>w s'. h (request_of method path body (headers @ extra)) (fresh_writer, s) = Ret (w, s') \<longrightarrow>
         lib_Do H method (''http://'' @ address @ path) body headers s = (Inr (written_status w, Inr (w_body w)), s'))"
proof -
  note law = assms(1) [unfolded connects_def, THEN spec, THEN spec, THEN spec, THEN spec, THEN spec, THEN mp,
      OF assms(2), THEN mp, OF assms(3)]
  show "lib_NewRequest H method (''http://'' @ address @ path) = None" by (rule law [THEN conjunct1])
  show "\<exists>extra. ''Authorization'' \<notin> fst ` set extra \<and>
      (\<forall>w s'. h (request_of method path body (headers @ extra)) (fresh_writer, s) = Ret (w, s') \<longrightarrow>
         lib_Do H method (''http://'' @ address @ path) body headers s = (Inr (written_status w, Inr (w_body w)), s'))"
    by (rule law [THEN conjunct2])
qed

lemma exec_ok_connected:
  assumes "connects H h address paths" and "path \<in> set paths" and "method \<in> {MethodGet, MethodPost}"
    and "\<And>extra. ''Authorization'' \<notin> fst ` set extra \<Longrightarrow>
      h (request_of method path body (headers @ extra)) (fresh_writer, s) = Ret (RespondWithJSON v fresh_writer, s')"
  shows "exec_ok H (Some (method, ''http://'' @ address @ path, body, headers)) s = (Some (resp_text v), s')"
proof -
  obtain extra where extra: "''Authorization'' \<notin> fst ` set extra"
    "\<And>w s'. h (request_of method path body (headers @ extra)) (fresh_writer, s) = Ret (w, s') \<Longrightarrow>
      lib_Do H method (''http://'' @ address @ path) body headers s = (Inr (written_status w, Inr (w_body w)), s')"
    using connectsD(2) [OF assms(1-3)] by blast
  note answer = extra(2) [OF assms(4) [OF extra(1)]]
  show ?thesis
    using answer RespondWithJSON_simps(1,3) [of fresh_writer v]
    by (simp add: exec_ok_def HTTPExec_def written_status_def)
qed

lemma createReq_connected:
  assumes "connects H h (tst_address g) paths" and "path \<in> set paths" and "method \<in> {MethodGet, MethodPost}"
  shows "createReq H g method path body = Some (method, ''http://'' @ tst_address g @ path, body, [])"
    and "tst_token g \<noteq> [] \<Longrightarrow> createAuthenticatedReq H g method path body =
      Some (method, ''http://'' @ tst_address g @ path, body, [(''Authorization'', bearer @ tst_token g)])"
  using connectsD(1) [OF assms] by (simp_all add: createReq_def createAuthenticatedReq_def bearer_def)

section \<open>The steps of a session, from the client's side\<close>

definition session_paths :: "string list" where
  "session_paths = [''/register'', ''/login'', ''/heartbeat'', ''/active-users'']"

lemma request_of_credentials:
  "request_of MethodPost path (ToJSONBody (credentials name pw)) hs = (credentials_request path name pw)\<lparr>rq_headers := hs\<rparr>"
  by (simp add: request_of_def credentials_request_def ToJSONBody_def)

lemma request_of_simps [simp]:
  "rq_method (request_of m p b hs) = m" "rq_path (request_of m p b hs) = p" "rq_headers (request_of m p b hs) = hs"
  by (simp_all add: request_of_def)

lemma authorized_header: "header_Get ''Authorization'' ((''Authorization'', x) # extra) = x"
  by (simp add: header_Get_def)

lemma tester_registers:
  assumes "gw_Configure L T svc lg (\<lambda>h. h) mh = Ret mux" and "dispatch_laws serve"
    and "connects H (serve mux) (tst_address g) session_paths"
    and "valid_utf8 name" and "valid_utf8 pw" and "svc_Register svc name pw s = (None, s')"
  shows "tester_Register H g name pw s =
    (Some (), lg \<lparr>le_method = MethodPost, le_path = ''/register'', le_status_code = StatusOK\<rparr> s')"
proof -
  have path: "''/register'' \<in> set session_paths" "MethodPost \<in> {MethodGet, MethodPost}" by (simp_all add: session_paths_def)
  have "serve mux (request_of MethodPost ''/register'' (ToJSONBody (credentials name pw)) ([] @ extra)) (fresh_writer, s) =
      Ret (RespondWithJSON RegistrationResponse fresh_writer,
        lg \<lparr>le_method = MethodPost, le_path = ''/register'', le_status_code = StatusOK\<rparr> s')" for extra
    unfolding request_of_credentials by (rule register_served_headers [OF assms(1,2,4-6)])
  from exec_ok_connected [OF assms(3) path this] show ?thesis
    by (simp add: tester_Register_def createReq_connected(1) [OF assms(3) path])
qed

lemma tester_logs_in:
  assumes "gw_Configure L T svc lg (\<lambda>h. h) mh = Ret mux" and "dispatch_laws serve"
    and "connects H (serve mux) (tst_address g) session_paths"
    and "valid_utf8 name" and "valid_utf8 pw" and "svc_Login svc name pw s = Ret (Inr token)"
    and "valid_utf8 token" and "token \<noteq> []"
  shows "tester_Login H g name pw s = (Some (token, g\<lparr>tst_token := token\<rparr>),
    lg \<lparr>le_method = MethodPost, le_path = ''/login'', le_status_code = StatusOK\<rparr> s)"
proof -
  have path: "''/login'' \<in> set session_paths" "MethodPost \<in> {MethodGet, MethodPost}" by (simp_all add: session_paths_def)
  have "serve mux (request_of MethodPost ''/login'' (ToJSONBody (credentials name pw)) ([] @ extra)) (fresh_writer, s) =
      Ret (RespondWithJSON (LoginResponse token) fresh_writer,
        lg \<lparr>le_method = MethodPost, le_path = ''/login'', le_status_code = StatusOK\<rparr> s)" for extra
    unfolding request_of_credentials by (rule login_served_headers [OF assms(1,2,4-6)])
  from exec_ok_connected [OF assms(3) path this] show ?thesis
    using login_response_roundtrip [OF assms(7,8)] assms(8)
    by (simp add: tester_Login_def createReq_connected(1) [OF assms(3) path])
qed

lemma tester_beats:
  assumes "gw_Configure L T svc lg (\<lambda>h. h) mh = Ret mux" and "dispatch_laws serve"
    and "connects H (serve mux) (tst_address g) session_paths"
    and "svc_AuthMiddleware svc = HTTPTokenAuthorizationMiddleware validate" and "validate (tst_token g) s = Inr p"
    and "tst_token g \<noteq> []" and "svc_HeartBeat svc (Some p) s = Ret (None, s')"
  shows "tester_Heartbeat H g s =
    (Some (), lg \<lparr>le_method = MethodPost, le_path = ''/heartbeat'', le_status_code = StatusOK\<rparr> s')"
proof -
  have path: "''/heartbeat'' \<in> set session_paths" "MethodPost \<in> {MethodGet, MethodPost}" by (simp_all add: session_paths_def)
  have "serve mux (request_of MethodPost ''/heartbeat'' [] ([(''Authorization'', bearer @ tst_token g)] @ extra)) (fresh_writer, s) =
      Ret (RespondWithJSON DefaultOKResponse fresh_writer,
        lg \<lparr>le_method = MethodPost, le_path = ''/heartbeat'', le_status_code = StatusOK\<rparr> s')" for extra
    by (rule heartbeat_served_headers [OF assms(1,2,4,5,7)]) (simp_all add: authorized_header)
  from exec_ok_connected [OF assms(3) path this] show ?thesis
    by (simp add: tester_Heartbeat_def createReq_connected(2) [OF assms(3) path assms(6)])
qed

lemma tester_lists:
  assumes "gw_Configure L T svc lg (\<lambda>h. h) mh = Ret mux" and "dispatch_laws serve"
    and "connects H (serve mux) (tst_address g) session_paths"
    and "svc_AuthMiddleware svc = HTTPTokenAuthorizationMiddleware validate" and "validate (tst_token g) s = Inr p"
    and "tst_token g \<noteq> []" and "svc_ActiveUsers svc s = Inr us"
    and "uuid_laws L" and "uuid_plain L" and "time_laws T in_range" and "\<forall>u \<in> set us. good_user in_range u"
  shows "tester_ActiveUsers L T H g s =
    (Some us, lg \<lparr>le_method = MethodGet, le_path = ''/active-users'', le_status_code = StatusOK\<rparr> s)"
proof -
  have path: "''/active-users'' \<in> set session_paths" "MethodGet \<in> {MethodGet, MethodPost}" by (simp_all add: session_paths_def)
  have "serve mux (request_of MethodGet ''/active-users'' [] ([(''Authorization'', bearer @ tst_token g)] @ extra)) (fresh_writer, s) =
      Ret (RespondWithJSON (ActiveUsersResponse L T us) fresh_writer,
        lg \<lparr>le_method = MethodGet, le_path = ''/active-users'', le_status_code = StatusOK\<rparr> s)" for extra
    by (rule active_users_served_headers [OF assms(1,2,4,5,7)]) (simp_all add: authorized_header)
  from exec_ok_connected [OF assms(3) path this] show ?thesis
    using active_users_response_roundtrip [OF assms(8-11)]
    by (simp add: tester_ActiveUsers_def createReq_connected(2) [OF assms(3) path assms(6)])
qed

lemma a_day_ahead: "t < (t + tokenDuration) div Second * Second"
  by (simp add: tokenDuration_def Second_eq)

lemma record_log_simps [simp]:
  "gw_db (record_log e s) = gw_db s" "gw_store (record_log e s) = gw_store s" "gw_clock (record_log e s) = gw_clock s"
  "gw_log (record_log e s) = gw_log s @ [e]"
  by (simp_all add: record_log_def)

lemma only_element: "distinct (map f xs) \<Longrightarrow> (\<And>v. v \<in> set xs \<longleftrightarrow> v = a) \<Longrightarrow> xs = [a]"
proof -
  assume "distinct (map f xs)" and "\<And>v. v \<in> set xs \<longleftrightarrow> v = a"
  then have "distinct xs" "set xs = {a}" by (auto simp: distinct_map)
  then show ?thesis by (metis distinct_card card_1_singletonE length_0_conv length_Suc_conv One_nat_def
    card.empty card_insert_disjoint finite.emptyI insert_absorb insert_not_empty list.set_intros(1) singletonD)
qed

section \<open>The two halves of the session\<close>

text \<open>The log entry of an answered request, and the tester once it has its token.\<close>

definition answered :: "string \<Rightarrow> string \<Rightarrow> log_entry" where
  "answered method path = \<lparr>le_method = method, le_path = path, le_status_code = StatusOK\<rparr>"

lemmas answered_simps = answered_def [symmetric]

lemma tester_enters:
  assumes "gw_Configure L T (gw_http_services (gw_services_of L G B T R c J sk pk draw intn order forward))
      record_log (\<lambda>h. h) mh = Ret mux" and "dispatch_laws serve" and "connects H (serve mux) (tst_address g) session_paths"
    and "uuid_laws L" and "gorm_laws G collate rows up" and "bcrypt_laws B" and "valid_utf8 name" and "valid_utf8 pw"
    and "draw s = (u, salt)" and "Register L G B u salt name pw (gw_db s) = (None, g')" and "up g'"
    and "JWTIssuer_Issue J sk (gw_clock s) \<lparr>p_ID = NewID u, p_UserName = name\<rparr> = Inr token"
    and "valid_utf8 token" and "token \<noteq> []"
  shows "tester_Register H g name pw s = (Some (), record_log (answered MethodPost ''/register'') (s\<lparr>gw_db := g'\<rparr>))"
    and "tester_Login H g name pw (record_log (answered MethodPost ''/register'') (s\<lparr>gw_db := g'\<rparr>)) =
      (Some (token, g\<lparr>tst_token := token\<rparr>),
       record_log (answered MethodPost ''/login'') (record_log (answered MethodPost ''/register'') (s\<lparr>gw_db := g'\<rparr>)))"
proof -
  let ?svc = "gw_services_of L G B T R c J sk pk draw intn order forward"
  have "svc_Register (gw_http_services ?svc) name pw s = (None, s\<lparr>gw_db := g'\<rparr>)"
    by (simp add: gw_services_of_def assms(9,10))
  from tester_registers [OF assms(1-3,7,8) this]
  show "tester_Register H g name pw s = (Some (), record_log (answered MethodPost ''/register'') (s\<lparr>gw_db := g'\<rparr>))"
    by (simp add: answered_def)
  obtain h where h: "bc_Generate B pw salt = Inr h" "rows g' = (rows (gw_db s))(collate name \<mapsto>
      \<lparr>usr_ID = ID_String L (NewID u), usr_Username = name, usr_Password = h\<rparr>)"
    using registered_row [OF assms(5,10)] by blast
  have "Login L G B (JWTIssuer_Issue J sk (gw_clock s)) name pw g' = Ret (Inr token)"
    using login_of_row [OF assms(4-6,11) _ h(1), of name "NewID u" name "JWTIssuer_Issue J sk (gw_clock s)"] h(2) assms(12)
    by simp
  then have "svc_Login (gw_http_services ?svc) name pw (record_log e (s\<lparr>gw_db := g'\<rparr>)) = Ret (Inr token)" for e
    by (simp add: gw_services_of_def)
  from tester_logs_in [OF assms(1-3,7,8) this assms(13,14)]
  show "tester_Login H g name pw (record_log (answered MethodPost ''/register'') (s\<lparr>gw_db := g'\<rparr>)) =
      (Some (token, g\<lparr>tst_token := token\<rparr>),
       record_log (answered MethodPost ''/login'') (record_log (answered MethodPost ''/register'') (s\<lparr>gw_db := g'\<rparr>)))"
    by (simp add: answered_def)
qed

lemma tester_lists_active:
  assumes "gw_Configure L T (gw_http_services (gw_services_of L G B T R c J sk pk draw intn order forward))
      record_log (\<lambda>h. h) mh = Ret mux" and "dispatch_laws serve" and "connects H (serve mux) (tst_address g) session_paths"
    and "uuid_laws L" and "uuid_plain L" and "time_laws T in_range"
    and "JWTValidator_Validate J pk gw_clock (tst_token g) s = Inr p" and "tst_token g \<noteq> []"
    and "redis_ready R rup view (gw_store s)" and "coll_ok c activeUsersCollection"
    and "tracker_inv L T in_range c view (gw_store s)"
  shows "\<exists>us. tester_ActiveUsers L T H g s = (Some us, record_log (answered MethodGet ''/active-users'') s) \<and>
    distinct (map au_ID us) \<and> (\<forall>v. v \<in> set us \<longleftrightarrow> active L T in_range c view (gw_store s) v)"
proof -
  let ?svc = "gw_services_of L G B T R c J sk pk draw intn order forward"
  obtain us where us: "tracker_ActiveUsers L T (redis_Store R c) (gw_store s) = Inr us" "distinct (map au_ID us)"
    "\<forall>v. v \<in> set us \<longleftrightarrow> active L T in_range c view (gw_store s) v"
    using tracker_lists [OF assms(4-6,9-11)] by blast
  have auth: "svc_AuthMiddleware (gw_http_services ?svc) = HTTPTokenAuthorizationMiddleware (JWTValidator_Validate J pk gw_clock)"
    by (simp add: gw_services_of_def)
  have listed: "svc_ActiveUsers (gw_http_services ?svc) s = Inr us" by (simp add: gw_services_of_def us(1))
  have good: "\<forall>v \<in> set us. good_user in_range v" using us(3) by (simp add: active_def)
  show ?thesis
    using tester_lists [OF assms(1-3) auth assms(7,8) listed assms(4-6) good] us(2,3) by (auto simp: answered_def)
qed

lemma tester_beats_active:
  assumes "gw_Configure L T (gw_http_services (gw_services_of L G B T R c J sk pk draw intn order forward))
      record_log (\<lambda>h. h) mh = Ret mux" and "dispatch_laws serve" and "connects H (serve mux) (tst_address g) session_paths"
    and "uuid_laws L" and "uuid_plain L" and "time_laws T in_range"
    and "JWTValidator_Validate J pk gw_clock (tst_token g) s = Inr p" and "tst_token g \<noteq> []"
    and "redis_ready R rup view (gw_store s)" and "coll_ok c activeUsersCollection"
    and "tracker_inv L T in_range c view (gw_store s)" and "valid_utf8 (p_UserName p)" and "in_range (gw_clock s)"
  shows "\<exists>r. tester_Heartbeat H g s = (Some (), record_log (answered MethodPost ''/heartbeat'') (s\<lparr>gw_store := r\<rparr>)) \<and>
    redis_ready R rup view r \<and> tracker_inv L T in_range c view r \<and>
    (\<forall>v. active L T in_range c view r v \<longleftrightarrow> (if au_ID v = p_ID p
       then v = \<lparr>au_ID = p_ID p, au_Username = p_UserName p, au_LastSeen = gw_clock s\<rparr>
       else active L T in_range c view (gw_store s) v))"
proof -
  let ?svc = "gw_services_of L G B T R c J sk pk draw intn order forward"
  let ?au = "\<lparr>au_ID = p_ID p, au_Username = p_UserName p, au_LastSeen = gw_clock s\<rparr>"
  have "good_user in_range ?au" using assms(12,13) by (simp add: good_user_def)
  then obtain r where r: "tracker_HeartBeat L T (redis_Store R c) (Some p) (gw_clock s) (gw_store s) = Ret (None, r)"
    "redis_ready R rup view r" "tracker_inv L T in_range c view r"
    "\<forall>v. active L T in_range c view r v \<longleftrightarrow> (if au_ID v = p_ID p then v = ?au else active L T in_range c view (gw_store s) v)"
    using heartbeat_effect [OF assms(4-6,9-11) refl] by blast
  have auth: "svc_AuthMiddleware (gw_http_services ?svc) = HTTPTokenAuthorizationMiddleware (JWTValidator_Validate J pk gw_clock)"
    by (simp add: gw_services_of_def)
  have beat: "svc_HeartBeat (gw_http_services ?svc) (Some p) s = Ret (None, s\<lparr>gw_store := r\<rparr>)"
    using r(1) by (simp add: gw_services_of_def)
  show ?thesis
    using tester_beats [OF assms(1-3) auth assms(7,8) beat] r(2-4) by (auto simp: answered_def)
qed

section \<open>The property\<close>

text \<open>C7: The session of the integration tests meets all its requirements, as the client sees it, byte for byte:
  against a gateway whose database accepts the registration and whose store works, registering, logging
  in, listing, a heartbeat and listing again are all answered with 200 and bodies that decode. The first
  list is exactly the users that the store holds as active; the second differs from it in one entry,
  that of the registered identity with the present time, and is that entry alone when nobody was active.\<close>

theorem tester_session_succeeds:
  assumes "gw_Configure L T (gw_http_services (gw_services_of L G B T R c J sk pk draw intn order forward))
      record_log (\<lambda>h. h) mh = Ret mux" and "dispatch_laws serve" and "connects H (serve mux) address session_paths"
    and "uuid_laws L" and "uuid_plain L" and "gorm_laws G collate rows up" and "bcrypt_laws B" and "jwt_laws J sk pk"
    and "time_laws T in_range" and "valid_utf8 name" and "valid_utf8 pw"
    and "draw s = (u, salt)" and "Register L G B u salt name pw (gw_db s) = (None, g')" and "up g'"
    and "JWTIssuer_Issue J sk (gw_clock s) \<lparr>p_ID = NewID u, p_UserName = name\<rparr> = Inr token"
    and "valid_utf8 token" and "token \<noteq> []" and "in_range (gw_clock s)"
    and "redis_ready R rup view (gw_store s)" and "coll_ok c activeUsersCollection"
    and "tracker_inv L T in_range c view (gw_store s)"
  shows "\<exists>before after s'. tester_session L T H (NewTester address) name pw s = (Some (before, after), s') \<and>
    map le_status_code (gw_log s') = map le_status_code (gw_log s) @ replicate 5 StatusOK \<and>
    (\<forall>v. v \<in> set before \<longleftrightarrow> active L T in_range c view (gw_store s) v) \<and>
    (\<forall>v. v \<in> set after \<longleftrightarrow> (if au_ID v = NewID u
       then v = \<lparr>au_ID = NewID u, au_Username = name, au_LastSeen = gw_clock s\<rparr> else v \<in> set before)) \<and>
    (before = [] \<longrightarrow> after = [\<lparr>au_ID = NewID u, au_Username = name, au_LastSeen = gw_clock s\<rparr>])"
proof -
  let ?p = "\<lparr>p_ID = NewID u, p_UserName = name\<rparr>"
  let ?au = "\<lparr>au_ID = NewID u, au_Username = name, au_LastSeen = gw_clock s\<rparr>"
  let ?new = "NewTester address" and ?g = "(NewTester address)\<lparr>tst_token := token\<rparr>"
  have net: "connects H (serve mux) (tst_address ?new) session_paths" "connects H (serve mux) (tst_address ?g) session_paths"
    using assms(3) by (simp_all add: NewTester_def)
  have token: "tst_token ?g \<noteq> []" using assms(17) by simp
  have valid: "JWTValidator_Validate J pk gw_clock (tst_token ?g) x = Inr ?p" if "gw_clock x = gw_clock s" for x
    using issued_token_validity(1) [where clock = gw_clock and s = x and p = ?p and now = "gw_clock s", OF assms(8)]
      assms(10,15) that a_day_ahead by simp
  define s1 where "s1 = record_log (answered MethodPost ''/register'') (s\<lparr>gw_db := g'\<rparr>)"
  define s2 where "s2 = record_log (answered MethodPost ''/login'') s1"
  note enter = tester_enters [OF assms(1,2) net(1) assms(4,6,7,10-17), folded s1_def s2_def]
  have s2: "gw_store s2 = gw_store s" "gw_clock s2 = gw_clock s" by (simp_all add: s2_def s1_def)
  obtain us where us: "tester_ActiveUsers L T H ?g s2 = (Some us, record_log (answered MethodGet ''/active-users'') s2)"
    "\<And>v. v \<in> set us \<longleftrightarrow> active L T in_range c view (gw_store s) v"
    using tester_lists_active [OF assms(1,2) net(2) assms(4,5,9) valid [OF s2(2)] token _ assms(20), where view = view]
      assms(19,21) s2 by auto
  define s3 where "s3 = record_log (answered MethodGet ''/active-users'') s2"
  have s3: "gw_store s3 = gw_store s" "gw_clock s3 = gw_clock s" by (simp_all add: s3_def s2)
  have st3: "redis_ready R rup view (gw_store s3)" "tracker_inv L T in_range c view (gw_store s3)" "in_range (gw_clock s3)"
    using assms(18,19,21) s3 by simp_all
  have utf8: "valid_utf8 (p_UserName ?p)" using assms(10) by simp
  obtain r where r: "tester_Heartbeat H ?g s3 = (Some (), record_log (answered MethodPost ''/heartbeat'') (s3\<lparr>gw_store := r\<rparr>))"
    "redis_ready R rup view r" "tracker_inv L T in_range c view r"
    "\<And>v. active L T in_range c view r v \<longleftrightarrow> (if au_ID v = NewID u then v = ?au else active L T in_range c view (gw_store s) v)"
    using tester_beats_active [OF assms(1,2) net(2) assms(4,5,9) valid [OF s3(2)] token st3(1) assms(20) st3(2) utf8 st3(3)]
    unfolding s3 Principal.simps by blast
  define s4 where "s4 = record_log (answered MethodPost ''/heartbeat'') (s3\<lparr>gw_store := r\<rparr>)"
  have s4: "gw_store s4 = r" "gw_clock s4 = gw_clock s" by (simp_all add: s4_def s3)
  obtain ws where ws: "tester_ActiveUsers L T H ?g s4 = (Some ws, record_log (answered MethodGet ''/active-users'') s4)"
    "distinct (map au_ID ws)" "\<And>v. v \<in> set ws \<longleftrightarrow> active L T in_range c view r v"
    using tester_lists_active [OF assms(1,2) net(2) assms(4,5,9) valid [OF s4(2)] token _ assms(20), where view = view]
      r(2,3) s4 by auto
  define s5 where "s5 = record_log (answered MethodGet ''/active-users'') s4"
  have run: "tester_session L T H ?new name pw s = (Some (us, ws), s5)"
    by (simp add: tester_session_def enter us(1) [folded s3_def] r(1) [folded s4_def] ws(1) [folded s5_def])
  have logs: "map le_status_code (gw_log s5) = map le_status_code (gw_log s) @ replicate 5 StatusOK"
    by (simp add: s5_def s4_def s3_def s2_def s1_def answered_def numeral_eq_Suc)
  have after: "v \<in> set ws \<longleftrightarrow> (if au_ID v = NewID u then v = ?au else v \<in> set us)" for v
    using ws(3) r(4) us(2) by simp
  have "ws = [?au]" if "us = []"
    by (rule only_element [OF ws(2)]) (use after that in auto)
  with run logs us(2) after show ?thesis by auto
qed

text \<open>A transport that calls the handler behind every address.\<close>

definition ref_transport :: "(Principal option, 's) handler \<Rightarrow> nat \<Rightarrow> 's http_lib" where
  "ref_transport h n =
     \<lparr>lib_NewRequest = (\<lambda>method url. None),
      lib_Do = (\<lambda>method url body headers s.
        case h (request_of method (drop (length ''http://'' + n) url) body headers) (fresh_writer, s) of
          Ret (w, s') \<Rightarrow> (Inr (written_status w, Inr (w_body w)), s')
        | Panic m \<Rightarrow> (Inl (Opaque m), s))\<rparr>"

lemma ref_transport_connects: "connects (ref_transport h (length address)) h address paths"
proof -
  have "drop (length ''http://'' + length address) (''http://'' @ address @ path) = path" for path by simp
  then have "lib_Do (ref_transport h (length address)) meth (''http://'' @ address @ path) body headers s =
      (Inr (written_status w, Inr (w_body w)), s')"
    if "h (request_of meth path body (headers @ [])) (fresh_writer, s) = Ret (w, s')" for meth path body headers s w s'
    using that by (simp add: ref_transport_def)
  moreover have "lib_NewRequest (ref_transport h (length address)) meth url = None" for meth url
    by (simp add: ref_transport_def)
  moreover have "''Authorization'' \<notin> fst ` set []" by simp
  ultimately show ?thesis unfolding connects_def by (metis (no_types, lifting))
qed

theorem tester_session_succeeds_witness:
  "\<exists>mux s'. gw_Configure ref_uuid ref_int_time (gw_http_services ref_services) record_log (\<lambda>h. h) (\<lambda>r st. Ret st) = Ret mux \<and>
     tester_session ref_uuid ref_int_time (ref_transport (ref_serve mux) (length ''gw:80'')) (NewTester ''gw:80'') ''bob'' ''pw'' ref_gateway =
       (Some ([], [\<lparr>au_ID = NewID 7, au_Username = ''bob'', au_LastSeen = 0\<rparr>]), s')"
proof -
  obtain mux where mux: "gw_Configure ref_uuid ref_int_time (gw_http_services ref_services) record_log (\<lambda>h. h)
      (\<lambda>r st. Ret st) = Ret mux"
    by (simp add: gw_Configure_mux)
  have utf8: "valid_utf8 ''bob''" "valid_utf8 ''pw''" "valid_utf8 ''tok''" by (auto intro!: valid_utf8_ascii)
  have g: "gw_db ref_gateway = []" "gw_store ref_gateway = ([], 0)" "gw_clock ref_gateway = 0" by (simp_all add: ref_gateway_def)
  obtain g' where register: "Register ref_uuid ref_gorm ref_bcrypt 7 [] ''bob'' ''pw'' (gw_db ref_gateway) = (None, g')"
    by (simp add: g Register_def UsersDB_Create_def ref_bcrypt_def ref_gorm_def BeforeCreate_def)
  have token: "JWTIssuer_Issue ref_jwt () (gw_clock ref_gateway) \<lparr>p_ID = NewID 7, p_UserName = ''bob''\<rparr> = Inr ''tok''"
    by (simp add: g JWTIssuer_Issue_def ref_jwt_def ref_claims_def NewNumericDate_def tokenDuration_def Second_eq NewID_def)
  have ready: "redis_ready ref_redis ref_up ref_view (gw_store ref_gateway)"
    using ref_redis_laws by (simp add: g redis_ready_def ref_up_def)
  have coll: "coll_ok (NewRedisClient []) activeUsersCollection" by code_simp
  have empty: "redis_item (NewRedisClient []) ref_view (gw_store ref_gateway) activeUsersCollection k = None" for k
    by (simp add: g redis_item_def live_def ref_view_def)
  then have inv: "tracker_inv ref_uuid ref_int_time (\<lambda>t. 0 \<le> t) (NewRedisClient []) ref_view (gw_store ref_gateway)"
    by (simp add: tracker_inv_def)
  have range: "0 \<le> gw_clock ref_gateway" by (simp add: g)
  have "''tok'' \<noteq> []" by simp
  from tester_session_succeeds [where in_range = "\<lambda>t. 0 \<le> t" and draw = "\<lambda>s. (7, [])" and address = "''gw:80''",
      OF mux [unfolded ref_services_def] ref_serve_laws ref_transport_connects ref_uuid_laws ref_uuid_plain ref_gorm_laws
      ref_bcrypt_laws ref_jwt_laws ref_int_time_laws utf8(1,2) refl register TrueI token utf8(3) this range ready coll inv]
  obtain before after s' where run: "tester_session ref_uuid ref_int_time (ref_transport (ref_serve mux) (length ''gw:80''))
      (NewTester ''gw:80'') ''bob'' ''pw'' ref_gateway = (Some (before, after), s')"
    and "\<forall>v. v \<in> set before \<longleftrightarrow> active ref_uuid ref_int_time (\<lambda>t. 0 \<le> t) (NewRedisClient []) ref_view (gw_store ref_gateway) v"
    and after: "before = [] \<longrightarrow> after = [\<lparr>au_ID = NewID 7, au_Username = ''bob'', au_LastSeen = gw_clock ref_gateway\<rparr>]"
    by blast
  then have "before = []" using empty by (auto simp: active_def simp flip: set_empty)
  with run after mux show ?thesis by (auto simp: g)
qed

end
