(* ===== verification/Config.thy ===== *)
theory Config
  imports Auth MemStore
begin

text \<open>
  Reading the configuration and building what it describes: \<open>pkg/config\<close>, \<open>pkg/db\<close>, \<open>pkg/net\<close>,
  \<open>pkg/logger\<close>, the configurations of the store, of etcd and of the registerer, and the \<open>main\<close>
  functions of the two servers. The libraries that open connections and sockets are parameters.
\<close>

section \<open>pkg/db\<close>

definition defaultDBType :: string where "defaultDBType = ''mysql''"
definition defaultHost :: string where "defaultHost = ''localhost''"
definition defaultPort :: int where "defaultPort = 3306"

record db_Configuration =
  DBType :: string
  DataSourceName :: string
  Host :: string
  Port :: int
  Database :: string
  Username :: string
  Password :: string

definition MysqlDNS :: "string \<Rightarrow> string \<Rightarrow> string \<Rightarrow> int \<Rightarrow> string \<Rightarrow> string" where
  "MysqlDNS username password host port database =
     username @ '':'' @ password @ ''@tcp('' @ host @ '':'' @ show_int port @ '')/'' @ database @
       ''?charset=utf8mb4&parseTime=True&loc=Local''"

text \<open>The method has a value receiver: what it sets is set in its copy, the second component.\<close>

definition validateAndSetDefaults :: "db_Configuration \<Rightarrow> go_error option \<times> db_Configuration" where
  "validateAndSetDefaults c =
     (let c = (if DBType c = [] then c\<lparr>DBType := defaultDBType\<rparr> else c);
          c = (if Host c = [] then c\<lparr>Host := defaultHost\<rparr> else c);
          c = (if Port c = 0 then c\<lparr>Port := defaultPort\<rparr> else c)
      in (None, c))"

datatype dialector = MysqlOpen string

definition createDialector :: "db_Configuration \<Rightarrow> dialector result" where
  "createDialector c =
     (let dsn = DataSourceName c in
      if DBType c = ''mysql''
      then let dsn = (if dsn = [] then MysqlDNS (Username c) (Password c) (Host c) (Port c) (Database c) else dsn)
           in Inr (MysqlOpen dsn)
      else Inl (Opaque (''database type '' @ DBType c @ '' not supported'')))"

definition db_Build :: "(dialector \<Rightarrow> 's \<Rightarrow> 'g result \<times> 's) \<Rightarrow> db_Configuration \<Rightarrow> 's \<Rightarrow> 'g result \<times> 's" where
  "db_Build gorm_Open c s =
     (case fst (validateAndSetDefaults c) of
        Some err \<Rightarrow> (Inl (Wrapped ''validating config'' err), s)
      | None \<Rightarrow>
          (case createDialector c of
             Inl err \<Rightarrow> (Inl (Wrapped ''constructing dialector'' err), s)
           | Inr d \<Rightarrow> gorm_Open d s))"

text \<open>The defaults never take effect: without a type the build fails, and a host or port left out reaches
  the connection string as it is.\<close>

lemma defaults_set: "DBType (snd (validateAndSetDefaults c)) \<noteq> []" "Host (snd (validateAndSetDefaults c)) \<noteq> []"
  "Port (snd (validateAndSetDefaults c)) \<noteq> 0"
  by (simp_all add: validateAndSetDefaults_def Let_def defaultDBType_def defaultHost_def defaultPort_def)

lemma db_Build_without_type:
  assumes "DBType c = []"
  shows "db_Build gorm_Open c s =
    (Inl (Wrapped ''constructing dialector'' (Opaque (''database type '' @ '' not supported''))), s)"
  using assms by (simp add: db_Build_def validateAndSetDefaults_def createDialector_def Let_def)

lemma db_Build_mysql:
  assumes "DBType c = ''mysql''" and "DataSourceName c = []"
  shows "db_Build gorm_Open c s =
    gorm_Open (MysqlOpen (MysqlDNS (Username c) (Password c) (Host c) (Port c) (Database c))) s"
  using assms by (simp add: db_Build_def validateAndSetDefaults_def createDialector_def Let_def)

section \<open>pkg/net\<close>

record 'l ListenAddr =
  la_address :: string
  la_listener :: "'l option"

text \<open>A nil receiver is dereferenced by the locking of its mutex, before the check for nil.\<close>

definition nil_dereference :: string where
  "nil_dereference = ''runtime error: invalid memory address or nil pointer dereference''"

definition ListenAddr_String :: "('l \<Rightarrow> string) \<Rightarrow> 'l ListenAddr option \<Rightarrow> string go" where
  "ListenAddr_String Addr a =
     (case a of
        None \<Rightarrow> Panic nil_dereference
      | Some a \<Rightarrow>
          (case la_listener a of
             None \<Rightarrow> Ret (''provided but not bound: '' @ la_address a)
           | Some l \<Rightarrow> Ret (Addr l)))"

definition ListenAddr_Listener ::
  "(string \<Rightarrow> 's \<Rightarrow> 'l result \<times> 's) \<Rightarrow> 'l ListenAddr option \<Rightarrow> 's \<Rightarrow> ('l result \<times> 'l ListenAddr option \<times> 's) go" where
  "ListenAddr_Listener net_Listen a s =
     (case a of
        None \<Rightarrow> Panic nil_dereference
      | Some x \<Rightarrow>
          (case la_listener x of
             Some l \<Rightarrow> Ret (Inr l, a, s)
           | None \<Rightarrow>
               (case net_Listen (la_address x) s of
                  (Inl err, s') \<Rightarrow> Ret (Inl err, a, s')
                | (Inr l, s') \<Rightarrow> Ret (Inr l, Some (x\<lparr>la_listener := Some l\<rparr>), s'))))"

definition ListenAddr_UnmarshalYAML :: "string result \<Rightarrow> 'l ListenAddr \<Rightarrow> go_error option \<times> 'l ListenAddr" where
  "ListenAddr_UnmarshalYAML unmarshalled a =
     (case unmarshalled of Inl err \<Rightarrow> (Some err, a) | Inr address \<Rightarrow> (None, a\<lparr>la_address := address\<rparr>))"

definition ListenAddrFromAddress :: "string \<Rightarrow> 'l ListenAddr option" where
  "ListenAddrFromAddress addr = Some \<lparr>la_address = addr, la_listener = None\<rparr>"

text \<open>The address is bound once: later calls return the same listener without touching the network, and
  the address then prints as the one that was bound.\<close>

lemma Listener_binds_once:
  assumes "ListenAddr_Listener net_Listen a s = Ret (Inr l, a', s')"
  shows "ListenAddr_Listener net_Listen a' s2 = Ret (Inr l, a', s2)" and "ListenAddr_String Addr a' = Ret (Addr l)"
  using assms by (auto simp: ListenAddr_Listener_def ListenAddr_String_def split: option.splits prod.splits sum.splits)

section \<open>pkg/logger\<close>

record logger_Configuration =
  Level :: string
  Component :: string
  DevelopmentMode :: bool

text \<open>The logging library: parsing a level, building a logger in one of the two modes, adding a field.\<close>

record ('v, 'l) zap_lib =
  zap_ParseLevel :: "string \<Rightarrow> 'v result"
  zap_Build :: "bool \<Rightarrow> 'v \<Rightarrow> 'l result"
  zap_With :: "string \<Rightarrow> string \<Rightarrow> 'l \<Rightarrow> 'l"

definition logger_Build :: "('v, 'l) zap_lib \<Rightarrow> logger_Configuration \<Rightarrow> 'l result" where
  "logger_Build Z c =
     (let level = (if Level c \<noteq> [] then Level c else ''info'') in
      case zap_ParseLevel Z level of
        Inl err \<Rightarrow> Inl (Wrapped ''failed to parse logging level'' err)
      | Inr zapLevel \<Rightarrow>
          (case zap_Build Z (DevelopmentMode c) zapLevel of
             Inl err \<Rightarrow> Inl (Opaque (''failed bulding logger: '' @ Error_text err))
           | Inr logger \<Rightarrow> Inr (if Component c \<noteq> [] then zap_With Z ''component'' (Component c) logger else logger)))"

section \<open>The store, etcd and the registerer\<close>

record memstore_Configuration =
  ms_Address :: string
  ms_User :: string
  ms_Password :: string
  ms_Prefix :: string

text \<open>\<open>ping\<close> connects to the given address with the given credentials, within a second. The connection is
  part of the state on which the operations of the client work.\<close>

definition pingTimeout :: duration where "pingTimeout = Second"

definition memstore_Build ::
  "(string \<Rightarrow> string \<Rightarrow> string \<Rightarrow> duration \<Rightarrow> 's \<Rightarrow> go_error option \<times> 's) \<Rightarrow> memstore_Configuration \<Rightarrow> 's \<Rightarrow>
    RedisClient result \<times> 's" where
  "memstore_Build ping c s =
     (case ping (ms_Address c) (ms_User c) (ms_Password c) pingTimeout s of
        (Some err, s') \<Rightarrow> (Inl (Wrapped ''connecting to redis'' err), s')
      | (None, s') \<Rightarrow> (Inr (NewRedisClient (ms_Prefix c)), s'))"

text \<open>Closing the client and the users database, and migrating the database, are calls of their libraries.
  \<open>handle\<close> is the handle of the pool, or nil when the library has none.\<close>

definition RedisClient_Close :: "('s \<Rightarrow> go_error option \<times> 's) \<Rightarrow> 's \<Rightarrow> go_error option \<times> 's" where
  "RedisClient_Close redis_Close s = redis_Close s"

definition UsersDB_Start :: "('s \<Rightarrow> go_error option \<times> 's) \<Rightarrow> 's \<Rightarrow> go_error option \<times> 's" where
  "UsersDB_Start autoMigrate s = autoMigrate s"

definition UsersDB_Close :: "('h \<Rightarrow> 's \<Rightarrow> go_error option \<times> 's) \<Rightarrow> ('s \<Rightarrow> 'h option) \<Rightarrow> 's \<Rightarrow> go_error option \<times> 's" where
  "UsersDB_Close handle_Close handle s =
     (case handle s of Some h \<Rightarrow> handle_Close h s | None \<Rightarrow> (None, s))"

record etcd_Configuration =
  et_Username :: string
  et_Password :: string
  et_Endpoints :: "string list"

definition dialTimeout :: duration where "dialTimeout = 5 * Second"

definition etcd_Build ::
  "(string \<Rightarrow> string \<Rightarrow> string list \<Rightarrow> duration \<Rightarrow> 's \<Rightarrow> 'e result \<times> 's) \<Rightarrow> etcd_Configuration \<Rightarrow> 's \<Rightarrow> 'e result \<times> 's" where
  "etcd_Build clientv3_New c s = clientv3_New (et_Username c) (et_Password c) (et_Endpoints c) dialTimeout s"

definition UsersConfiguration_Build ::
  "(dialector \<Rightarrow> 's \<Rightarrow> 'g result \<times> 's) \<Rightarrow> db_Configuration \<Rightarrow> 's \<Rightarrow> 'g result \<times> 's" where
  "UsersConfiguration_Build gorm_Open c s =
     (case db_Build gorm_Open c s of (Inl err, s') \<Rightarrow> (Inl err, s') | (Inr gormDB, s') \<Rightarrow> (Inr gormDB, s'))"

text \<open>The issuer is a function of the present time and the principal.\<close>

definition TokenIssuerConfiguration_Build ::
  "('sk, 'pk) jwt_lib \<Rightarrow> 'sk key_lib \<Rightarrow> string \<Rightarrow> (int \<Rightarrow> Principal \<Rightarrow> string result) result" where
  "TokenIssuerConfiguration_Build J K privateKeyPath =
     (case ReadPrivateKey K privateKeyPath of
        Inl err \<Rightarrow> Inl (Wrapped ''reading private key'' err)
      | Inr key \<Rightarrow> Inr (JWTIssuer_Issue J key))"

section \<open>pkg/config and the main functions\<close>

text \<open>\<open>newYAML\<close> reads and expands the file, \<open>populate\<close> fills the structure from what it read.\<close>

definition LoadConfig :: "(string \<Rightarrow> 'p result) \<Rightarrow> ('p \<Rightarrow> 'c result) \<Rightarrow> string \<Rightarrow> 'c result" where
  "LoadConfig newYAML populate configFile =
     (case newYAML configFile of
        Inl err \<Rightarrow> Inl (Wrapped ''unable to create YAML provider from config file'' err)
      | Inr provider \<Rightarrow>
          (case populate provider of
             Inl err \<Rightarrow> Inl (Wrapped ''unable to populate from configuration file'' err)
           | Inr cfg \<Rightarrow> Inr cfg))"

text \<open>A server's \<open>main\<close> prints a line and ends, or launches the server with its configuration and logger.\<close>

definition server_main ::
  "(string \<Rightarrow> 'c result) \<Rightarrow> ('c \<Rightarrow> logger_Configuration) \<Rightarrow> ('v, 'l) zap_lib \<Rightarrow> string \<Rightarrow> string + 'c \<times> 'l" where
  "server_main load loggerConfig Z configFile =
     (case load configFile of
        Inl err \<Rightarrow> Inl (''failed to load configuration: '' @ Error_text err @ [CHR 0x0A])
      | Inr config \<Rightarrow>
          (case logger_Build Z (loggerConfig config) of
             Inl err \<Rightarrow> Inl (''failed to configure logger: '' @ Error_text err @ [CHR 0x0A])
           | Inr logger \<Rightarrow> Inr (config, logger)))"

end
