(* ===== verification/TestKeys.thy ===== *)
theory TestKeys
  imports Config
begin

text \<open>
  The keys and the gRPC tester of the integration tests: \<open>pkg/test/rsa.go\<close>, which keeps one RSA key pair for
  all tests in two files of the temporary directory, \<open>pkg/test/net.go\<close>, and \<open>integration/eventserver/tester.go\<close>,
  a client with a token of its own. The file system, RSA, PEM and the connection are parameters.
\<close>

section \<open>Paths\<close>

text \<open>What the code uses of the package \<open>path\<close>: the elements of a path, its cleaning, and joining two.\<close>

fun path_parts :: "string \<Rightarrow> string list" where
  "path_parts [] = [[]]"
| "path_parts (c # cs) =
     (if c = CHR ''/'' then [] # path_parts cs
      else (case path_parts cs of [] \<Rightarrow> [[c]] | p # ps \<Rightarrow> (c # p) # ps))"

definition clean_part :: "bool \<Rightarrow> string \<Rightarrow> string list \<Rightarrow> string list" where
  "clean_part rooted p acc =
     (if p = [] \<or> p = ''.'' then acc
      else if p = ''..'' then
        (case acc of [] \<Rightarrow> (if rooted then [] else [p]) | q # qs \<Rightarrow> (if q = ''..'' then p # acc else qs))
      else p # acc)"

fun join_slash :: "string list \<Rightarrow> string" where
  "join_slash [] = []"
| "join_slash [p] = p"
| "join_slash (p # q # ps) = p @ ''/'' @ join_slash (q # ps)"

definition path_Clean :: "string \<Rightarrow> string" where
  "path_Clean path =
     (if path = [] then ''.''
      else let rooted = (hd path = CHR ''/'');
               out = (if rooted then ''/'' else []) @ join_slash (rev (fold (clean_part rooted) (path_parts path) []))
           in if out = [] then ''.'' else out)"

definition path_Join :: "string \<Rightarrow> string \<Rightarrow> string" where
  "path_Join a b = (let elems = filter (\<lambda>e. e \<noteq> []) [a, b] in if elems = [] then [] else path_Clean (join_slash elems))"

lemma path_parts_nonempty [simp]: "path_parts s \<noteq> []"
  by (induction s) (simp_all split: list.split)

lemma path_parts_snoc: "CHR ''/'' \<notin> set f \<Longrightarrow> path_parts (xs @ CHR ''/'' # f) = path_parts xs @ [f]"
proof (induction xs)
  case Nil
  have "path_parts f = [f]" if "CHR ''/'' \<notin> set f" for f using that by (induction f) auto
  with Nil show ?case by simp
next
  case (Cons c cs)
  then show ?case by (simp split: list.split)
qed

lemma path_parts_plain: "CHR ''/'' \<notin> set f \<Longrightarrow> path_parts f = [f]"
  by (induction f) auto

lemma join_slash_snoc: "\<exists>x. join_slash (ps @ [f]) = x @ f"
proof (induction ps rule: join_slash.induct)
  case (3 p q ps)
  then show ?case by auto
qed auto

definition plain_name :: "string \<Rightarrow> bool" where
  "plain_name f \<longleftrightarrow> f \<noteq> [] \<and> f \<noteq> ''.'' \<and> f \<noteq> ''..'' \<and> CHR ''/'' \<notin> set f"

lemma path_Clean_snoc:
  assumes "plain_name f" and "path_parts path = ps @ [f]"
  shows "\<exists>x. path_Clean path = x @ f"
proof -
  let ?rooted = "hd path = CHR ''/''"
  have "fold (clean_part ?rooted) (path_parts path) [] = f # fold (clean_part ?rooted) ps []"
    using assms by (simp add: plain_name_def clean_part_def)
  moreover obtain x where "join_slash (rev (fold (clean_part ?rooted) ps []) @ [f]) = x @ f"
    using join_slash_snoc by blast
  moreover have "path \<noteq> []" using assms by (cases path) (auto simp: plain_name_def Cons_eq_append_conv)
  ultimately show ?thesis using assms(1) by (auto simp: path_Clean_def Let_def plain_name_def)
qed

lemma path_Join_ends: "plain_name f \<Longrightarrow> \<exists>x. path_Join d f = x @ f"
  using path_Clean_snoc [of f "d @ CHR ''/'' # f" "path_parts d"] path_Clean_snoc [of f f "[]"]
  by (auto simp: path_Join_def plain_name_def path_parts_snoc path_parts_plain)

section \<open>rsa.go\<close>

text \<open>
  \<open>os_Stat\<close> is the size of a file or an error, with the answer of \<open>os.IsNotExist\<close> for it; the parsers give a
  key or the name of the type of what they parsed.
\<close>

record ('sk, 'pk, 's) key_files =
  os_TempDir :: string
  os_MkdirAll :: "string \<Rightarrow> 's \<Rightarrow> go_error option \<times> 's"
  os_Remove :: "string \<Rightarrow> 's \<Rightarrow> 's"
  os_Stat :: "string \<Rightarrow> 's \<Rightarrow> bool \<times> go_error + int"
  os_ReadFile :: "string \<Rightarrow> 's \<Rightarrow> string result"
  os_WriteFile :: "string \<Rightarrow> string \<Rightarrow> 's \<Rightarrow> go_error option \<times> 's"
  rsa_GenerateKey :: "int \<Rightarrow> 's \<Rightarrow> 'sk result \<times> 's"
  rsa_PublicKey :: "'sk \<Rightarrow> 'pk"
  x509_MarshalPKCS8PrivateKey :: "'sk \<Rightarrow> string result"
  x509_MarshalPKIXPublicKey :: "'pk \<Rightarrow> string result"
  x509_ParsePKCS8PrivateKey :: "string \<Rightarrow> (string + 'sk) result"
  x509_ParsePKIXPublicKey :: "string \<Rightarrow> (string + 'pk) result"
  pem_EncodeToMemory :: "string \<Rightarrow> string \<Rightarrow> string"
  pem_Decode :: "string \<Rightarrow> string option"

definition isValidFile :: "('sk, 'pk, 's) key_files \<Rightarrow> string \<Rightarrow> 's \<Rightarrow> bool go" where
  "isValidFile F path s =
     (case os_Stat F path s of
        Inl (True, err) \<Rightarrow> Ret False
      | Inl (False, err) \<Rightarrow> Panic nil_dereference
      | Inr bytes \<Rightarrow> Ret (0 < bytes))"

definition dirPath :: "('sk, 'pk, 's) key_files \<Rightarrow> string" where
  "dirPath F = path_Join (os_TempDir F) ''occa_keys''"

definition publicPath :: "('sk, 'pk, 's) key_files \<Rightarrow> string" where
  "publicPath F = path_Join (dirPath F) ''key_pub''"

definition privatePath :: "('sk, 'pk, 's) key_files \<Rightarrow> string" where
  "privatePath F = path_Join (dirPath F) ''key''"

text \<open>From the generation of the key on: the private key is written first.\<close>

definition write_pair :: "('sk, 'pk, 's) key_files \<Rightarrow> 's \<Rightarrow> go_error option \<times> 's" where
  "write_pair F s =
     (case rsa_GenerateKey F 2048 s of
        (Inl err, s1) \<Rightarrow> (Some (Wrapped ''generating key'' err), s1)
      | (Inr privateKey, s1) \<Rightarrow>
     (case x509_MarshalPKCS8PrivateKey F privateKey of
        Inl err \<Rightarrow> (Some (Wrapped ''marshalling private key bytes'' err), s1)
      | Inr privateKeyBytes \<Rightarrow>
     (case os_WriteFile F (privatePath F) (pem_EncodeToMemory F ''RSA PRIVATE KEY'' privateKeyBytes) s1 of
        (Some err, s2) \<Rightarrow> (Some (Wrapped ''writing private key'' err), s2)
      | (None, s2) \<Rightarrow>
     (case x509_MarshalPKIXPublicKey F (rsa_PublicKey F privateKey) of
        Inl err \<Rightarrow> (Some (Wrapped ''converting public key'' err), s2)
      | Inr publicKeyBytes \<Rightarrow>
     (case os_WriteFile F (publicPath F) (pem_EncodeToMemory F ''RSA PUBLIC KEY'' publicKeyBytes) s2 of
        (Some err, s3) \<Rightarrow> (Some (Wrapped ''writing public key'' err), s3)
      | (None, s3) \<Rightarrow> (None, s3))))))"

text \<open>An error after the directory was made removes the directory, if it is empty.\<close>

definition GetRSAPairPaths :: "('sk, 'pk, 's) key_files \<Rightarrow> 's \<Rightarrow> ((string \<times> string) result \<times> 's) go" where
  "GetRSAPairPaths F s =
     (case os_MkdirAll F (dirPath F) s of
        (Some err, s1) \<Rightarrow> Ret (Inl (Wrapped ''creating key directory'' err), s1)
      | (None, s1) \<Rightarrow>
          go_bind (isValidFile F (publicPath F) s1) (\<lambda>public_ok.
          go_bind (if public_ok then isValidFile F (privatePath F) s1 else Ret False) (\<lambda>both_ok.
            if both_ok then Ret (Inr (publicPath F, privatePath F), s1)
            else Ret (case write_pair F s1 of
              (Some err, s2) \<Rightarrow> (Inl err, os_Remove F (dirPath F) s2)
            | (None, s2) \<Rightarrow> (Inr (publicPath F, privatePath F), s2)))))"

text \<open>Reading the keys, as \<open>pkg/auth\<close> does, from the files of a state.\<close>

definition private_keys :: "('sk, 'pk, 's) key_files \<Rightarrow> 's \<Rightarrow> 'sk key_lib" where
  "private_keys F s = \<lparr>kl_ReadFile = (\<lambda>p. os_ReadFile F p s), kl_pem_Decode = pem_Decode F, kl_Parse = x509_ParsePKCS8PrivateKey F\<rparr>"

definition public_keys :: "('sk, 'pk, 's) key_files \<Rightarrow> 's \<Rightarrow> 'pk key_lib" where
  "public_keys F s = \<lparr>kl_ReadFile = (\<lambda>p. os_ReadFile F p s), kl_pem_Decode = pem_Decode F, kl_Parse = x509_ParsePKIXPublicKey F\<rparr>"

section \<open>net.go\<close>

text \<open>\<open>listen\<close> resolves the address and listens on it; the listener is closed again.\<close>

definition GetFreePort :: "(string \<Rightarrow> 's \<Rightarrow> 'l result \<times> 's) \<Rightarrow> ('l \<Rightarrow> int) \<Rightarrow> ('l \<Rightarrow> 's \<Rightarrow> 's) \<Rightarrow> 's \<Rightarrow> int result \<times> 's" where
  "GetFreePort listen port_of close s =
     (case listen ''localhost:0'' s of
        (Inl err, s') \<Rightarrow> (Inl err, s')
      | (Inr l, s') \<Rightarrow> (Inr (port_of l), close l s'))"

section \<open>tester.go\<close>

text \<open>The result of a call that requires something is None when it ended the test. \<open>now\<close> is the present time.\<close>

definition generateToken ::
  "('sk, 'pk, 's) key_files \<Rightarrow> ('sk, 'pk) jwt_lib \<Rightarrow> int \<Rightarrow> ID \<Rightarrow> string \<Rightarrow> 's \<Rightarrow> (string option \<times> 's) go" where
  "generateToken F J now userID name s =
     go_bind (GetRSAPairPaths F s) (\<lambda>(res, s1).
       case res of
         Inl err \<Rightarrow> Ret (None, s1)
       | Inr (_, path) \<Rightarrow>
           (case ReadPrivateKey (private_keys F s1) path of
              Inl err \<Rightarrow> Ret (None, s1)
            | Inr privateKey \<Rightarrow>
                (case JWTIssuer_Issue J privateKey now \<lparr>p_ID = userID, p_UserName = name\<rparr> of
                   Inl err \<Rightarrow> Ret (Some [], s1)
                 | Inr token \<Rightarrow> Ret (Some token, s1))))"

record 'c GRPCTester =
  gt_conn :: 'c
  gt_userID :: ID
  gt_token :: string

definition NewGRPCTester ::
  "(string \<Rightarrow> 's \<Rightarrow> 'c result \<times> 's) \<Rightarrow> ('sk, 'pk, 's) key_files \<Rightarrow> ('sk, 'pk) jwt_lib \<Rightarrow> int \<Rightarrow> string \<Rightarrow> ID \<Rightarrow> string \<Rightarrow>
    's \<Rightarrow> ('c GRPCTester option \<times> 's) go" where
  "NewGRPCTester grpc_Dial F J now address userID name s =
     (case grpc_Dial address s of
        (Inl err, s1) \<Rightarrow> Ret (None, s1)
      | (Inr conn, s1) \<Rightarrow>
          go_bind (generateToken F J now userID name s1) (\<lambda>(res, s2).
            case res of
              None \<Rightarrow> Ret (None, s2)
            | Some token \<Rightarrow> Ret (Some \<lparr>gt_conn = conn, gt_userID = userID, gt_token = token\<rparr>, s2)))"

definition tester_metadata :: "string \<Rightarrow> grpc_metadata" where
  "tester_metadata token = Some (\<lambda>key. if key = ''authorization'' then [''Bearer '' @ token] else [])"

text \<open>The receiver: a goroutine that receives once and hands the message over on an unbuffered channel.\<close>

datatype 'm receiver = Receiving | Sending 'm | Ended

definition startGRPCReceiver :: "'m receiver" where "startGRPCReceiver = Receiving"

inductive receiver_step :: "'m receiver \<Rightarrow> 'm option \<Rightarrow> 'm receiver \<Rightarrow> bool" where
  "receiver_step Receiving None (Sending m)"
| "receiver_step (Sending m) (Some m) Ended"

inductive receiver_run :: "'m receiver \<Rightarrow> 'm list \<Rightarrow> 'm receiver \<Rightarrow> bool" where
  "receiver_run r [] r"
| "receiver_step r None r' \<Longrightarrow> receiver_run r' ms r'' \<Longrightarrow> receiver_run r ms r''"
| "receiver_step r (Some m) r' \<Longrightarrow> receiver_run r' ms r'' \<Longrightarrow> receiver_run r (m # ms) r''"

text \<open>\<open>connect\<close> opens the stream, with the metadata and the user of the request; its receiver is started.\<close>

definition GRPCTester_Connect ::
  "uuid_lib \<Rightarrow> ('c \<Rightarrow> grpc_metadata \<Rightarrow> string \<Rightarrow> 's \<Rightarrow> 'st result \<times> 's) \<Rightarrow> 'c GRPCTester \<Rightarrow> 's \<Rightarrow>
    ('st \<times> 'm receiver) option \<times> 's" where
  "GRPCTester_Connect L connect t s =
     (case connect (gt_conn t) (tester_metadata (gt_token t)) (ID_String L (gt_userID t)) s of
        (Inl err, s') \<Rightarrow> (None, s')
      | (Inr stream, s') \<Rightarrow> (Some (stream, startGRPCReceiver), s'))"

text \<open>Whatever the stream carries, a test gets one message of it at most.\<close>

lemma receiver_hands_over_once:
  assumes "receiver_run r ms r'"
  shows "length ms \<le> (if r = Ended then 0 else 1)"
  using assms
proof (induction rule: receiver_run.induct)
  case (2 r r' ms r'')
  then show ?case by (cases rule: receiver_step.cases) auto
next
  case (3 r m r' ms r'')
  then show ?case by (cases rule: receiver_step.cases) auto
qed simp

section \<open>The key pair\<close>

text \<open>
  \<open>view\<close> is the content of the files. Making a directory and generating a key change none, a successful write
  sets its file, a file that is there is read and its size is its length; what PEM and the key formats
  encode they decode, and nothing is not PEM.
\<close>

definition key_file_laws :: "('sk, 'pk, 's) key_files \<Rightarrow> ('s \<Rightarrow> string \<rightharpoonup> string) \<Rightarrow> bool" where
  "key_file_laws F view \<longleftrightarrow>
     (\<forall>p s. view (snd (os_MkdirAll F p s)) = view s) \<and>
     (\<forall>n s. view (snd (rsa_GenerateKey F n s)) = view s) \<and>
     (\<forall>p b s s'. os_WriteFile F p b s = (None, s') \<longrightarrow> view s' = (view s)(p \<mapsto> b)) \<and>
     (\<forall>p b s. os_ReadFile F p s = Inr b \<longleftrightarrow> view s p = Some b) \<and>
     (\<forall>p s n. os_Stat F p s = Inr n \<longleftrightarrow> (\<exists>b. view s p = Some b \<and> n = int (length b))) \<and>
     (\<forall>t b. pem_Decode F (pem_EncodeToMemory F t b) = Some b) \<and> pem_Decode F [] = None \<and>
     (\<forall>k b. x509_MarshalPKCS8PrivateKey F k = Inr b \<longrightarrow> x509_ParsePKCS8PrivateKey F b = Inr (Inr k)) \<and>
     (\<forall>k b. x509_MarshalPKIXPublicKey F k = Inr b \<longrightarrow> x509_ParsePKIXPublicKey F b = Inr (Inr k))"

lemma key_file_lawsD:
  assumes "key_file_laws F view"
  shows "view (snd (os_MkdirAll F p s)) = view s" and "view (snd (rsa_GenerateKey F n s)) = view s"
    and "os_WriteFile F p b s = (None, s') \<Longrightarrow> view s' = (view s)(p \<mapsto> b)"
    and "os_ReadFile F p s = Inr b \<longleftrightarrow> view s p = Some b"
    and "os_Stat F p s = Inr m \<longleftrightarrow> (\<exists>b. view s p = Some b \<and> m = int (length b))"
    and "pem_Decode F (pem_EncodeToMemory F t b) = Some b" and "pem_Decode F [] = None"
    and "x509_MarshalPKCS8PrivateKey F k = Inr b \<Longrightarrow> x509_ParsePKCS8PrivateKey F b = Inr (Inr k)"
    and "x509_MarshalPKIXPublicKey F k' = Inr b \<Longrightarrow> x509_ParsePKIXPublicKey F b = Inr (Inr k')"
  using assms by (simp_all add: key_file_laws_def)

text \<open>\<open>pair_on_disk\<close>: the two files can be read and hold a key pair.\<close>

definition pair_on_disk :: "('sk, 'pk, 's) key_files \<Rightarrow> 's \<Rightarrow> 'sk \<Rightarrow> bool" where
  "pair_on_disk F s sk \<longleftrightarrow> ReadPrivateKey (private_keys F s) (privatePath F) = Inr sk \<and>
     ReadPublicKey (public_keys F s) (publicPath F) = Inr (rsa_PublicKey F sk)"

lemma ReadPrivateKey_Inr:
  "ReadPrivateKey K path = Inr key \<longleftrightarrow>
     (\<exists>b block. kl_ReadFile K path = Inr b \<and> kl_pem_Decode K b = Some block \<and> kl_Parse K block = Inr (Inr key))"
  by (auto simp: ReadPrivateKey_def split: sum.splits option.splits)

lemma ReadPublicKey_Inr:
  "ReadPublicKey K path = Inr key \<longleftrightarrow>
     (\<exists>b block. kl_ReadFile K path = Inr b \<and> kl_pem_Decode K b = Some block \<and> kl_Parse K block = Inr (Inr key))"
  by (auto simp: ReadPublicKey_def split: sum.splits option.splits)

lemma pair_on_disk_view:
  assumes "key_file_laws F view"
  shows "pair_on_disk F s sk \<longleftrightarrow>
    (\<exists>b block. view s (privatePath F) = Some b \<and> pem_Decode F b = Some block \<and>
       x509_ParsePKCS8PrivateKey F block = Inr (Inr sk)) \<and>
    (\<exists>b block. view s (publicPath F) = Some b \<and> pem_Decode F b = Some block \<and>
       x509_ParsePKIXPublicKey F block = Inr (Inr (rsa_PublicKey F sk)))"
  by (simp add: pair_on_disk_def ReadPrivateKey_Inr ReadPublicKey_Inr private_keys_def public_keys_def
      key_file_lawsD(4) [OF assms])

lemma paths_differ: "publicPath F \<noteq> privatePath F"
proof -
  have names: "plain_name ''key_pub''" "plain_name ''key''" by (simp_all add: plain_name_def)
  obtain x where "publicPath F = x @ ''key_pub''"
    using path_Join_ends [OF names(1)] unfolding publicPath_def by blast
  moreover obtain y where "privatePath F = y @ ''key''"
    using path_Join_ends [OF names(2)] unfolding privatePath_def by blast
  ultimately have "last (publicPath F) \<noteq> last (privatePath F)" by simp
  then show ?thesis by metis
qed

text \<open>A new pair is one that can be read back.\<close>

lemma written_pair:
  assumes laws: "key_file_laws F view" and "write_pair F s = (None, s')"
  shows "\<exists>sk. pair_on_disk F s' sk"
proof -
  note D = key_file_lawsD [OF laws]
  obtain sk s1 kb s2 pb where steps: "x509_MarshalPKCS8PrivateKey F sk = Inr kb"
    "os_WriteFile F (privatePath F) (pem_EncodeToMemory F ''RSA PRIVATE KEY'' kb) s1 = (None, s2)"
    "x509_MarshalPKIXPublicKey F (rsa_PublicKey F sk) = Inr pb"
    "os_WriteFile F (publicPath F) (pem_EncodeToMemory F ''RSA PUBLIC KEY'' pb) s2 = (None, s')"
    using assms(2) by (auto simp: write_pair_def split: prod.splits sum.splits option.splits)
  have "view s' (publicPath F) = Some (pem_EncodeToMemory F ''RSA PUBLIC KEY'' pb)"
    "view s' (privatePath F) = Some (pem_EncodeToMemory F ''RSA PRIVATE KEY'' kb)"
    using D(3) [OF steps(4)] D(3) [OF steps(2)] paths_differ [of F] by simp_all
  then have "pair_on_disk F s' sk"
    using D(8) [OF steps(1)] D(9) [OF steps(3)] by (simp add: pair_on_disk_view [OF laws] D(6))
  then show ?thesis by blast
qed

text \<open>\<open>pair_or_none\<close>: if both files are there and have a content, they hold a pair.\<close>

definition pair_or_none :: "('sk, 'pk, 's) key_files \<Rightarrow> ('s \<Rightarrow> string \<rightharpoonup> string) \<Rightarrow> 's \<Rightarrow> bool" where
  "pair_or_none F view s \<longleftrightarrow> view s (publicPath F) \<in> {None, Some []} \<or> view s (privatePath F) \<in> {None, Some []} \<or>
     (\<exists>sk. pair_on_disk F s sk)"

lemma isValidFile_True:
  assumes "key_file_laws F view"
  shows "isValidFile F p s = Ret True \<longleftrightarrow> view s p \<notin> {None, Some []}"
proof (cases "os_Stat F p s")
  case (Inl x)
  then have "view s p = None" using key_file_lawsD(5) [OF assms, of p s] by (cases "view s p") auto
  with Inl show ?thesis by (cases x; cases "fst x") (auto simp: isValidFile_def)
next
  case (Inr n)
  then show ?thesis using key_file_lawsD(5) [OF assms, of p s n] by (auto simp: isValidFile_def)
qed

lemma GetRSAPairPaths_result:
  assumes laws: "key_file_laws F view" and "GetRSAPairPaths F s = Ret (Inr paths, s')"
  shows "paths = (publicPath F, privatePath F)"
    and "(view s (publicPath F) \<notin> {None, Some []} \<and> view s (privatePath F) \<notin> {None, Some []} \<and> view s' = view s) \<or>
      (\<exists>sk. pair_on_disk F s' sk)"
proof -
  obtain e s1 where made: "os_MkdirAll F (dirPath F) s = (e, s1)" by (metis surj_pair)
  have view: "view s1 = view s" using key_file_lawsD(1) [OF laws, of "dirPath F" s] made by simp
  show "paths = (publicPath F, privatePath F)"
    using assms(2) by (auto simp: GetRSAPairPaths_def split: prod.splits option.splits if_splits)
  show "(view s (publicPath F) \<notin> {None, Some []} \<and> view s (privatePath F) \<notin> {None, Some []} \<and> view s' = view s) \<or>
      (\<exists>sk. pair_on_disk F s' sk)"
  proof (cases "isValidFile F (publicPath F) s1 = Ret True \<and> isValidFile F (privatePath F) s1 = Ret True")
    case True
    then have "s' = s1" using assms(2) made by (auto simp: GetRSAPairPaths_def split: option.splits)
    then show ?thesis using True view by (simp add: isValidFile_True [OF laws])
  next
    case False
    then have "write_pair F s1 = (None, s')"
      using assms(2) made by (auto simp: GetRSAPairPaths_def split: option.splits prod.splits if_splits)
    then show ?thesis using written_pair [OF laws] by blast
  qed
qed

lemma GetRSAPairPaths_pair:
  assumes laws: "key_file_laws F view" and "pair_or_none F view s" and "GetRSAPairPaths F s = Ret (Inr paths, s')"
  shows "\<exists>sk. pair_on_disk F s' sk"
  using GetRSAPairPaths_result(2) [OF laws assms(3)] assms(2)
  by (auto simp: pair_or_none_def pair_on_disk_view [OF laws])

text \<open>Once there is a pair it stays: later calls neither panic nor write.\<close>

lemma pair_is_kept:
  assumes laws: "key_file_laws F view" and "pair_on_disk F s sk"
  shows "\<exists>res s'. GetRSAPairPaths F s = Ret (res, s') \<and> pair_on_disk F s' sk \<and>
    (\<forall>paths. res = Inr paths \<longrightarrow> paths = (publicPath F, privatePath F))"
proof -
  obtain e s1 where made: "os_MkdirAll F (dirPath F) s = (e, s1)" by (metis surj_pair)
  have view: "view s1 = view s" using key_file_lawsD(1) [OF laws, of "dirPath F" s] made by simp
  have "pair_on_disk F s1 sk" using assms(2) by (simp add: pair_on_disk_view [OF laws] view)
  moreover have "isValidFile F (publicPath F) s1 = Ret True" "isValidFile F (privatePath F) s1 = Ret True"
    using calculation key_file_lawsD(7) [OF laws] by (auto simp: isValidFile_True [OF laws] pair_on_disk_view [OF laws])
  ultimately show ?thesis using made by (cases e) (simp_all add: GetRSAPairPaths_def)
qed

text \<open>
  A pair that does not fit is kept as well: when the public key is left from an earlier run and could not be
  overwritten, the next call returns both files as they are. A file whose state cannot be told
  makes the call panic.
\<close>

lemma any_two_files_are_kept:
  assumes laws: "key_file_laws F view" and "os_MkdirAll F (dirPath F) s = (None, s1)"
    and "view s (publicPath F) = Some (a # as)" and "view s (privatePath F) = Some (b # bs)"
  shows "GetRSAPairPaths F s = Ret (Inr (publicPath F, privatePath F), s1)"
proof -
  have "view s1 = view s" using key_file_lawsD(1) [OF laws, of "dirPath F" s] assms(2) by simp
  then have "isValidFile F (publicPath F) s1 = Ret True" "isValidFile F (privatePath F) s1 = Ret True"
    using assms(3,4) by (simp_all add: isValidFile_True [OF laws])
  then show ?thesis using assms(2) by (simp add: GetRSAPairPaths_def)
qed

lemma unreadable_file_panics:
  assumes "os_MkdirAll F (dirPath F) s = (None, s1)" and "os_Stat F (publicPath F) s1 = Inl (False, err)"
  shows "GetRSAPairPaths F s = Panic nil_dereference"
  using assms by (simp add: GetRSAPairPaths_def isValidFile_def)

text \<open>The token of a tester is signed with the key of the pair, or empty when signing failed.\<close>

lemma generateToken_signed:
  assumes "key_file_laws F view" and "pair_on_disk F s sk"
    and "generateToken F J now userID name s = Ret (Some token, s')"
  shows "case JWTIssuer_Issue J sk now \<lparr>p_ID = userID, p_UserName = name\<rparr> of Inl err \<Rightarrow> token = [] | Inr t \<Rightarrow> token = t"
    and "pair_on_disk F s' sk"
proof -
  obtain res s1 where got: "GetRSAPairPaths F s = Ret (res, s1)" "pair_on_disk F s1 sk"
    "\<forall>paths. res = Inr paths \<longrightarrow> paths = (publicPath F, privatePath F)"
    using pair_is_kept [OF assms(1,2)] by blast
  then have "res = Inr (publicPath F, privatePath F)"
    using assms(3) by (auto simp: generateToken_def split: sum.splits)
  moreover have "ReadPrivateKey (private_keys F s1) (privatePath F) = Inr sk"
    using got(2) by (simp add: pair_on_disk_def)
  ultimately show "case JWTIssuer_Issue J sk now \<lparr>p_ID = userID, p_UserName = name\<rparr> of Inl err \<Rightarrow> token = [] | Inr t \<Rightarrow> token = t"
    and "pair_on_disk F s' sk"
    using assms(3) got(1,2) by (auto simp: generateToken_def split: sum.splits)
qed

end
