(* ===== verification/Lifecycle.thy ===== *)
theory Lifecycle
  imports EventRelay
begin

text \<open>
  Starting and stopping: \<open>pkg/io/lifecycle.go\<close>, \<open>pkg/launch/launch.go\<close>, and \<open>StartServices\<close> of the gateway
  and of the event server, over the constructors and closers of the parts as parameters. What
  a list of closers leaves open is said once for both servers.
\<close>

section \<open>lifecycle.go\<close>

text \<open>The contexts that are handed to closers and starters: without a deadline, or with one.\<close>

datatype ctx = Background | WithTimeout duration

type_synonym 's closer = "ctx \<Rightarrow> 's \<Rightarrow> go_error option \<times> 's"
type_synonym 's starter = "ctx \<Rightarrow> 's \<Rightarrow> go_error option \<times> 's"

definition CloseFn_Close :: "'s closer \<Rightarrow> 's closer" where "CloseFn_Close f ctx s = f ctx s"

definition CloseWithoutContext :: "('s \<Rightarrow> go_error option \<times> 's) \<Rightarrow> 's closer" where
  "CloseWithoutContext f = (\<lambda>_. f)"

text \<open>\<open>app\<close> is the library's \<open>multierr.Append\<close>; both its arguments may be nil.\<close>

type_synonym appender = "go_error option \<Rightarrow> go_error option \<Rightarrow> go_error"

fun Closers_loop :: "appender \<Rightarrow> 's closer list \<Rightarrow> ctx \<Rightarrow> go_error option \<Rightarrow> 's \<Rightarrow> go_error option \<times> 's" where
  "Closers_loop app [] ctx mErr s = (mErr, s)"
| "Closers_loop app (e # c) ctx mErr s =
     (case e ctx s of
        (Some err, s') \<Rightarrow> Closers_loop app c ctx (Some (app mErr (Some err))) s'
      | (None, s') \<Rightarrow> Closers_loop app c ctx mErr s')"

definition Closers_Close :: "appender \<Rightarrow> 's closer list \<Rightarrow> 's closer" where
  "Closers_Close app c ctx s = Closers_loop app c ctx None s"

definition CloseWithTimeout :: "appender \<Rightarrow> 's closer list \<Rightarrow> duration \<Rightarrow> 's \<Rightarrow> go_error option \<times> 's" where
  "CloseWithTimeout app c timeout s = Closers_Close app c (WithTimeout timeout) s"

definition StartFn_Start :: "'s starter \<Rightarrow> 's starter" where "StartFn_Start f ctx s = f ctx s"

fun Starters_Start :: "'s starter list \<Rightarrow> 's starter" where
  "Starters_Start [] ctx s = (None, s)"
| "Starters_Start (e # es) ctx s =
     (case e ctx s of (Some err, s') \<Rightarrow> (Some err, s') | (None, s') \<Rightarrow> Starters_Start es ctx s')"

text \<open>Every closer runs, in order, whatever the others return; an error is reported iff one returned one.\<close>

lemma Closers_loop_state: "snd (Closers_loop app c ctx mErr s) = fold (\<lambda>e s. snd (e ctx s)) c s"
  by (induction c arbitrary: mErr s) (auto split: prod.split option.split)

lemma Closers_Close_state: "snd (Closers_Close app c ctx s) = fold (\<lambda>e s. snd (e ctx s)) c s"
  by (simp add: Closers_Close_def Closers_loop_state)

lemma Closers_loop_error: "mErr \<noteq> None \<Longrightarrow> fst (Closers_loop app c ctx mErr s) \<noteq> None"
  by (induction c arbitrary: mErr s) (auto split: prod.split option.split)

lemma Closers_Close_Cons:
  "fst (Closers_Close app (e # c) ctx s) = None \<longleftrightarrow>
     fst (e ctx s) = None \<and> fst (Closers_Close app c ctx (snd (e ctx s))) = None"
  using Closers_loop_error [of "Some x" app c ctx for x]
  by (auto simp: Closers_Close_def split: prod.split option.split)

text \<open>
  \<open>opened s\<close> are the connections that are open in a state. A closer of some of them leaves those
  closed, whether it reports an error or not, and touches no others; then a list of closers closes
  what its members close, even when some of them fail.
\<close>

definition closes_only :: "('s \<Rightarrow> 'r set) \<Rightarrow> 's closer \<Rightarrow> 'r set \<Rightarrow> bool" where
  "closes_only opened e R \<longleftrightarrow> (\<forall>ctx s. opened (snd (e ctx s)) = opened s - R)"

lemma Closers_Close_closes:
  "list_all2 (closes_only opened) c Rs \<Longrightarrow> opened (snd (Closers_Close app c ctx s)) = opened s - \<Union> (set Rs)"
  unfolding Closers_Close_state
proof (induction arbitrary: s rule: list_all2_induct)
  case (Cons e c R Rs)
  then have "opened (snd (e ctx s)) = opened s - R" by (simp add: closes_only_def)
  with Cons show ?case by auto
qed simp

section \<open>launch.go\<close>

text \<open>
  \<open>WaitForInterrupt\<close> over time: \<open>interrupt\<close> is when the process is interrupted, \<open>free\<close> when and with what
  the service returns if it is never told to close, \<open>closed t\<close> the same when it is told at \<open>t\<close>; None is
  never. When two cases of a \<open>select\<close> are ready together, either may be taken. The function ends at
  the given time, with what it logged.
\<close>

datatype launch_log = TerminatedWith "go_error option" | ShutdownWithError go_error | FailedToTerminate

type_synonym returning = "(go_error option \<times> int) option"

definition terminateTimeout :: duration where "terminateTimeout = 15 * Second"

inductive WaitForInterrupt ::
  "int option \<Rightarrow> returning \<Rightarrow> (int \<Rightarrow> returning) \<Rightarrow> int \<Rightarrow> launch_log list \<Rightarrow> bool"
  for interrupt free closed where
  wfi_terminated: "free = Some (err, t) \<Longrightarrow> (\<forall>ti. interrupt = Some ti \<longrightarrow> t \<le> ti) \<Longrightarrow>
    WaitForInterrupt interrupt free closed t [TerminatedWith err]"
| wfi_graceful: "interrupt = Some ti \<Longrightarrow> (\<forall>err t. free = Some (err, t) \<longrightarrow> ti \<le> t) \<Longrightarrow>
    closed ti = Some (err, t) \<Longrightarrow> t \<le> ti + terminateTimeout \<Longrightarrow>
    WaitForInterrupt interrupt free closed (max ti t) (case err of None \<Rightarrow> [] | Some e \<Rightarrow> [ShutdownWithError e])"
| wfi_timeout: "interrupt = Some ti \<Longrightarrow> (\<forall>err t. free = Some (err, t) \<longrightarrow> ti \<le> t) \<Longrightarrow>
    (\<forall>err t. closed ti = Some (err, t) \<longrightarrow> ti + terminateTimeout \<le> t) \<Longrightarrow>
    WaitForInterrupt interrupt free closed (ti + terminateTimeout) [FailedToTerminate]"

lemma interrupted_process_ends:
  assumes "interrupt = Some ti"
  shows "\<exists>t logs. WaitForInterrupt interrupt free closed t logs"
    and "WaitForInterrupt interrupt free closed t logs \<Longrightarrow> t \<le> ti + terminateTimeout"
proof -
  show "\<exists>t logs. WaitForInterrupt interrupt free closed t logs"
  proof (cases "\<exists>err t. free = Some (err, t) \<and> t < ti")
    case True
    then obtain err t where "free = Some (err, t)" "t < ti" by blast
    then have "WaitForInterrupt interrupt free closed t [TerminatedWith err]"
      using assms by (intro wfi_terminated) auto
    then show ?thesis by blast
  next
    case False
    then have early: "\<forall>err t. free = Some (err, t) \<longrightarrow> ti \<le> t" by force
    show ?thesis
    proof (cases "\<exists>err t. closed ti = Some (err, t) \<and> t \<le> ti + terminateTimeout")
      case True
      then show ?thesis using wfi_graceful [OF assms early] by blast
    next
      case False
      then have "\<forall>err t. closed ti = Some (err, t) \<longrightarrow> ti + terminateTimeout \<le> t" by force
      then show ?thesis using wfi_timeout [OF assms early] by blast
    qed
  qed
  show "t \<le> ti + terminateTimeout" if "WaitForInterrupt interrupt free closed t logs"
    using that assms by cases (auto simp: terminateTimeout_def Second_def)
qed

section \<open>gateway/services.go\<close>

text \<open>
  The parts that \<open>StartServices\<close> puts together: their constructors, starters and closers. \<open>'m\<close> is the
  store, \<open>'h\<close> the authentication middleware, \<open>'i\<close> the token issuer, \<open>'u\<close> the users database, \<open>'e\<close> the
  etcd client; the registry is made over the client, the pool over the registry.
\<close>

record ('s, 'm, 'h, 'i, 'u, 'e) gateway_parts =
  build_MemStore :: "'s \<Rightarrow> 'm result \<times> 's"
  build_HTTPMiddleware :: "'s \<Rightarrow> 'h result \<times> 's"
  build_TokenIssuer :: "'s \<Rightarrow> 'i result \<times> 's"
  build_Users :: "'s \<Rightarrow> 'u result \<times> 's"
  build_Etcd :: "'s \<Rightarrow> 'e result \<times> 's"
  memStore_Close :: "'m \<Rightarrow> 's \<Rightarrow> go_error option \<times> 's"
  usersDB_Start :: "'u \<Rightarrow> 's starter"
  usersDB_Close :: "'u \<Rightarrow> 's closer"
  part_registry_Start :: "'e \<Rightarrow> 's starter"
  part_registry_Close :: "'e \<Rightarrow> 's closer"

record ('s, 'm, 'h, 'i, 'u, 'e) gateway_Services =
  gs_Closers :: "'s closer list"
  gs_HTTPAuthMiddleware :: 'h
  gs_AuthRegisterer :: "'u \<times> 'i"
  gs_ActiveUserTracker :: 'm
  gs_RTEventsRelay :: "'m \<times> 'e"
  gs_EventServerRegistry :: 'e

text \<open>The body returns with the closers collected so far; the deferred function runs them when it failed.\<close>

definition StartServices_body ::
  "('s, 'm, 'h, 'i, 'u, 'e) gateway_parts \<Rightarrow> 's \<Rightarrow>
    (go_error \<times> 's closer list + ('s, 'm, 'h, 'i, 'u, 'e) gateway_Services) \<times> 's" where
  "StartServices_body P s =
     (case build_MemStore P s of
        (Inl err, s1) \<Rightarrow> (Inl (Wrapped ''building redis client'' err, []), s1)
      | (Inr memStore, s1) \<Rightarrow>
        let closers1 = [CloseWithoutContext (memStore_Close P memStore)] in
     (case build_HTTPMiddleware P s1 of
        (Inl err, s2) \<Rightarrow> (Inl (Wrapped ''building HTTP auth middleware'' err, closers1), s2)
      | (Inr httpAuthMiddleware, s2) \<Rightarrow>
     (case build_TokenIssuer P s2 of
        (Inl err, s3) \<Rightarrow> (Inl (Wrapped ''building JWT token issuer'' err, closers1), s3)
      | (Inr tokenIssuer, s3) \<Rightarrow>
     (case build_Users P s3 of
        (Inl err, s4) \<Rightarrow> (Inl (Wrapped ''building auth db connection'' err, closers1), s4)
      | (Inr usersDB, s4) \<Rightarrow>
        let closers2 = closers1 @ [usersDB_Close P usersDB] in
     (case build_Etcd P s4 of
        (Inl err, s5) \<Rightarrow> (Inl (Wrapped ''building etcd client'' err, closers2), s5)
      | (Inr etcdClient, s5) \<Rightarrow>
        let closers = closers2 @ [part_registry_Close P etcdClient, \<lambda>_ s. (pool_Close, s)] in
     (case Starters_Start [usersDB_Start P usersDB, part_registry_Start P etcdClient] Background s5 of
        (Some err, s6) \<Rightarrow> (Inl (Wrapped ''starting services'' err, closers), s6)
      | (None, s6) \<Rightarrow>
          (Inr \<lparr>gs_Closers = closers, gs_HTTPAuthMiddleware = httpAuthMiddleware,
             gs_AuthRegisterer = (usersDB, tokenIssuer), gs_ActiveUserTracker = memStore,
             gs_RTEventsRelay = (memStore, etcdClient), gs_EventServerRegistry = etcdClient\<rparr>, s6)))))))"

definition gateway_StartServices ::
  "appender \<Rightarrow> ('s, 'm, 'h, 'i, 'u, 'e) gateway_parts \<Rightarrow> 's \<Rightarrow>
    ('s, 'm, 'h, 'i, 'u, 'e) gateway_Services result \<times> 's" where
  "gateway_StartServices app P s =
     (case StartServices_body P s of
        (Inl (err, closers), s') \<Rightarrow>
          (case Closers_Close app closers Background s' of (e, s'') \<Rightarrow> (Inl (app (Some err) e), s''))
      | (Inr services, s') \<Rightarrow> (Inr services, s'))"

section \<open>eventserver/services.go\<close>

text \<open>\<open>'k\<close> is the gRPC interceptor. The heart beater, the event server and the membership manager are made
  without I/O and cannot fail.\<close>

record ('s, 'm, 'h, 'k, 'e) es_parts =
  es_build_Etcd :: "'s \<Rightarrow> 'e result \<times> 's"
  es_build_MemStore :: "'s \<Rightarrow> 'm result \<times> 's"
  es_build_HTTPMiddleware :: "'s \<Rightarrow> 'h result \<times> 's"
  es_build_GRPCInterceptor :: "'s \<Rightarrow> 'k result \<times> 's"
  etcdClient_Close :: "'e \<Rightarrow> 's \<Rightarrow> go_error option \<times> 's"
  es_memStore_Close :: "'m \<Rightarrow> 's \<Rightarrow> go_error option \<times> 's"
  heartBeater_Close :: "'m \<Rightarrow> 's closer"

record ('s, 'm, 'h, 'k, 'e) es_Services =
  ess_Closers :: "'s closer list"
  ess_HTTPAuthMiddleware :: 'h
  ess_GRPCStreamAuthInterceptor :: 'k
  ess_EventServer :: 'm
  ess_MembershipManager :: 'e

definition es_StartServices ::
  "('s, 'm, 'h, 'k, 'e) es_parts \<Rightarrow> 's \<Rightarrow> ('s, 'm, 'h, 'k, 'e) es_Services result \<times> 's" where
  "es_StartServices P s =
     (case es_build_Etcd P s of
        (Inl err, s1) \<Rightarrow> (Inl (Wrapped ''building etcd client'' err), s1)
      | (Inr etcdClient, s1) \<Rightarrow>
     (case es_build_MemStore P s1 of
        (Inl err, s2) \<Rightarrow> (Inl (Wrapped ''building memstore client'' err), s2)
      | (Inr memstore, s2) \<Rightarrow>
     (case es_build_HTTPMiddleware P s2 of
        (Inl err, s3) \<Rightarrow> (Inl (Wrapped ''building HTTP auth middleware'' err), s3)
      | (Inr httpAuthMiddleware, s3) \<Rightarrow>
     (case es_build_GRPCInterceptor P s3 of
        (Inl err, s4) \<Rightarrow> (Inl (Wrapped ''building gRPC auth middleware'' err), s4)
      | (Inr grpcAuthMiddleware, s4) \<Rightarrow>
          (Inr \<lparr>ess_Closers = [CloseWithoutContext (etcdClient_Close P etcdClient),
               CloseWithoutContext (es_memStore_Close P memstore), heartBeater_Close P memstore],
             ess_HTTPAuthMiddleware = httpAuthMiddleware, ess_GRPCStreamAuthInterceptor = grpcAuthMiddleware,
             ess_EventServer = memstore, ess_MembershipManager = etcdClient\<rparr>, s4)))))"

section \<open>What stays connected\<close>

text \<open>
  The connections and listeners of a server. Dialling opens its connection when it succeeds, and when it
  fails it may have opened it all the same: the constructors return without closing what they dialled. The other
  constructors, the starters and the closers of registry and heart beater open and close none.
\<close>

datatype conn = MemStoreConn | UsersConn | EtcdConn | HTTPListener | GRPCListener

definition opens :: "('s \<Rightarrow> conn set) \<Rightarrow> ('s \<Rightarrow> 'a result \<times> 's) \<Rightarrow> conn set \<Rightarrow> bool" where
  "opens opened build R \<longleftrightarrow>
     (\<forall>s. case build s of
        (Inl err, s') \<Rightarrow> opened s \<subseteq> opened s' \<and> opened s' \<subseteq> opened s \<union> R
      | (Inr x, s') \<Rightarrow> opened s' = opened s \<union> R)"

definition gateway_laws :: "('s \<Rightarrow> conn set) \<Rightarrow> ('s, 'm, 'h, 'i, 'u, 'e) gateway_parts \<Rightarrow> bool" where
  "gateway_laws opened P \<longleftrightarrow>
     opens opened (build_MemStore P) {MemStoreConn} \<and> opens opened (build_HTTPMiddleware P) {} \<and>
     opens opened (build_TokenIssuer P) {} \<and> opens opened (build_Users P) {UsersConn} \<and>
     opens opened (build_Etcd P) {EtcdConn} \<and>
     (\<forall>m. closes_only opened (CloseWithoutContext (memStore_Close P m)) {MemStoreConn}) \<and>
     (\<forall>u. closes_only opened (usersDB_Close P u) {UsersConn} \<and> closes_only opened (usersDB_Start P u) {}) \<and>
     (\<forall>e. closes_only opened (part_registry_Close P e) {} \<and> closes_only opened (part_registry_Start P e) {})"

definition es_laws :: "('s \<Rightarrow> conn set) \<Rightarrow> ('s, 'm, 'h, 'k, 'e) es_parts \<Rightarrow> bool" where
  "es_laws opened Q \<longleftrightarrow>
     opens opened (es_build_Etcd Q) {EtcdConn} \<and> opens opened (es_build_MemStore Q) {MemStoreConn} \<and>
     opens opened (es_build_HTTPMiddleware Q) {} \<and> opens opened (es_build_GRPCInterceptor Q) {} \<and>
     (\<forall>e. closes_only opened (CloseWithoutContext (etcdClient_Close Q e)) {EtcdConn}) \<and>
     (\<forall>m. closes_only opened (CloseWithoutContext (es_memStore_Close Q m)) {MemStoreConn} \<and>
        closes_only opened (heartBeater_Close Q m) {})"

lemma opensD:
  "opens opened build R \<Longrightarrow> build s = (Inl err, s') \<Longrightarrow> opened s \<subseteq> opened s' \<and> opened s' \<subseteq> opened s \<union> R"
  "opens opened build R \<Longrightarrow> build s = (Inr x, s') \<Longrightarrow> opened s' = opened s \<union> R"
  unfolding opens_def by (drule spec [of _ s], simp)+

lemma Starters_opened:
  "\<forall>e \<in> set es. closes_only opened e {} \<Longrightarrow> Starters_Start es ctx s = (res, s') \<Longrightarrow> opened s' = opened s"
proof (induction es arbitrary: s)
  case (Cons e es)
  obtain r s1 where e: "e ctx s = (r, s1)" by (metis surj_pair)
  have "opened s1 = opened s" using Cons.prems(1) e unfolding closes_only_def by (metis Diff_empty list.set_intros(1) snd_conv)
  with Cons e show ?case by (cases r) auto
qed simp

lemma closes_onlyD: "closes_only opened e R \<Longrightarrow> opened (snd (e ctx s)) = opened s - R"
  by (simp add: closes_only_def)

text \<open>What a failed start of the gateway's services may leave open: what the failed dial itself may have opened,
  or the etcd client, which none of the closers closes.\<close>

definition gateway_may_leave :: "go_error \<Rightarrow> conn set" where
  "gateway_may_leave err =
     (case err of
        Wrapped stage e \<Rightarrow>
          if stage = ''building redis client'' then {MemStoreConn}
          else if stage = ''building auth db connection'' then {UsersConn}
          else if stage = ''building etcd client'' \<or> stage = ''starting services'' then {EtcdConn} else {}
      | _ \<Rightarrow> {})"

text \<open>What is open once the body has failed and its closers have run, and once it has succeeded.\<close>

definition body_post :: "('s \<Rightarrow> conn set) \<Rightarrow>
    (go_error \<times> 's closer list + ('s, 'm, 'h, 'i, 'u, 'e) gateway_Services) \<times> 's \<Rightarrow> bool" where
  "body_post opened res \<longleftrightarrow>
     (case res of
        (Inl (err, c), s') \<Rightarrow> (\<forall>ctx. opened (fold (\<lambda>e s. snd (e ctx s)) c s') \<subseteq> gateway_may_leave err \<and>
          ((\<exists>e. err = Wrapped ''starting services'' e) \<longrightarrow> opened (fold (\<lambda>e s. snd (e ctx s)) c s') = {EtcdConn}))
      | (Inr svc, s') \<Rightarrow> opened s' = {MemStoreConn, UsersConn, EtcdConn} \<and>
          (\<forall>ctx. opened (fold (\<lambda>e s. snd (e ctx s)) (gs_Closers svc) s') = {EtcdConn}))"

lemma StartServices_body_post:
  assumes "gateway_laws opened P" and "opened s = {}"
  shows "body_post opened (StartServices_body P s)"
proof -
  note laws = assms(1) [unfolded gateway_laws_def]
  note built = opensD [where opened = opened and build = "build_MemStore P", OF laws [THEN conjunct1]]
    opensD [where opened = opened and build = "build_HTTPMiddleware P", OF laws [THEN conjunct2, THEN conjunct1]]
    opensD [where opened = opened and build = "build_TokenIssuer P", OF laws [THEN conjunct2, THEN conjunct2, THEN conjunct1]]
    opensD [where opened = opened and build = "build_Users P", OF laws [THEN conjunct2, THEN conjunct2, THEN conjunct2, THEN conjunct1]]
    opensD [where opened = opened and build = "build_Etcd P", OF laws [THEN conjunct2, THEN conjunct2, THEN conjunct2, THEN conjunct2, THEN conjunct1]]
  have closed: "opened (snd (CloseWithoutContext (memStore_Close P m) ctx x)) = opened x - {MemStoreConn}"
    "opened (snd (usersDB_Close P u ctx x)) = opened x - {UsersConn}"
    "opened (snd (part_registry_Close P e ctx x)) = opened x" for m u e ctx x
    using laws closes_onlyD [of opened "CloseWithoutContext (memStore_Close P m)" "{MemStoreConn}" ctx x]
      closes_onlyD [of opened "usersDB_Close P u" "{UsersConn}" ctx x]
      closes_onlyD [of opened "part_registry_Close P e" "{}" ctx x] by simp_all
  have started: "opened x' = opened x"
    if "Starters_Start [usersDB_Start P u, part_registry_Start P e] ctx x = (res, x')" for u e ctx x res x'
    by (rule Starters_opened [OF _ that]) (use laws in simp)
  show ?thesis
    unfolding body_post_def StartServices_body_def
    by (auto simp: Let_def closed assms(2) gateway_may_leave_def simp del: Starters_Start.simps dest!: built started
        split: prod.splits sum.splits option.splits)
qed

text \<open>The event server: a failure leaves open whatever was dialled, and what a failed dial may have opened.\<close>

lemma es_StartServices_post:
  assumes "es_laws opened Q" and "opened s = {}"
  shows "case es_StartServices Q s of
      (Inl err, s') \<Rightarrow> opened s' \<subseteq> {EtcdConn, MemStoreConn} \<and>
        ((\<exists>e. err = Wrapped ''building etcd client'' e) \<longrightarrow> MemStoreConn \<notin> opened s') \<and>
        ((\<nexists>e. err = Wrapped ''building etcd client'' e) \<longrightarrow> EtcdConn \<in> opened s' \<and>
          ((\<nexists>e. err = Wrapped ''building memstore client'' e) \<longrightarrow> MemStoreConn \<in> opened s'))
    | (Inr svc, s') \<Rightarrow> opened s' = {EtcdConn, MemStoreConn} \<and>
        (\<forall>ctx. opened (fold (\<lambda>e s. snd (e ctx s)) (ess_Closers svc) s') = {})"
proof -
  note laws = assms(1) [unfolded es_laws_def]
  note built = opensD [where opened = opened and build = "es_build_Etcd Q", OF laws [THEN conjunct1]]
    opensD [where opened = opened and build = "es_build_MemStore Q", OF laws [THEN conjunct2, THEN conjunct1]]
    opensD [where opened = opened and build = "es_build_HTTPMiddleware Q", OF laws [THEN conjunct2, THEN conjunct2, THEN conjunct1]]
    opensD [where opened = opened and build = "es_build_GRPCInterceptor Q",
      OF laws [THEN conjunct2, THEN conjunct2, THEN conjunct2, THEN conjunct1]]
  have closed: "opened (snd (CloseWithoutContext (etcdClient_Close Q e) ctx x)) = opened x - {EtcdConn}"
    "opened (snd (CloseWithoutContext (es_memStore_Close Q m) ctx x)) = opened x - {MemStoreConn}"
    "opened (snd (heartBeater_Close Q m ctx x)) = opened x" for m e ctx x
    using laws closes_onlyD [of opened "CloseWithoutContext (etcdClient_Close Q e)" "{EtcdConn}" ctx x]
      closes_onlyD [of opened "CloseWithoutContext (es_memStore_Close Q m)" "{MemStoreConn}" ctx x]
      closes_onlyD [of opened "heartBeater_Close Q m" "{}" ctx x] by simp_all
  show ?thesis
    unfolding es_StartServices_def
    by (auto simp: closed assms(2) dest!: built split: prod.splits sum.splits)
qed

text \<open>Starting and closing together; \<open>A\<close> is whatever a start of the event server tells besides.\<close>

lemma gateway_connections:
  assumes "gateway_laws opened P" and "opened s = {}"
  shows "case gateway_StartServices app P s of
      (Inl e, s') \<Rightarrow> \<exists>err c x. StartServices_body P s = (Inl (err, c), x) \<and> opened s' \<subseteq> gateway_may_leave err \<and>
        ((\<exists>e. err = Wrapped ''starting services'' e) \<longrightarrow> opened s' = {EtcdConn})
    | (Inr svc, s') \<Rightarrow> opened s' = {MemStoreConn, UsersConn, EtcdConn} \<and>
        opened (snd (CloseWithTimeout app (gs_Closers svc) timeout s')) = {EtcdConn}"
proof -
  obtain res x where body: "StartServices_body P s = (res, x)" by (metis surj_pair)
  show ?thesis
  proof (cases res)
    case (Inl a)
    obtain err c where a: "a = (err, c)" by (metis surj_pair)
    obtain e x' where close: "Closers_Close app c Background x = (e, x')" by (metis surj_pair)
    then have "opened x' \<subseteq> gateway_may_leave err \<and> ((\<exists>e. err = Wrapped ''starting services'' e) \<longrightarrow> opened x' = {EtcdConn})"
      using StartServices_body_post [OF assms] body Inl a Closers_Close_state [of app c Background x]
      by (simp add: body_post_def)
    then show ?thesis using body Inl a close by (auto simp: gateway_StartServices_def)
  next
    case (Inr svc)
    then show ?thesis
      using StartServices_body_post [OF assms] body
      by (simp add: gateway_StartServices_def body_post_def CloseWithTimeout_def Closers_Close_state)
  qed
qed

lemma es_connections:
  assumes "es_laws opened Q" and "opened s = {}" and "\<And>svc s'. es_StartServices Q s = (Inr svc, s') \<Longrightarrow> A"
  shows "case es_StartServices Q s of
      (Inl err, s') \<Rightarrow> opened s' \<subseteq> {EtcdConn, MemStoreConn} \<and>
        ((\<exists>e. err = Wrapped ''building etcd client'' e) \<longrightarrow> MemStoreConn \<notin> opened s') \<and>
        ((\<nexists>e. err = Wrapped ''building etcd client'' e) \<longrightarrow> EtcdConn \<in> opened s' \<and>
          ((\<nexists>e. err = Wrapped ''building memstore client'' e) \<longrightarrow> MemStoreConn \<in> opened s'))
    | (Inr svc, s') \<Rightarrow> A \<and> opened s' = {EtcdConn, MemStoreConn} \<and>
        opened (snd (CloseWithTimeout app (ess_Closers svc) timeout s')) = {}"
proof -
  obtain res s' where res: "es_StartServices Q s = (res, s')" by (metis surj_pair)
  then show ?thesis
    using es_StartServices_post [OF assms(1,2)] assms(3)
    by (cases res) (simp_all add: CloseWithTimeout_def Closers_Close_state)
qed

section \<open>Properties\<close>

text \<open>C12: An interrupted process ends, at most fifteen seconds later, whatever the launched service does; that
  it failed to terminate is logged only when the service had not returned by then. A process that is
  not interrupted ends exactly when the service returns by itself, and logs what it returned.\<close>

theorem interrupted_launch_ends:
  "(\<exists>t logs. WaitForInterrupt (Some ti) free closed t logs) \<and>
   (WaitForInterrupt (Some ti) free closed t logs \<longrightarrow> t \<le> ti + terminateTimeout \<and>
      (logs = [FailedToTerminate] \<longrightarrow> (\<forall>err t'. closed ti = Some (err, t') \<longrightarrow> ti + terminateTimeout \<le> t'))) \<and>
   (WaitForInterrupt None free closed t logs \<longleftrightarrow> (\<exists>err. free = Some (err, t) \<and> logs = [TerminatedWith err]))"
proof (intro conjI impI)
  show "\<exists>t logs. WaitForInterrupt (Some ti) free closed t logs" by (rule interrupted_process_ends(1) [OF refl])
  show "WaitForInterrupt None free closed t logs \<longleftrightarrow> (\<exists>err. free = Some (err, t) \<and> logs = [TerminatedWith err])"
    by (auto elim: WaitForInterrupt.cases intro: wfi_terminated)
  assume run: "WaitForInterrupt (Some ti) free closed t logs"
  then show "t \<le> ti + terminateTimeout" by (rule interrupted_process_ends(2) [OF refl])
  from run show "\<forall>err t'. closed ti = Some (err, t') \<longrightarrow> ti + terminateTimeout \<le> t'" if "logs = [FailedToTerminate]"
    using that by cases (auto split: option.splits)
qed

theorem interrupted_launch_ends_witness:
  "WaitForInterrupt (Some 7) None (\<lambda>t. None) (7 + terminateTimeout) [FailedToTerminate] \<and>
   \<not> WaitForInterrupt (Some 7) None (\<lambda>t. None) (8 + terminateTimeout) [FailedToTerminate]"
proof -
  have "WaitForInterrupt (Some 7) None (\<lambda>t. None) (7 + terminateTimeout) [FailedToTerminate]"
    by (rule wfi_timeout) simp_all
  moreover have "\<not> WaitForInterrupt (Some 7) None (\<lambda>t. None) (8 + terminateTimeout) [FailedToTerminate]"
    using interrupted_launch_ends [of 7 None "\<lambda>t. None" "8 + terminateTimeout" "[FailedToTerminate]"] by force
  ultimately show ?thesis by blast
qed

end
