(* ===== verification/ServerRun.thy ===== *)
theory ServerRun
  imports Lifecycle
begin

text \<open>
  \<open>gateway/server.go\<close> and \<open>eventserver/server.go\<close>: starting a server, running it until something ends it,
  and taking it down. What the listeners, the routers and the transports do is a parameter; the
  goroutines of the event server, which race for the one channel that ends it, are a step relation.
\<close>

section \<open>gateway/server.go\<close>

text \<open>What ends a run: the request to close, or the HTTP server returning.\<close>

datatype run_end = CloseRequested | ServerReturned "go_error option"

record ('s, 'svc, 'routes) gateway_env =
  ge_Configure :: "'svc \<Rightarrow> 's \<Rightarrow> 'routes result \<times> 's"
  ge_Listener :: "'s \<Rightarrow> go_error option \<times> 's"
  ge_listener_Close :: "'s \<Rightarrow> 's"
  ge_run :: "'routes \<Rightarrow> 's \<Rightarrow> run_end \<times> 's"
  ge_Shutdown :: "'s \<Rightarrow> go_error option \<times> 's"

definition closeTimeout :: duration where "closeTimeout = 15 * Second"

definition gateway_Start where
  "gateway_Start app P G s =
     (case gateway_StartServices app P s of
        (Inl err, s1) \<Rightarrow> (Some err, s1)
      | (Inr services, s1) \<Rightarrow>
        let closeServices = (\<lambda>s. snd (CloseWithTimeout app (gs_Closers services) closeTimeout s)) in
     (case ge_Configure G services s1 of
        (Inl err, s2) \<Rightarrow> (Some (Opaque (''configuring routes: '' @ Error_text err)), closeServices s2)
      | (Inr routes, s2) \<Rightarrow>
     (case ge_Listener G s2 of
        (Some err, s3) \<Rightarrow> (Some (Wrapped ''binding to address'' err), closeServices s3)
      | (None, s3) \<Rightarrow>
        let closeAll = (\<lambda>s. closeServices (ge_listener_Close G s)) in
     (case ge_run G routes s3 of
        (CloseRequested, s4) \<Rightarrow>
          (case ge_Shutdown G s4 of
             (Some err, s5) \<Rightarrow> (Some (Wrapped ''shuting down server'' err), closeAll s5)
           | (None, s5) \<Rightarrow> (None, closeAll s5))
      | (ServerReturned (Some err), s4) \<Rightarrow> (Some (Wrapped ''starting server'' err), closeAll s4)
      | (ServerReturned None, s4) \<Rightarrow> (Some (Opaque ''starting server: %!w(<nil>)''), closeAll s4)))))"

section \<open>eventserver/server.go: setting up\<close>

definition es_Validate :: "string \<Rightarrow> go_error option" where
  "es_Validate serverID = (if serverID = [] then Some (Opaque ''server ID cannot be empty'') else None)"

definition wrapErr :: "go_error option \<Rightarrow> string \<Rightarrow> go_error option" where
  "wrapErr err context = (case err of None \<Rightarrow> None | Some e \<Rightarrow> Some (Wrapped context e))"

text \<open>The addresses are read when the cluster is joined, after the listeners were bound.\<close>

record ('s, 'svc, 'h, 'g) es_env =
  ee_HTTPListener :: "'s \<Rightarrow> go_error option \<times> 's"
  ee_httpListener_Close :: "'s \<Rightarrow> 's"
  ee_http_Configure :: "'svc \<Rightarrow> 's \<Rightarrow> 'h result \<times> 's"
  ee_GRPCListener :: "'s \<Rightarrow> go_error option \<times> 's"
  ee_grpcListener_Close :: "'s \<Rightarrow> 's"
  ee_grpc_Configure :: "'svc \<Rightarrow> 's \<Rightarrow> 'g result \<times> 's"
  ee_GRPCAddress :: "'s \<Rightarrow> string"
  ee_HTTPAddress :: "'s \<Rightarrow> string"
  ee_JoinCluster :: "'svc \<Rightarrow> ServerInfo result \<Rightarrow> 's \<Rightarrow> go_error option \<times> 's"
  ee_InitiateShutdown :: "'svc \<Rightarrow> ctx \<Rightarrow> 's \<Rightarrow> go_error option \<times> 's"
  ee_LeaveCluster :: "'svc \<Rightarrow> ctx \<Rightarrow> 's \<Rightarrow> go_error option \<times> 's"
  ee_GracefulStop :: "'g \<Rightarrow> 's \<Rightarrow> 's"
  ee_Shutdown :: "'h \<Rightarrow> ctx \<Rightarrow> 's \<Rightarrow> go_error option \<times> 's"

text \<open>
  Up to the point where the server has started: an error on the way closes the listeners bound so far
  and the services. The two goroutines that serve are started before the cluster is joined.
\<close>

definition es_setup where
  "es_setup app serverID Q E s =
     (case es_Validate serverID of
        Some err \<Rightarrow> (Inl (Wrapped ''validating configuration'' err), s)
      | None \<Rightarrow>
     (case es_StartServices Q s of
        (Inl err, s1) \<Rightarrow> (Inl err, s1)
      | (Inr services, s1) \<Rightarrow>
        let closeServices = (\<lambda>s. snd (CloseWithTimeout app (ess_Closers services) closeTimeout s)) in
     (case ee_HTTPListener E s1 of
        (Some err, s2) \<Rightarrow> (Inl (Wrapped ''binding to http address'' err), closeServices s2)
      | (None, s2) \<Rightarrow>
        let closeHTTP = (\<lambda>s. closeServices (ee_httpListener_Close E s)) in
     (case ee_http_Configure E services s2 of
        (Inl err, s3) \<Rightarrow> (Inl (Wrapped ''configuring http handler'' err), closeHTTP s3)
      | (Inr httpServer, s3) \<Rightarrow>
     (case ee_GRPCListener E s3 of
        (Some err, s4) \<Rightarrow> (Inl (Wrapped ''binding to gRPC address'' err), closeHTTP s4)
      | (None, s4) \<Rightarrow>
        let closeAll = (\<lambda>s. closeHTTP (ee_grpcListener_Close E s)) in
     (case ee_grpc_Configure E services s4 of
        (Inl err, s5) \<Rightarrow> (Inl (Wrapped ''configuring GRPC server'' err), closeAll s5)
      | (Inr grpcServer, s5) \<Rightarrow>
     (case ee_JoinCluster E services (Inr \<lparr>srv_ID = serverID, srv_GRPCAddress = ee_GRPCAddress E s5,
          srv_HTTPAddress = ee_HTTPAddress E s5\<rparr>) s5 of
        (Some err, s6) \<Rightarrow> (Inl (Wrapped ''joining cluster'' err), closeAll s6)
      | (None, s6) \<Rightarrow> (Inr (services, httpServer, grpcServer), s6))))))))"

text \<open>
  Taking the server down: every stage runs whatever the ones before it returned, and errors are only
  logged. The graceful stop and the HTTP shutdown run side by side; \<open>grpc_first\<close> tells which of them
  ended first. The listeners are closed on the way out.
\<close>

definition es_takedown where
  "es_takedown app E grpc_first running s =
     (case running of (services, httpServer, grpcServer) \<Rightarrow>
        let closeCtx = WithTimeout closeTimeout;
            (e1, s1) = ee_InitiateShutdown E services closeCtx s;
            (e2, s2) = ee_LeaveCluster E services closeCtx s1;
            (e3, s3) = (if grpc_first then ee_Shutdown E httpServer closeCtx (ee_GracefulStop E grpcServer s2)
                        else case ee_Shutdown E httpServer closeCtx s2 of (e, s') \<Rightarrow> (e, ee_GracefulStop E grpcServer s'));
            (e4, s4) = Closers_Close app (ess_Closers services) closeCtx s3
        in (List.map_filter id [e1, e2, e3, e4], ee_httpListener_Close E (ee_grpcListener_Close E s4)))"

section \<open>eventserver/server.go: running\<close>

text \<open>
  Five goroutines, the environment and the calls of the gRPC clients. The two servers report on
  \<open>closeCh\<close> when they return; two forwarders wait for the loss of the lease and for the request to close,
  but also receive from \<open>closeCh\<close> themselves, to learn that the server is ending; the main goroutine
  takes one message and takes the server down. Shutting the event server down and leaving the cluster are one
  step each: their waits end with \<open>closeCtx\<close>. So is closing the services, which only calls the \<open>Close\<close> of the
  clients and of the heart beater. The shutdown of the HTTP server ends with \<open>closeCtx\<close> as well, but \<open>GracefulStop\<close> waits without a timeout until no call is open, and the main goroutine for both.
\<close>

datatype server_pc = Serving | Reporting "go_error option" | Reported
datatype forwarder_pc = Watching | Forwarding "go_error option" | Forwarded | Swallowed "go_error option"
datatype main_pc = AwaitTrigger | InitiatingShutdown "go_error option" | LeavingCluster "go_error option"
  | Stopping "go_error option" | ClosingServices "go_error option" | Returned "go_error option"

record run_state =
  closeCh :: "go_error option list"
  http_pc :: server_pc
  grpc_pc :: server_pc
  lease_lost :: bool
  close_requested :: bool
  lease_fwd :: forwarder_pc
  close_fwd :: forwarder_pc
  main_pc :: main_pc
  open_calls :: nat
  grpc_stopped :: bool
  http_shut :: bool

definition closeCh_cap :: nat where "closeCh_cap = 10"

definition run_start :: run_state where
  "run_start = \<lparr>closeCh = [], http_pc = Serving, grpc_pc = Serving, lease_lost = False, close_requested = False,
     lease_fwd = Watching, close_fwd = Watching, main_pc = AwaitTrigger, open_calls = 0, grpc_stopped = False,
     http_shut = False\<rparr>"

text \<open>What ended the run, and whether \<open>GracefulStop\<close> has been called.\<close>

fun ended_by :: "main_pc \<Rightarrow> go_error option option" where
  "ended_by AwaitTrigger = None"
| "ended_by (InitiatingShutdown e) = Some e"
| "ended_by (LeavingCluster e) = Some e"
| "ended_by (Stopping e) = Some e"
| "ended_by (ClosingServices e) = Some e"
| "ended_by (Returned e) = Some e"

fun stopping :: "main_pc \<Rightarrow> bool" where
  "stopping (Stopping e) = True"
| "stopping (ClosingServices e) = True"
| "stopping (Returned e) = True"
| "stopping _ = False"

text \<open>The environment: the lease is lost, the process is interrupted, a server stops serving.\<close>

inductive env_step :: "run_state \<Rightarrow> run_state \<Rightarrow> bool" where
  env_lease: "\<not> lease_lost s \<Longrightarrow> env_step s (s\<lparr>lease_lost := True\<rparr>)"
| env_close: "\<not> close_requested s \<Longrightarrow> env_step s (s\<lparr>close_requested := True\<rparr>)"
| env_http: "http_pc s = Serving \<Longrightarrow> env_step s (s\<lparr>http_pc := Reporting (wrapErr (server_Start err) ''HTTP server'')\<rparr>)"
| env_grpc: "grpc_pc s = Serving \<Longrightarrow> env_step s (s\<lparr>grpc_pc := Reporting (wrapErr err ''gRPC server'')\<rparr>)"

text \<open>A gRPC call begins, as long as the server has not been told to stop (also when its listener has failed, on a
  connection it has), or it returns. Nothing says that it does: theory EventServer has calls that never do.\<close>

inductive call_begins :: "run_state \<Rightarrow> run_state \<Rightarrow> bool" where
  call_begins: "\<not> stopping (main_pc s) \<Longrightarrow> call_begins s (s\<lparr>open_calls := Suc (open_calls s)\<rparr>)"

inductive call_returns :: "run_state \<Rightarrow> run_state \<Rightarrow> bool" where
  call_returns: "open_calls s = Suc n \<Longrightarrow> call_returns s (s\<lparr>open_calls := n\<rparr>)"

definition lostMembership :: go_error where "lostMembership = Opaque ''lost membership in the cluster''"

inductive go_step :: "run_state \<Rightarrow> run_state \<Rightarrow> bool" where
  http_report: "http_pc s = Reporting e \<Longrightarrow> length (closeCh s) < closeCh_cap \<Longrightarrow>
    go_step s (s\<lparr>http_pc := Reported, closeCh := closeCh s @ [e]\<rparr>)"
| grpc_report: "grpc_pc s = Reporting e \<Longrightarrow> length (closeCh s) < closeCh_cap \<Longrightarrow>
    go_step s (s\<lparr>grpc_pc := Reported, closeCh := closeCh s @ [e]\<rparr>)"
| lease_wakes: "lease_fwd s = Watching \<Longrightarrow> lease_lost s \<Longrightarrow> go_step s (s\<lparr>lease_fwd := Forwarding (Some lostMembership)\<rparr>)"
| lease_swallows: "lease_fwd s = Watching \<Longrightarrow> closeCh s = e # rest \<Longrightarrow>
    go_step s (s\<lparr>lease_fwd := Swallowed e, closeCh := rest\<rparr>)"
| lease_forwards: "lease_fwd s = Forwarding e \<Longrightarrow> length (closeCh s) < closeCh_cap \<Longrightarrow>
    go_step s (s\<lparr>lease_fwd := Forwarded, closeCh := closeCh s @ [e]\<rparr>)"
| close_wakes: "close_fwd s = Watching \<Longrightarrow> close_requested s \<Longrightarrow> go_step s (s\<lparr>close_fwd := Forwarding None\<rparr>)"
| close_swallows: "close_fwd s = Watching \<Longrightarrow> closeCh s = e # rest \<Longrightarrow>
    go_step s (s\<lparr>close_fwd := Swallowed e, closeCh := rest\<rparr>)"
| close_forwards: "close_fwd s = Forwarding e \<Longrightarrow> length (closeCh s) < closeCh_cap \<Longrightarrow>
    go_step s (s\<lparr>close_fwd := Forwarded, closeCh := closeCh s @ [e]\<rparr>)"
| main_wakes: "main_pc s = AwaitTrigger \<Longrightarrow> closeCh s = e # rest \<Longrightarrow>
    go_step s (s\<lparr>main_pc := InitiatingShutdown e, closeCh := rest\<rparr>)"
| main_shut_down: "main_pc s = InitiatingShutdown e \<Longrightarrow> go_step s (s\<lparr>main_pc := LeavingCluster e\<rparr>)"
| main_left: "main_pc s = LeavingCluster e \<Longrightarrow> go_step s (s\<lparr>main_pc := Stopping e\<rparr>)"
| http_shuts: "main_pc s = Stopping e \<Longrightarrow> \<not> http_shut s \<Longrightarrow> go_step s (s\<lparr>http_shut := True\<rparr>)"
| grpc_stops: "main_pc s = Stopping e \<Longrightarrow> \<not> grpc_stopped s \<Longrightarrow> open_calls s = 0 \<Longrightarrow> go_step s (s\<lparr>grpc_stopped := True\<rparr>)"
| main_stopped: "main_pc s = Stopping e \<Longrightarrow> http_shut s \<Longrightarrow> grpc_stopped s \<Longrightarrow>
    go_step s (s\<lparr>main_pc := ClosingServices e\<rparr>)"
| main_returns: "main_pc s = ClosingServices e \<Longrightarrow> go_step s (s\<lparr>main_pc := Returned e\<rparr>)"

text \<open>A run, with the number of its steps other than calls that begin and return, of which there is no bound.\<close>

inductive run :: "nat \<Rightarrow> run_state \<Rightarrow> run_state \<Rightarrow> bool" where
  run_none: "run 0 s s"
| run_go: "run n s t \<Longrightarrow> go_step t t' \<Longrightarrow> run (Suc n) s t'"
| run_env: "run n s t \<Longrightarrow> env_step t t' \<Longrightarrow> run (Suc n) s t'"
| run_call: "run n s t \<Longrightarrow> call_begins t t' \<or> call_returns t t' \<Longrightarrow> run n s t'"

section \<open>Runs end\<close>

fun server_rank :: "server_pc \<Rightarrow> nat" where
  "server_rank Serving = 2"
| "server_rank (Reporting e) = 1"
| "server_rank Reported = 0"

fun forwarder_rank :: "forwarder_pc \<Rightarrow> nat" where
  "forwarder_rank Watching = 2"
| "forwarder_rank (Forwarding e) = 1"
| "forwarder_rank Forwarded = 0"
| "forwarder_rank (Swallowed e) = 0"

fun main_rank :: "main_pc \<Rightarrow> nat" where
  "main_rank AwaitTrigger = 5"
| "main_rank (InitiatingShutdown e) = 4"
| "main_rank (LeavingCluster e) = 3"
| "main_rank (Stopping e) = 2"
| "main_rank (ClosingServices e) = 1"
| "main_rank (Returned e) = 0"

definition run_rank :: "run_state \<Rightarrow> nat" where
  "run_rank s = of_bool (\<not> lease_lost s) + of_bool (\<not> close_requested s) + server_rank (http_pc s) + server_rank (grpc_pc s) +
     forwarder_rank (lease_fwd s) + forwarder_rank (close_fwd s) + main_rank (main_pc s) + of_bool (\<not> http_shut s) +
     of_bool (\<not> grpc_stopped s)"

lemma env_step_rank: "env_step s s' \<Longrightarrow> run_rank s' < run_rank s"
  by (induction rule: env_step.induct) (simp_all add: run_rank_def)

lemma go_step_rank: "go_step s s' \<Longrightarrow> run_rank s' < run_rank s"
  by (induction rule: go_step.induct) (simp_all add: run_rank_def)

lemma call_rank: "call_begins s s' \<or> call_returns s s' \<Longrightarrow> run_rank s' = run_rank s"
  by (elim disjE call_begins.cases call_returns.cases) (simp_all add: run_rank_def)

lemma run_rank_bound: "run n s t \<Longrightarrow> n + run_rank t \<le> run_rank s"
proof (induction rule: run.induct)
  case (run_go n s t t')
  then show ?case using go_step_rank [of t t'] by simp
next
  case (run_env n s t t')
  then show ?case using env_step_rank [of t t'] by simp
next
  case (run_call n s t t')
  then show ?case using call_rank [of t t'] by simp
qed simp

section \<open>The messages are accounted for\<close>

definition reports :: "run_state \<Rightarrow> nat" where
  "reports s = of_bool (http_pc s = Reported) + of_bool (grpc_pc s = Reported) + of_bool (lease_fwd s = Forwarded) +
     of_bool (close_fwd s = Forwarded)"

definition swallowed :: "run_state \<Rightarrow> nat" where
  "swallowed s = of_bool (\<exists>e. lease_fwd s = Swallowed e) + of_bool (\<exists>e. close_fwd s = Swallowed e)"

definition run_inv :: "run_state \<Rightarrow> bool" where
  "run_inv s \<longleftrightarrow> reports s = length (closeCh s) + swallowed s + of_bool (main_pc s \<noteq> AwaitTrigger) \<and>
     (grpc_stopped s \<longrightarrow> stopping (main_pc s) \<and> open_calls s = 0) \<and>
     ((\<exists>e. main_pc s = ClosingServices e \<or> main_pc s = Returned e) \<longrightarrow> grpc_stopped s \<and> http_shut s)"

lemma run_start_inv: "run_inv run_start"
  by (simp add: run_inv_def reports_def swallowed_def run_start_def)

lemma env_step_inv: "env_step s s' \<Longrightarrow> run_inv s \<Longrightarrow> run_inv s'"
  by (induction rule: env_step.induct) (simp_all add: run_inv_def reports_def swallowed_def)

lemma go_step_inv: "go_step s s' \<Longrightarrow> run_inv s \<Longrightarrow> run_inv s'"
  by (induction rule: go_step.induct) (simp_all add: run_inv_def reports_def swallowed_def)

lemma call_inv: "call_begins s s' \<or> call_returns s s' \<Longrightarrow> run_inv s \<Longrightarrow> run_inv s'"
proof (elim disjE)
  show "run_inv s'" if "call_begins s s'" and "run_inv s"
    using that(1)
  proof cases
    case call_begins
    then have "\<nexists>e. main_pc s = ClosingServices e \<or> main_pc s = Returned e" by auto
    then show ?thesis using that(2) call_begins by (simp add: run_inv_def reports_def swallowed_def)
  qed
  show "run_inv s'" if "call_returns s s'" and "run_inv s"
    using that by cases (simp add: run_inv_def reports_def swallowed_def, blast)
qed

lemma run_steps_inv: "run n s t \<Longrightarrow> run_inv s \<Longrightarrow> run_inv t"
proof (induction rule: run.induct)
  case (run_go n s t t')
  then show ?case using go_step_inv by simp
next
  case (run_env n s t t')
  then show ?case using env_step_inv by simp
next
  case (run_call n s t t')
  then show ?case using call_inv by simp
qed

definition sender_waiting :: "run_state \<Rightarrow> bool" where
  "sender_waiting s \<longleftrightarrow> (\<exists>e. http_pc s = Reporting e \<or> grpc_pc s = Reporting e \<or> lease_fwd s = Forwarding e \<or> close_fwd s = Forwarding e)"

lemma sender_has_room: "run_inv s \<Longrightarrow> length (closeCh s) < closeCh_cap"
proof -
  assume "run_inv s"
  then have "length (closeCh s) \<le> reports s" by (simp add: run_inv_def)
  also have "reports s \<le> 4" by (simp add: reports_def)
  finally show ?thesis by (simp add: closeCh_cap_def)
qed

text \<open>When no goroutine can move and main still waits, every report was swallowed by a forwarder.\<close>

lemma stuck_waiting:
  assumes "run_inv s" and "\<nexists>s'. go_step s s'" and "main_pc s = AwaitTrigger"
  shows "closeCh s = [] \<and> \<not> sender_waiting s \<and> reports s = swallowed s \<and>
    (lease_lost s \<longrightarrow> lease_fwd s \<noteq> Watching) \<and> (close_requested s \<longrightarrow> close_fwd s \<noteq> Watching)"
proof -
  have empty: "closeCh s = []"
    using assms(2,3) go_step.main_wakes by (cases "closeCh s") blast+
  moreover have "\<not> sender_waiting s"
    using assms(2) sender_has_room [OF assms(1)] unfolding sender_waiting_def
    by (meson go_step.http_report go_step.grpc_report go_step.lease_forwards go_step.close_forwards)
  moreover have "reports s = swallowed s" using assms(1,3) empty by (simp add: run_inv_def)
  ultimately show ?thesis using assms(2) go_step.lease_wakes go_step.close_wakes by blast
qed

lemma stuck_untriggered:
  assumes "run_inv s" and "\<nexists>s'. go_step s s'" and "main_pc s = AwaitTrigger"
  shows "main_pc s = AwaitTrigger \<and> reports s = swallowed s \<and>
    (swallowed s = 0 \<longrightarrow> \<not> lease_lost s \<and> \<not> close_requested s \<and> http_pc s = Serving \<and> grpc_pc s = Serving)"
proof -
  note w = stuck_waiting [OF assms]
  have "\<not> lease_lost s \<and> \<not> close_requested s \<and> http_pc s = Serving \<and> grpc_pc s = Serving" if "swallowed s = 0"
  proof -
    have "reports s = 0" using w that by simp
    then have "http_pc s \<noteq> Reported" "grpc_pc s \<noteq> Reported" "lease_fwd s \<noteq> Forwarded" "close_fwd s \<noteq> Forwarded"
      by (simp_all add: reports_def)
    moreover have "\<nexists>e. lease_fwd s = Swallowed e" "\<nexists>e. close_fwd s = Swallowed e"
      using that by (auto simp: swallowed_def)
    ultimately show ?thesis
      using w unfolding sender_waiting_def
      by (metis forwarder_pc.exhaust server_pc.exhaust)
  qed
  with w assms(3) show ?thesis by blast
qed

text \<open>When no goroutine can move and main is taking the server down, a call is open.\<close>

lemma stuck_stopping:
  assumes "\<nexists>s'. go_step s s'" and "ended_by (main_pc s) = Some e"
  shows "main_pc s = Returned e \<or> main_pc s = Stopping e \<and> http_shut s \<and> \<not> grpc_stopped s \<and> 0 < open_calls s"
proof (cases "main_pc s")
  case (InitiatingShutdown e')
  then show ?thesis using assms(1) go_step.main_shut_down by blast
next
  case (LeavingCluster e')
  then show ?thesis using assms(1) go_step.main_left by blast
next
  case (Stopping e')
  then have shut: "http_shut s" using assms(1) go_step.http_shuts by blast
  then have "\<not> grpc_stopped s" using Stopping assms(1) go_step.main_stopped by blast
  moreover from this have "open_calls s \<noteq> 0" using Stopping assms(1) go_step.grpc_stops by blast
  ultimately show ?thesis using Stopping assms(2) shut by simp
next
  case (ClosingServices e')
  then show ?thesis using assms(1) go_step.main_returns by blast
qed (use assms(2) in simp_all)

text \<open>The takedown goes on by steps of the goroutines, and of the calls that return.\<close>

definition takedown_step :: "run_state \<Rightarrow> run_state \<Rightarrow> bool" where
  "takedown_step s s' \<longleftrightarrow> go_step s s' \<or> call_returns s s'"

lemma takedown_step_ended: "takedown_step s s' \<Longrightarrow> ended_by (main_pc s) = Some e \<Longrightarrow> ended_by (main_pc s') = Some e"
  by (auto simp: takedown_step_def elim!: go_step.cases call_returns.cases)

lemma takedown_step_rank: "takedown_step s s' \<Longrightarrow> run_rank s' + open_calls s' < run_rank s + open_calls s"
proof -
  assume step: "takedown_step s s'"
  show ?thesis
  proof (cases "go_step s s'")
    case True
    then have "open_calls s' = open_calls s" by cases simp_all
    with go_step_rank [OF True] show ?thesis by simp
  next
    case False
    then have "call_returns s s'" using step by (simp add: takedown_step_def)
    moreover from this have "open_calls s' < open_calls s" by cases simp
    moreover from \<open>call_returns s s'\<close> have "run_rank s' = run_rank s" using call_rank by blast
    ultimately show ?thesis by simp
  qed
qed

lemma takedown_ends:
  "ended_by (main_pc s) = Some e \<Longrightarrow> \<exists>t. takedown_step\<^sup>*\<^sup>* s t \<and> main_pc t = Returned e"
proof (induction "run_rank s + open_calls s" arbitrary: s rule: less_induct)
  case less
  show ?case
  proof (cases "\<exists>s'. takedown_step s s'")
    case True
    then obtain s' where step: "takedown_step s s'" by blast
    obtain t where "takedown_step\<^sup>*\<^sup>* s' t" "main_pc t = Returned e"
      using less.hyps [OF takedown_step_rank [OF step] takedown_step_ended [OF step less.prems]] by blast
    with step show ?thesis by (meson converse_rtranclp_into_rtranclp)
  next
    case False
    then have "\<nexists>s'. go_step s s'" and none: "\<nexists>s'. call_returns s s'" by (simp_all add: takedown_step_def)
    moreover have "open_calls s = 0" using none call_returns.call_returns by (cases "open_calls s") blast+
    ultimately have "main_pc s = Returned e" using stuck_stopping [OF _ less.prems] by simp
    then show ?thesis by blast
  qed
qed

lemma takedown_run: "takedown_step\<^sup>*\<^sup>* t u \<Longrightarrow> run n s t \<Longrightarrow> \<exists>m. run m s u"
proof (induction rule: rtranclp_induct)
  case (step u v)
  then obtain m where "run m s u" by blast
  with step.hyps(2) show ?case unfolding takedown_step_def by (meson run_go run_call)
qed blast

text \<open>A run in which the only trigger is lost: the HTTP server fails, the forwarder that waits for the
  request to close swallows its report, and when the process is interrupted nobody passes that on.\<close>

definition lost_run :: run_state where
  "lost_run = run_start\<lparr>http_pc := Reported, close_requested := True,
     close_fwd := Swallowed (Some (Wrapped ''HTTP server'' (Opaque ''accept failed'')))\<rparr>"

lemma lost_run_reached: "run 4 run_start lost_run"
proof -
  let ?e = "Some (Wrapped ''HTTP server'' (Opaque ''accept failed''))"
  let ?s1 = "run_start\<lparr>http_pc := Reporting ?e\<rparr>"
  let ?s2 = "?s1\<lparr>http_pc := Reported, closeCh := [?e]\<rparr>"
  let ?s3 = "?s2\<lparr>close_fwd := Swallowed ?e, closeCh := []\<rparr>"
  have "wrapErr (server_Start (Some (Opaque ''accept failed''))) ''HTTP server'' = ?e"
    by (simp add: wrapErr_def server_Start_def ErrServerClosed_def)
  then have "env_step run_start ?s1"
    using env_http [of run_start "Some (Opaque ''accept failed'')"] by (simp add: run_start_def)
  then have "run (Suc 0) run_start ?s1" by (rule run_env [OF run_none])
  moreover have "go_step ?s1 ?s2"
    using http_report [of ?s1 ?e] by (simp add: run_start_def closeCh_cap_def)
  ultimately have "run (Suc (Suc 0)) run_start ?s2" by (rule run_go)
  moreover have "go_step ?s2 ?s3"
    using close_swallows [of ?s2 ?e "[]"] by (simp add: run_start_def)
  ultimately have "run (Suc (Suc (Suc 0))) run_start ?s3" by (rule run_go)
  moreover have "env_step ?s3 lost_run"
    using env_close [of ?s3] by (simp add: run_start_def lost_run_def)
  ultimately have "run (Suc (Suc (Suc (Suc 0)))) run_start lost_run" by (rule run_env)
  then show ?thesis by (simp add: numeral_eq_Suc)
qed

lemma lost_run_stuck: "\<nexists>s'. go_step lost_run s'"
  by (auto simp: lost_run_def run_start_def elim: go_step.cases)

text \<open>A run that is held up: the process is interrupted while a gRPC call is open, and the call does not return.\<close>

definition held_run :: run_state where
  "held_run = run_start\<lparr>close_requested := True, close_fwd := Forwarded, main_pc := Stopping None, open_calls := 1,
     http_shut := True\<rparr>"

lemma held_run_reached: "run 7 run_start held_run"
proof -
  let ?s0 = "run_start\<lparr>open_calls := 1\<rparr>"
  let ?s1 = "?s0\<lparr>close_requested := True\<rparr>"
  let ?s2 = "?s1\<lparr>close_fwd := Forwarding None\<rparr>"
  let ?s3 = "?s2\<lparr>close_fwd := Forwarded, closeCh := [None]\<rparr>"
  let ?s4 = "?s3\<lparr>main_pc := InitiatingShutdown None, closeCh := []\<rparr>"
  let ?s5 = "?s4\<lparr>main_pc := LeavingCluster None\<rparr>"
  let ?s6 = "?s5\<lparr>main_pc := Stopping None\<rparr>"
  have "call_begins run_start ?s0" using call_begins.call_begins [of run_start] by (simp add: run_start_def)
  then have "run 0 run_start ?s0" using run_call [OF run_none] by blast
  moreover have "env_step ?s0 ?s1" using env_close [of ?s0] by (simp add: run_start_def)
  ultimately have "run (Suc 0) run_start ?s1" by (rule run_env)
  moreover have "go_step ?s1 ?s2" using close_wakes [of ?s1] by (simp add: run_start_def)
  ultimately have "run (Suc (Suc 0)) run_start ?s2" by (rule run_go)
  moreover have "go_step ?s2 ?s3" using close_forwards [of ?s2 None] by (simp add: run_start_def closeCh_cap_def)
  ultimately have "run (Suc (Suc (Suc 0))) run_start ?s3" by (rule run_go)
  moreover have "go_step ?s3 ?s4" using main_wakes [of ?s3 None "[]"] by (simp add: run_start_def)
  ultimately have "run (Suc (Suc (Suc (Suc 0)))) run_start ?s4" by (rule run_go)
  moreover have "go_step ?s4 ?s5" using main_shut_down [of ?s4 None] by (simp add: run_start_def)
  ultimately have "run (Suc (Suc (Suc (Suc (Suc 0))))) run_start ?s5" by (rule run_go)
  moreover have "go_step ?s5 ?s6" using main_left [of ?s5 None] by (simp add: run_start_def)
  ultimately have "run (Suc (Suc (Suc (Suc (Suc (Suc 0)))))) run_start ?s6" by (rule run_go)
  moreover have "go_step ?s6 held_run" using http_shuts [of ?s6 None] by (simp add: run_start_def held_run_def)
  ultimately have "run (Suc (Suc (Suc (Suc (Suc (Suc (Suc 0))))))) run_start held_run" by (rule run_go)
  then show ?thesis by (simp add: numeral_eq_Suc)
qed

lemma held_run_stuck: "\<nexists>s'. go_step held_run s'"
  by (auto simp: held_run_def run_start_def elim: go_step.cases)

text \<open>The two ways in which an interrupted server does not return.\<close>

lemma run_can_hang:
  "(\<exists>k t. run k run_start t \<and> close_requested t \<and> http_pc t = Reported \<and> main_pc t = AwaitTrigger \<and>
     (\<nexists>t'. go_step t t'))"
  "(\<exists>k t. run k run_start t \<and> close_requested t \<and> main_pc t = Stopping None \<and> open_calls t = 1 \<and>
     (\<nexists>t'. go_step t t'))"
proof -
  show "\<exists>k t. run k run_start t \<and> close_requested t \<and> http_pc t = Reported \<and> main_pc t = AwaitTrigger \<and> (\<nexists>t'. go_step t t')"
    using lost_run_reached lost_run_stuck
    by (intro exI [of _ 4] exI [of _ lost_run]) (simp add: lost_run_def run_start_def)
  show "\<exists>k t. run k run_start t \<and> close_requested t \<and> main_pc t = Stopping None \<and> open_calls t = 1 \<and> (\<nexists>t'. go_step t t')"
    using held_run_reached held_run_stuck
    by (intro exI [of _ 7] exI [of _ held_run]) (simp add: held_run_def run_start_def)
qed

text \<open>A run that is ended by the request to close, and returns.\<close>

lemma closed_run_reached: "\<exists>n t. run n run_start t \<and> main_pc t = Returned None"
proof -
  have "ended_by (main_pc held_run) = Some None" by (simp add: held_run_def)
  then obtain t where "takedown_step\<^sup>*\<^sup>* held_run t" "main_pc t = Returned None" using takedown_ends by blast
  with takedown_run [OF _ held_run_reached] show ?thesis by blast
qed

section \<open>eventserver/server.go: Start as a whole\<close>

text \<open>
  \<open>Start\<close> sets the server up, waits until a report ends the run, and takes the server down; it returns when the
  main goroutine has got to its end, with that report. \<open>world\<close> is how the handlers, the heartbeats and the watch
  move the state meanwhile, \<open>es_takedown\<close> what the takedown does to it. A run that never ends, for want of a
  report or because a gRPC call stays open, has no result.
\<close>

inductive es_Start for app serverID Q E world s where
  es_Start_fails: "es_setup app serverID Q E s = (Inl err, s') \<Longrightarrow>
    es_Start app serverID Q E world s (Some err) s'"
| es_Start_ends: "es_setup app serverID Q E s = (Inr running, s1) \<Longrightarrow> world s1 s2 \<Longrightarrow>
    run n run_start t \<Longrightarrow> main_pc t = Returned closeErr \<Longrightarrow>
    es_takedown app E grpc_first running s2 = (logged, s') \<Longrightarrow>
    es_Start app serverID Q E world s closeErr s'"

section \<open>What a server leaves open\<close>

text \<open>The parts of the environment, as far as they concern what is open: binding opens a listener at most when it
  succeeds, closing it closes it, and everything else opens nothing.\<close>

definition opens_none :: "('s \<Rightarrow> conn set) \<Rightarrow> ('s \<Rightarrow> 's) \<Rightarrow> bool" where
  "opens_none opened f \<longleftrightarrow> (\<forall>s. opened (f s) \<subseteq> opened s)"

definition binds :: "('s \<Rightarrow> conn set) \<Rightarrow> ('s \<Rightarrow> go_error option \<times> 's) \<Rightarrow> conn \<Rightarrow> bool" where
  "binds opened listen l \<longleftrightarrow>
     (\<forall>s. opened (snd (listen s)) \<subseteq> (if fst (listen s) = None then insert l (opened s) else opened s))"

definition gateway_env_laws :: "('s \<Rightarrow> conn set) \<Rightarrow> ('s, 'svc, 'routes) gateway_env \<Rightarrow> bool" where
  "gateway_env_laws opened G \<longleftrightarrow>
     (\<forall>svc. opens_none opened (snd \<circ> ge_Configure G svc)) \<and> binds opened (ge_Listener G) HTTPListener \<and>
     (\<forall>s. opened (ge_listener_Close G s) = opened s - {HTTPListener}) \<and>
     (\<forall>routes. opens_none opened (snd \<circ> ge_run G routes)) \<and> opens_none opened (snd \<circ> ge_Shutdown G)"

definition es_env_laws :: "('s \<Rightarrow> conn set) \<Rightarrow> ('s, 'svc, 'h, 'g) es_env \<Rightarrow> ('s \<Rightarrow> 's \<Rightarrow> bool) \<Rightarrow> bool" where
  "es_env_laws opened E world \<longleftrightarrow>
     binds opened (ee_HTTPListener E) HTTPListener \<and> binds opened (ee_GRPCListener E) GRPCListener \<and>
     (\<forall>s. opened (ee_httpListener_Close E s) = opened s - {HTTPListener}) \<and>
     (\<forall>s. opened (ee_grpcListener_Close E s) = opened s - {GRPCListener}) \<and>
     (\<forall>svc. opens_none opened (snd \<circ> ee_http_Configure E svc) \<and> opens_none opened (snd \<circ> ee_grpc_Configure E svc) \<and>
        (\<forall>i. opens_none opened (snd \<circ> ee_JoinCluster E svc i)) \<and>
        (\<forall>ctx. opens_none opened (snd \<circ> ee_InitiateShutdown E svc ctx) \<and> opens_none opened (snd \<circ> ee_LeaveCluster E svc ctx))) \<and>
     (\<forall>g. opens_none opened (ee_GracefulStop E g)) \<and> (\<forall>h ctx. opens_none opened (snd \<circ> ee_Shutdown E h ctx)) \<and>
     (\<forall>s s'. world s s' \<longrightarrow> opened s' \<subseteq> opened s)"

lemma opens_noneD: "opens_none opened f \<Longrightarrow> opened (f s) \<subseteq> opened s"
  by (simp add: opens_none_def)

lemma opens_none_snd: "opens_none opened (snd \<circ> f) \<Longrightarrow> f s = (r, s') \<Longrightarrow> opened s' \<subseteq> opened s"
  by (metis comp_apply opens_noneD snd_conv)

lemma bindsD:
  "binds opened listen l \<Longrightarrow> listen s = (None, s') \<Longrightarrow> opened s' \<subseteq> insert l (opened s)"
  "binds opened listen l \<Longrightarrow> listen s = (Some err, s') \<Longrightarrow> opened s' \<subseteq> opened s"
  unfolding binds_def by (metis fst_conv snd_conv) (metis fst_conv snd_conv option.distinct(1))

text \<open>What the closers of a server that started close.\<close>

lemma gateway_closers:
  assumes "gateway_StartServices app P s = (Inr svc, s')"
  shows "\<exists>m u e. gs_Closers svc = [CloseWithoutContext (memStore_Close P m), usersDB_Close P u, part_registry_Close P e,
    \<lambda>_ s. (pool_Close, s)]"
  using assms unfolding gateway_StartServices_def StartServices_body_def
  by (auto simp: Let_def simp del: Starters_Start.simps split: prod.splits sum.splits option.splits)

lemma gateway_closed:
  assumes "gateway_laws opened P" and "gateway_StartServices app P s = (Inr svc, s')"
  shows "opened (snd (CloseWithTimeout app (gs_Closers svc) timeout x)) = opened x - {MemStoreConn, UsersConn}"
proof -
  obtain m u e where c: "gs_Closers svc = [CloseWithoutContext (memStore_Close P m), usersDB_Close P u,
      part_registry_Close P e, \<lambda>_ s. (pool_Close, s)]"
    using gateway_closers [OF assms(2)] by blast
  have "list_all2 (closes_only opened) (gs_Closers svc) [{MemStoreConn}, {UsersConn}, {}, {}]"
    using assms(1) by (simp add: c gateway_laws_def closes_only_def)
  from Closers_Close_closes [OF this] show ?thesis by (auto simp: CloseWithTimeout_def)
qed

lemma es_closers:
  assumes "es_StartServices Q s = (Inr svc, s')"
  shows "\<exists>e m. ess_Closers svc = [CloseWithoutContext (etcdClient_Close Q e), CloseWithoutContext (es_memStore_Close Q m),
    heartBeater_Close Q m]"
  using assms by (auto simp: es_StartServices_def split: prod.splits sum.splits)

lemma es_closed:
  assumes "es_laws opened Q" and "es_StartServices Q s = (Inr svc, s')"
  shows "opened (snd (Closers_Close app (ess_Closers svc) ctx x)) = opened x - {EtcdConn, MemStoreConn}"
proof -
  obtain e m where c: "ess_Closers svc = [CloseWithoutContext (etcdClient_Close Q e),
      CloseWithoutContext (es_memStore_Close Q m), heartBeater_Close Q m]"
    using es_closers [OF assms(2)] by blast
  have "list_all2 (closes_only opened) (ess_Closers svc) [{EtcdConn}, {MemStoreConn}, {}]"
    using assms(1) by (simp add: c es_laws_def closes_only_def)
  from Closers_Close_closes [OF this] show ?thesis by auto
qed

lemma gateway_envD:
  assumes "gateway_env_laws opened G"
  shows "ge_Configure G svc s = (conf, s') \<Longrightarrow> opened s' \<subseteq> opened s"
    and "ge_Listener G s = (None, s') \<Longrightarrow> opened s' \<subseteq> insert HTTPListener (opened s)"
    and "ge_Listener G s = (Some err, s') \<Longrightarrow> opened s' \<subseteq> opened s"
    and "opened (ge_listener_Close G s) = opened s - {HTTPListener}"
    and "ge_run G routes s = (fin, s') \<Longrightarrow> opened s' \<subseteq> opened s"
    and "ge_Shutdown G s = (down, s') \<Longrightarrow> opened s' \<subseteq> opened s"
proof -
  note laws = assms [unfolded gateway_env_laws_def]
  show "ge_Configure G svc s = (conf, s') \<Longrightarrow> opened s' \<subseteq> opened s"
    by (rule opens_none_snd [where f = "ge_Configure G svc"]) (use laws in simp_all)
  show "ge_Listener G s = (None, s') \<Longrightarrow> opened s' \<subseteq> insert HTTPListener (opened s)"
    by (rule bindsD(1) [where listen = "ge_Listener G"]) (use laws in simp_all)
  show "ge_Listener G s = (Some err, s') \<Longrightarrow> opened s' \<subseteq> opened s"
    by (rule bindsD(2) [where listen = "ge_Listener G" and l = HTTPListener]) (use laws in simp_all)
  show "opened (ge_listener_Close G s) = opened s - {HTTPListener}" using laws by simp
  show "ge_run G routes s = (fin, s') \<Longrightarrow> opened s' \<subseteq> opened s"
    by (rule opens_none_snd [where f = "ge_run G routes"]) (use laws in simp_all)
  show "ge_Shutdown G s = (down, s') \<Longrightarrow> opened s' \<subseteq> opened s"
    by (rule opens_none_snd [where f = "ge_Shutdown G"]) (use laws in simp_all)
qed

text \<open>A gateway leaves at most its etcd client open, whatever ends it, once its services have started.\<close>

lemma gateway_Start_leaves:
  assumes "gateway_laws opened P" and "gateway_env_laws opened G" and "opened s = {}"
    and "gateway_Start app P G s = (e, s')"
  shows "opened s' \<subseteq> {EtcdConn} \<or> (\<exists>err. gateway_StartServices app P s = (Inl err, s'))"
proof -
  obtain res s1 where services: "gateway_StartServices app P s = (res, s1)" by (metis surj_pair)
  show ?thesis
  proof (cases res)
    case (Inl err)
    then have "s' = s1" using assms(4) services by (simp add: gateway_Start_def)
    then show ?thesis using services Inl by blast
  next
    case (Inr svc)
    have opened: "opened s1 = {MemStoreConn, UsersConn, EtcdConn}"
      using gateway_connections [OF assms(1,3), of app] services Inr by simp
    have closed: "opened (snd (CloseWithTimeout app (gs_Closers svc) closeTimeout x)) = opened x - {MemStoreConn, UsersConn}" for x
      by (rule gateway_closed [OF assms(1)]) (use services Inr in simp)
    note env = gateway_envD [OF assms(2)]
    let ?all = "{MemStoreConn, UsersConn, EtcdConn}"
    obtain conf s2 where conf: "ge_Configure G svc s1 = (conf, s2)" by (metis surj_pair)
    have s2: "opened s2 \<subseteq> ?all" using env(1) [OF conf] opened by simp
    show ?thesis
    proof (cases conf)
      case (Inl err)
      then show ?thesis using assms(4) services Inr conf s2 by (auto simp: gateway_Start_def Let_def closed)
    next
      case (Inr routes)
      obtain lst s3 where lst: "ge_Listener G s2 = (lst, s3)" by (metis surj_pair)
      have s3: "opened s3 \<subseteq> insert HTTPListener ?all"
        using env(2) [of s2 s3] env(3) [of s2 _ s3] lst s2 by (cases lst) auto
      obtain fin s4 where fin: "ge_run G routes s3 = (fin, s4)" by (metis surj_pair)
      have s4: "opened s4 \<subseteq> insert HTTPListener ?all"
        using env(5) [OF fin] s3 by simp
      obtain down s5 where down: "ge_Shutdown G s4 = (down, s5)" by (metis surj_pair)
      have s5: "opened s5 \<subseteq> insert HTTPListener ?all"
        using env(6) [OF down] s4 by simp
      have "opened s' \<subseteq> insert HTTPListener ?all - {MemStoreConn, UsersConn} \<and> (lst = None \<longrightarrow> HTTPListener \<notin> opened s')"
        using assms(4) services \<open>res = Inr svc\<close> conf Inr lst fin down s3 s4 s5
        by (auto simp: gateway_Start_def Let_def closed env(4) split: option.splits run_end.splits)
      moreover have "HTTPListener \<notin> opened s'" if "lst \<noteq> None"
      proof -
        obtain err where err: "lst = Some err" using \<open>lst \<noteq> None\<close> by blast
        have "opened s3 \<subseteq> opened s2" using env(3) lst err by blast
        then have "HTTPListener \<notin> opened s3" using s2 by auto
        then show ?thesis
          using assms(4) services \<open>res = Inr svc\<close> conf Inr lst err by (auto simp: gateway_Start_def Let_def closed)
      qed
      ultimately show ?thesis by auto
    qed
  qed
qed

lemma es_envD:
  assumes "es_env_laws opened E world"
  shows "ee_HTTPListener E s = (r, s') \<Longrightarrow> opened s' \<subseteq> (if r = None then insert HTTPListener (opened s) else opened s)"
    and "ee_GRPCListener E s = (r, s') \<Longrightarrow> opened s' \<subseteq> (if r = None then insert GRPCListener (opened s) else opened s)"
    and "opened (ee_httpListener_Close E s) = opened s - {HTTPListener}"
    and "opened (ee_grpcListener_Close E s) = opened s - {GRPCListener}"
    and "ee_http_Configure E svc s = (hc, s') \<Longrightarrow> opened s' \<subseteq> opened s"
    and "ee_grpc_Configure E svc s = (gc, s') \<Longrightarrow> opened s' \<subseteq> opened s"
    and "ee_JoinCluster E svc i s = (r, s') \<Longrightarrow> opened s' \<subseteq> opened s"
    and "ee_InitiateShutdown E svc ctx s = (r, s') \<Longrightarrow> opened s' \<subseteq> opened s"
    and "ee_LeaveCluster E svc ctx s = (r, s') \<Longrightarrow> opened s' \<subseteq> opened s"
    and "opened (ee_GracefulStop E g s) \<subseteq> opened s"
    and "ee_Shutdown E h ctx s = (r, s') \<Longrightarrow> opened s' \<subseteq> opened s"
    and "world s s' \<Longrightarrow> opened s' \<subseteq> opened s"
proof -
  note laws = assms [unfolded es_env_laws_def]
  show "ee_HTTPListener E s = (r, s') \<Longrightarrow> opened s' \<subseteq> (if r = None then insert HTTPListener (opened s) else opened s)"
    using laws [THEN conjunct1, unfolded binds_def, rule_format, of s] by simp
  show "ee_GRPCListener E s = (r, s') \<Longrightarrow> opened s' \<subseteq> (if r = None then insert GRPCListener (opened s) else opened s)"
    using laws [THEN conjunct2, THEN conjunct1, unfolded binds_def, rule_format, of s] by simp
  show "opened (ee_httpListener_Close E s) = opened s - {HTTPListener}"
    and "opened (ee_grpcListener_Close E s) = opened s - {GRPCListener}" using laws by simp_all
  show "ee_http_Configure E svc s = (hc, s') \<Longrightarrow> opened s' \<subseteq> opened s"
    by (rule opens_none_snd [where f = "ee_http_Configure E svc"]) (use laws in simp_all)
  show "ee_grpc_Configure E svc s = (gc, s') \<Longrightarrow> opened s' \<subseteq> opened s"
    by (rule opens_none_snd [where f = "ee_grpc_Configure E svc"]) (use laws in simp_all)
  show "ee_JoinCluster E svc i s = (r, s') \<Longrightarrow> opened s' \<subseteq> opened s"
    by (rule opens_none_snd [where f = "ee_JoinCluster E svc i"]) (use laws in simp_all)
  show "ee_InitiateShutdown E svc ctx s = (r, s') \<Longrightarrow> opened s' \<subseteq> opened s"
    by (rule opens_none_snd [where f = "ee_InitiateShutdown E svc ctx"]) (use laws in simp_all)
  show "ee_LeaveCluster E svc ctx s = (r, s') \<Longrightarrow> opened s' \<subseteq> opened s"
    by (rule opens_none_snd [where f = "ee_LeaveCluster E svc ctx"]) (use laws in simp_all)
  show "opened (ee_GracefulStop E g s) \<subseteq> opened s"
    by (rule opens_noneD) (use laws in simp)
  show "ee_Shutdown E h ctx s = (r, s') \<Longrightarrow> opened s' \<subseteq> opened s"
    by (rule opens_none_snd [where f = "ee_Shutdown E h ctx"]) (use laws in simp_all)
  show "world s s' \<Longrightarrow> opened s' \<subseteq> opened s" using laws by simp
qed

text \<open>The connections and listeners that an event server has while it runs.\<close>

abbreviation es_conns :: "conn set" where
  "es_conns \<equiv> {EtcdConn, MemStoreConn, HTTPListener, GRPCListener}"

text \<open>Taking the server down closes all of them, whatever the stages return and in whichever order they end.\<close>

lemma es_takedown_leaves:
  assumes "es_laws opened Q" and "es_env_laws opened E world" and "es_StartServices Q x = (Inr svc, x')"
    and "opened s \<subseteq> es_conns" and "es_takedown app E grpc_first (svc, h, g) s = (logged, s')"
  shows "opened s' = {}"
proof -
  note env = es_envD [OF assms(2)]
  let ?ctx = "WithTimeout closeTimeout"
  obtain e1 s1 where s1: "ee_InitiateShutdown E svc ?ctx s = (e1, s1)" by (metis surj_pair)
  obtain e2 s2 where s2: "ee_LeaveCluster E svc ?ctx s1 = (e2, s2)" by (metis surj_pair)
  have "opened s2 \<subseteq> es_conns" using env(8) [OF s1] env(9) [OF s2] assms(4) by blast
  define stopped where "stopped = (if grpc_first then ee_Shutdown E h ?ctx (ee_GracefulStop E g s2)
    else case ee_Shutdown E h ?ctx s2 of (e, s') \<Rightarrow> (e, ee_GracefulStop E g s'))"
  obtain e3 s3 where s3: "stopped = (e3, s3)" by (metis surj_pair)
  have "opened s3 \<subseteq> opened s2"
  proof (cases grpc_first)
    case True
    then show ?thesis using s3 env(11) [of h ?ctx "ee_GracefulStop E g s2" e3 s3] env(10) [of g s2]
      by (auto simp: stopped_def)
  next
    case False
    obtain e y where y: "ee_Shutdown E h ?ctx s2 = (e, y)" by (metis surj_pair)
    then have "s3 = ee_GracefulStop E g y" using s3 False by (simp add: stopped_def)
    then show ?thesis using env(11) [OF y] env(10) [of g y] by blast
  qed
  with \<open>opened s2 \<subseteq> es_conns\<close> have opened: "opened s3 \<subseteq> es_conns" by blast
  obtain e4 s4 where s4: "Closers_Close app (ess_Closers svc) ?ctx s3 = (e4, s4)" by (metis surj_pair)
  have "opened s4 = opened s3 - {EtcdConn, MemStoreConn}"
    using es_closed [OF assms(1,3), of app ?ctx s3] s4 by simp
  moreover have "s' = ee_httpListener_Close E (ee_grpcListener_Close E s4)"
    using assms(5) s1 s2 s3 s4 by (simp add: es_takedown_def Let_def stopped_def)
  ultimately show ?thesis using opened by (auto simp: env(3,4))
qed

text \<open>An event server that is set up has its services running; one that is not has closed everything, unless
  the services did not start.\<close>

lemma es_setup_leaves:
  assumes "es_laws opened Q" and "es_env_laws opened E world" and "opened s = {}"
    and "es_setup app serverID Q E s = (res, s')"
  shows "case res of
      Inl err \<Rightarrow> opened s' = {} \<or> es_StartServices Q s = (Inl err, s')
    | Inr (svc, h, g) \<Rightarrow> opened s' \<subseteq> es_conns \<and> (\<exists>s1. es_StartServices Q s = (Inr svc, s1))"
proof (cases "es_Validate serverID")
  case (Some err)
  then show ?thesis using assms(3,4) by (auto simp: es_setup_def)
next
  case None
  note env = es_envD [OF assms(2)]
  obtain start s1 where services: "es_StartServices Q s = (start, s1)" by (metis surj_pair)
  show ?thesis
  proof (cases start)
    case (Inl err)
    then show ?thesis using None assms(4) services by (auto simp: es_setup_def)
  next
    case (Inr svc)
    have opened: "opened s1 \<subseteq> {EtcdConn, MemStoreConn}"
      using es_connections [OF assms(1,3), of True app] services Inr by simp
    have closed: "opened (snd (CloseWithTimeout app (ess_Closers svc) closeTimeout x)) = opened x - {EtcdConn, MemStoreConn}" for x
      unfolding CloseWithTimeout_def by (rule es_closed [OF assms(1)]) (use services Inr in simp)
    obtain l2 s2 where s2: "ee_HTTPListener E s1 = (l2, s2)" by (metis surj_pair)
    obtain hc s3 where s3: "ee_http_Configure E svc s2 = (hc, s3)" by (metis surj_pair)
    obtain l4 s4 where s4: "ee_GRPCListener E s3 = (l4, s4)" by (metis surj_pair)
    obtain gc s5 where s5: "ee_grpc_Configure E svc s4 = (gc, s5)" by (metis surj_pair)
    obtain j s6 where s6: "ee_JoinCluster E svc (Inr \<lparr>srv_ID = serverID, srv_GRPCAddress = ee_GRPCAddress E s5,
        srv_HTTPAddress = ee_HTTPAddress E s5\<rparr>) s5 = (j, s6)" by (metis surj_pair)
    have o2: "opened s2 \<subseteq> {EtcdConn, MemStoreConn} \<union> (if l2 = None then {HTTPListener} else {})"
      using env(1) [OF s2] opened by (auto split: if_splits)
    have o3: "opened s3 \<subseteq> {EtcdConn, MemStoreConn} \<union> (if l2 = None then {HTTPListener} else {})"
      using env(5) [OF s3] o2 by (rule order_trans)
    have o4: "opened s4 \<subseteq> {EtcdConn, MemStoreConn, HTTPListener} \<union> (if l4 = None then {GRPCListener} else {})"
      using env(2) [OF s4] o3 by (auto split: if_splits)
    have o5: "opened s5 \<subseteq> {EtcdConn, MemStoreConn, HTTPListener} \<union> (if l4 = None then {GRPCListener} else {})"
      using env(6) [OF s5] o4 by (rule order_trans)
    have o6: "opened s6 \<subseteq> {EtcdConn, MemStoreConn, HTTPListener} \<union> (if l4 = None then {GRPCListener} else {})"
      using env(7) [OF s6] o5 by (rule order_trans)
    note run = None services Inr s2 s3 s4 s5 s6
    note eval = es_setup_def Let_def closed env(3,4)
    consider (l2) e where "l2 = Some e" | (hc) e where "l2 = None" "hc = Inl e"
      | (l4) h e where "l2 = None" "hc = Inr h" "l4 = Some e" | (gc) h e where "l2 = None" "hc = Inr h" "l4 = None" "gc = Inl e"
      | (j) h g e where "l2 = None" "hc = Inr h" "l4 = None" "gc = Inr g" "j = Some e"
      | (ok) h g where "l2 = None" "hc = Inr h" "l4 = None" "gc = Inr g" "j = None"
      by (metis option.exhaust sum.exhaust)
    then show ?thesis
    proof cases
      case l2
      then show ?thesis using assms(4) run o2 by (auto simp: eval)
    next
      case hc
      then show ?thesis using assms(4) run o3 by (auto simp: eval)
    next
      case l4
      then show ?thesis using assms(4) run o4 by (auto simp: eval)
    next
      case gc
      then show ?thesis using assms(4) run o5 by (auto simp: eval)
    next
      case j
      then show ?thesis using assms(4) run o6 by (auto simp: eval)
    next
      case ok
      have "opened s6 \<subseteq> es_conns" using o6 ok by auto
      then show ?thesis using assms(4) run ok by (auto simp: eval)
    qed
  qed
qed

lemma es_Start_leaves:
  assumes "es_laws opened Q" and "es_env_laws opened E world" and "opened s = {}"
    and "es_Start app serverID Q E world s e s'"
  shows "opened s' = {} \<or> (\<exists>err. e = Some err \<and> es_StartServices Q s = (Inl err, s'))"
  using assms(4)
proof cases
  case (es_Start_fails err)
  then show ?thesis using es_setup_leaves [OF assms(1-3) es_Start_fails(2)] by auto
next
  case (es_Start_ends running s1 s2 n t grpc_first logged)
  obtain svc h g where running: "running = (svc, h, g)" by (metis surj_pair)
  obtain x where x: "es_StartServices Q s = (Inr svc, x)" and "opened s1 \<subseteq> es_conns"
    using es_setup_leaves [OF assms(1-3) es_Start_ends(1)] running by auto
  then have "opened s2 \<subseteq> es_conns" using es_envD(12) [OF assms(2) es_Start_ends(2)] by blast
  then show ?thesis using es_takedown_leaves [OF assms(1,2) x] es_Start_ends(5) running by simp
qed

section \<open>Properties\<close>

text \<open>C40: In every run of the event server's goroutines at most seventeen steps are taken, besides gRPC calls that
  begin and return, and none of them ever blocks on sending to the channel. Where no goroutine can move any
  more, the server has returned, or it waits in \<open>GracefulStop\<close> for a gRPC call that has not returned, for which
  there is no timeout, or every report that was made went to a forwarder instead of the main goroutine; if no
  forwarder swallowed one, then nothing has happened that should end the server. It never returns with a call
  open; once a report has reached the main goroutine, it can return that report, provided the open calls return. Both losses do
  happen to an interrupted process: the main goroutine waits on with its HTTP server gone, and it waits for an open call.\<close>

theorem event_server_run_ends:
  assumes "run n run_start s"
  shows "n \<le> 17 \<and> (sender_waiting s \<longrightarrow> length (closeCh s) < closeCh_cap) \<and>
    ((\<nexists>s'. go_step s s') \<longrightarrow> (\<exists>e. main_pc s = Returned e) \<or>
       (\<exists>e. main_pc s = Stopping e) \<and> http_shut s \<and> 0 < open_calls s \<or>
       main_pc s = AwaitTrigger \<and> reports s = swallowed s \<and>
       (swallowed s = 0 \<longrightarrow> \<not> lease_lost s \<and> \<not> close_requested s \<and> http_pc s = Serving \<and> grpc_pc s = Serving)) \<and>
    ((\<exists>e. main_pc s = Returned e) \<longrightarrow> open_calls s = 0) \<and>
    (\<forall>e. ended_by (main_pc s) = Some e \<longrightarrow> (\<exists>t. takedown_step\<^sup>*\<^sup>* s t \<and> main_pc t = Returned e)) \<and>
    (\<exists>k t. run k run_start t \<and> close_requested t \<and> http_pc t = Reported \<and> main_pc t = AwaitTrigger \<and>
       (\<nexists>t'. go_step t t')) \<and>
    (\<exists>k t. run k run_start t \<and> close_requested t \<and> main_pc t = Stopping None \<and> open_calls t = 1 \<and>
       (\<nexists>t'. go_step t t'))"
proof (intro conjI impI allI run_can_hang)
  have inv: "run_inv s" using run_steps_inv [OF assms run_start_inv] .
  show "n \<le> 17" using run_rank_bound [OF assms] by (simp add: run_rank_def run_start_def)
  show "length (closeCh s) < closeCh_cap" using sender_has_room [OF inv] .
  show "open_calls s = 0" if "\<exists>e. main_pc s = Returned e" using inv that by (auto simp: run_inv_def)
  show "\<exists>t. takedown_step\<^sup>*\<^sup>* s t \<and> main_pc t = Returned e" if "ended_by (main_pc s) = Some e" for e
    using takedown_ends [OF that] .
  assume stuck: "\<nexists>s'. go_step s s'"
  show "(\<exists>e. main_pc s = Returned e) \<or> (\<exists>e. main_pc s = Stopping e) \<and> http_shut s \<and> 0 < open_calls s \<or>
      main_pc s = AwaitTrigger \<and> reports s = swallowed s \<and>
      (swallowed s = 0 \<longrightarrow> \<not> lease_lost s \<and> \<not> close_requested s \<and> http_pc s = Serving \<and> grpc_pc s = Serving)"
  proof (cases "ended_by (main_pc s)")
    case None
    then have "main_pc s = AwaitTrigger" by (cases "main_pc s") simp_all
    then show ?thesis using stuck_untriggered [OF inv stuck] by blast
  next
    case (Some e)
    then show ?thesis using stuck_stopping [OF stuck] by blast
  qed
qed

theorem event_server_run_ends_witness:
  "(4::nat) \<le> 17 \<and> main_pc lost_run = AwaitTrigger \<and> reports lost_run = swallowed lost_run \<and>
   (\<exists>t. takedown_step\<^sup>*\<^sup>* held_run t \<and> main_pc t = Returned None)"
  using event_server_run_ends [OF lost_run_reached] lost_run_stuck
    event_server_run_ends [OF held_run_reached, THEN conjunct2, THEN conjunct2, THEN conjunct2, THEN conjunct2,
      THEN conjunct1, THEN spec, of None]
  by (simp add: lost_run_def held_run_def run_start_def)

end
