(* ===== verification/Wiring.thy ===== *)
theory Wiring
  imports ServerRun Config
begin

text \<open>
  The two servers put together from their configuration: the constructors of \<open>pkg/memstore\<close>,
  \<open>pkg/auth\<close>, \<open>pkg/db\<close> and \<open>pkg/etcd\<close> become the parts that the \<open>StartServices\<close> functions of
  theory Lifecycle build, start and close. What is left as a parameter are the libraries that dial.
\<close>

section \<open>Configurations\<close>

text \<open>The structures that are read from the configuration files; \<open>'l\<close> are the bound listeners.\<close>

record RegistererConfiguration =
  rc_Users :: db_Configuration
  rc_PrivateKeyPath :: string

record 'l gateway_Configuration =
  gwc_Logger :: logger_Configuration
  gwc_HTTPListenAddress :: "'l ListenAddr option"
  gwc_MemStore :: memstore_Configuration
  gwc_Auth :: ValidatorConfiguration
  gwc_Registerer :: RegistererConfiguration
  gwc_Etcd :: etcd_Configuration

record 'l es_Configuration =
  esc_Logger :: logger_Configuration
  esc_Auth :: ValidatorConfiguration
  esc_HTTPListenAddress :: "'l ListenAddr option"
  esc_GRPCListenAddress :: "'l ListenAddr option"
  esc_Etcd :: etcd_Configuration
  esc_MemStore :: memstore_Configuration
  esc_ServerID :: string

section \<open>Parts\<close>

text \<open>
  The libraries: dialling and closing, the key space of etcd as a client reads it, and what
  the goroutines of registry and heart beater do to the state when they are started or stopped. \<open>'g\<close>
  is the gorm handle, \<open>'h\<close> its pool, \<open>'e\<close> the etcd client.
\<close>

record ('s, 'sk, 'pk, 'g, 'h, 'e) libraries =
  redis_Ping :: "string \<Rightarrow> string \<Rightarrow> string \<Rightarrow> duration \<Rightarrow> 's \<Rightarrow> go_error option \<times> 's"
  redis_client_Close :: "'s \<Rightarrow> go_error option \<times> 's"
  gorm_Open :: "dialector \<Rightarrow> 's \<Rightarrow> 'g result \<times> 's"
  gorm_AutoMigrate :: "'g \<Rightarrow> ctx \<Rightarrow> 's \<Rightarrow> go_error option \<times> 's"
  gorm_DB :: "'g \<Rightarrow> 's \<Rightarrow> 'h option"
  sql_Close :: "'h \<Rightarrow> 's \<Rightarrow> go_error option \<times> 's"
  clientv3_New :: "string \<Rightarrow> string \<Rightarrow> string list \<Rightarrow> duration \<Rightarrow> 's \<Rightarrow> 'e result \<times> 's"
  clientv3_Close :: "'e \<Rightarrow> 's \<Rightarrow> go_error option \<times> 's"
  clientv3_Get :: "'e \<Rightarrow> 's get_prefix"
  run_watch :: "'e \<Rightarrow> ServerRegistry \<Rightarrow> nat \<Rightarrow> 's \<Rightarrow> 's"
  stop_watch :: "'e \<Rightarrow> 's \<Rightarrow> 's"
  stop_beats :: "RedisClient \<Rightarrow> ctx \<Rightarrow> 's \<Rightarrow> go_error option \<times> 's"
  lib_jwt :: "('sk, 'pk) jwt_lib"
  lib_private_keys :: "'sk key_lib"
  lib_public_keys :: "'pk key_lib"
  lib_now :: "'s \<Rightarrow> int"

definition gateway_wiring ::
  "('s, 'sk, 'pk, 'g, 'h, 'e) libraries \<Rightarrow> uuid \<Rightarrow> 'l gateway_Configuration \<Rightarrow>
    ('s, RedisClient, (Principal option, 's) middleware, int \<Rightarrow> Principal \<Rightarrow> string result, 'g, 'e) gateway_parts" where
  "gateway_wiring B u c =
     \<lparr>build_MemStore = memstore_Build (redis_Ping B) (gwc_MemStore c),
      build_HTTPMiddleware = (\<lambda>s. (BuildHTTPMiddleware (lib_jwt B) (lib_public_keys B) (lib_now B) u (gwc_Auth c), s)),
      build_TokenIssuer = (\<lambda>s. (TokenIssuerConfiguration_Build (lib_jwt B) (lib_private_keys B)
        (rc_PrivateKeyPath (gwc_Registerer c)), s)),
      build_Users = UsersConfiguration_Build (gorm_Open B) (rc_Users (gwc_Registerer c)),
      build_Etcd = etcd_Build (clientv3_New B) (gwc_Etcd c),
      memStore_Close = (\<lambda>_. RedisClient_Close (redis_client_Close B)),
      usersDB_Start = (\<lambda>g ctx. UsersDB_Start (gorm_AutoMigrate B g ctx)),
      usersDB_Close = (\<lambda>g ctx. UsersDB_Close (sql_Close B) (gorm_DB B g)),
      part_registry_Start = (\<lambda>e ctx s.
        case registry_Start (clientv3_Get B e) s NewServerRegistry of
          (Inl err, r) \<Rightarrow> (Some err, s)
        | (Inr revision, r) \<Rightarrow> (None, run_watch B e r revision s)),
      part_registry_Close = (\<lambda>e ctx s. (None, stop_watch B e s))\<rparr>"

definition es_wiring ::
  "('s, 'sk, 'pk, 'g, 'h, 'e) libraries \<Rightarrow> uuid \<Rightarrow> 'l es_Configuration \<Rightarrow>
    ('s, RedisClient, (Principal option, 's) middleware, ('req, 's) interceptor, 'e) es_parts" where
  "es_wiring B u c =
     \<lparr>es_build_Etcd = etcd_Build (clientv3_New B) (esc_Etcd c),
      es_build_MemStore = memstore_Build (redis_Ping B) (esc_MemStore c),
      es_build_HTTPMiddleware = (\<lambda>s. (BuildHTTPMiddleware (lib_jwt B) (lib_public_keys B) (lib_now B) u (esc_Auth c), s)),
      es_build_GRPCInterceptor = (\<lambda>s. (BuildGRPCStreamInterceptor (lib_jwt B) (lib_public_keys B) (lib_now B) (esc_Auth c), s)),
      etcdClient_Close = clientv3_Close B,
      es_memStore_Close = (\<lambda>_. RedisClient_Close (redis_client_Close B)),
      heartBeater_Close = stop_beats B\<rparr>"

section \<open>What the libraries keep connected\<close>

text \<open>Dialling opens its connection when it succeeds, and may leave it open when it fails: a Redis server that
  answers \<open>PING\<close> with an error keeps the connection in the client's pool. Closing ends it, whatever it reports; a
  handle without a pool is not connected. Migration and the goroutines open and close none.\<close>

definition library_laws :: "('s \<Rightarrow> conn set) \<Rightarrow> ('s, 'sk, 'pk, 'g, 'h, 'e) libraries \<Rightarrow> bool" where
  "library_laws opened B \<longleftrightarrow>
     (\<forall>a u p t s. case redis_Ping B a u p t s of
        (Some err, s') \<Rightarrow> opened s \<subseteq> opened s' \<and> opened s' \<subseteq> opened s \<union> {MemStoreConn}
      | (None, s') \<Rightarrow> opened s' = opened s \<union> {MemStoreConn}) \<and>
     (\<forall>d. opens opened (gorm_Open B d) {UsersConn}) \<and>
     (\<forall>u p es t. opens opened (clientv3_New B u p es t) {EtcdConn}) \<and>
     (\<forall>s. opened (snd (redis_client_Close B s)) = opened s - {MemStoreConn}) \<and>
     (\<forall>g s. case gorm_DB B g s of
        None \<Rightarrow> UsersConn \<notin> opened s
      | Some h \<Rightarrow> opened (snd (sql_Close B h s)) = opened s - {UsersConn}) \<and>
     (\<forall>e s. opened (snd (clientv3_Close B e s)) = opened s - {EtcdConn}) \<and>
     (\<forall>g ctx s. opened (snd (gorm_AutoMigrate B g ctx s)) = opened s) \<and>
     (\<forall>e r n s. opened (run_watch B e r n s) = opened s) \<and> (\<forall>e s. opened (stop_watch B e s) = opened s) \<and>
     (\<forall>m ctx s. opened (snd (stop_beats B m ctx s)) = opened s)"

lemma library_lawsD:
  assumes "library_laws opened B"
  shows "case redis_Ping B a u p t s of
        (Some err, s') \<Rightarrow> opened s \<subseteq> opened s' \<and> opened s' \<subseteq> opened s \<union> {MemStoreConn}
      | (None, s') \<Rightarrow> opened s' = opened s \<union> {MemStoreConn}"
    and "opens opened (gorm_Open B d) {UsersConn}" and "opens opened (clientv3_New B u p es t) {EtcdConn}"
    and "opened (snd (redis_client_Close B s)) = opened s - {MemStoreConn}"
    and "case gorm_DB B g s of None \<Rightarrow> UsersConn \<notin> opened s
      | Some h \<Rightarrow> opened (snd (sql_Close B h s)) = opened s - {UsersConn}"
    and "opened (snd (clientv3_Close B e s)) = opened s - {EtcdConn}"
    and "opened (snd (gorm_AutoMigrate B g ctx s)) = opened s"
    and "opened (run_watch B e r n s) = opened s" and "opened (stop_watch B e s) = opened s"
    and "opened (snd (stop_beats B m ctx s)) = opened s"
  using assms unfolding library_laws_def by simp_all

lemma pure_build_opens: "opens opened (\<lambda>s. (x, s)) {}"
  by (simp add: opens_def split: sum.split)

lemma memstore_Build_opens:
  assumes "library_laws opened B"
  shows "opens opened (memstore_Build (redis_Ping B) c) {MemStoreConn}"
  unfolding opens_def
proof
  fix s
  obtain e s' where ping: "redis_Ping B (ms_Address c) (ms_User c) (ms_Password c) pingTimeout s = (e, s')"
    by (metis surj_pair)
  from library_lawsD(1) [OF assms, where a = "ms_Address c" and u = "ms_User c" and p = "ms_Password c" and t = pingTimeout and s = s]
  show "case memstore_Build (redis_Ping B) c s of
      (Inl err, s') \<Rightarrow> opened s \<subseteq> opened s' \<and> opened s' \<subseteq> opened s \<union> {MemStoreConn}
    | (Inr x, s') \<Rightarrow> opened s' = opened s \<union> {MemStoreConn}"
    by (cases e) (simp_all add: memstore_Build_def ping)
qed

lemma Users_Build_opens:
  assumes "library_laws opened B"
  shows "opens opened (UsersConfiguration_Build (gorm_Open B) c) {UsersConn}"
  unfolding opens_def
proof
  fix s
  show "case UsersConfiguration_Build (gorm_Open B) c s of
      (Inl err, s') \<Rightarrow> opened s \<subseteq> opened s' \<and> opened s' \<subseteq> opened s \<union> {UsersConn}
    | (Inr x, s') \<Rightarrow> opened s' = opened s \<union> {UsersConn}"
  proof (cases "createDialector c")
    case (Inl err)
    then have "\<exists>e. UsersConfiguration_Build (gorm_Open B) c s = (Inl e, s)"
      by (simp add: UsersConfiguration_Build_def db_Build_def validateAndSetDefaults_def Let_def)
    then show ?thesis by auto
  next
    case (Inr d)
    obtain r s' where "gorm_Open B d s = (r, s')" by (metis surj_pair)
    with library_lawsD(2) [OF assms, of d, unfolded opens_def, rule_format, of s] Inr show ?thesis
      by (cases r) (simp_all add: UsersConfiguration_Build_def db_Build_def validateAndSetDefaults_def Let_def)
  qed
qed

lemma UsersDB_closes:
  assumes "library_laws opened B"
  shows "opened (snd (UsersDB_Close (sql_Close B) (gorm_DB B g) s)) = opened s - {UsersConn}"
  using library_lawsD(5) [OF assms, where g = g and s = s] by (auto simp: UsersDB_Close_def split: option.splits)

text \<open>The parts of both servers, built from any configuration, behave as \<open>StartServices\<close> relies on.\<close>

lemma gateway_wiring_laws:
  assumes "library_laws opened B"
  shows "gateway_laws opened (gateway_wiring B u c)"
  unfolding gateway_laws_def gateway_wiring_def
  by (auto simp: memstore_Build_opens [OF assms] pure_build_opens Users_Build_opens [OF assms] etcd_Build_def
      [abs_def] library_lawsD [OF assms] closes_only_def CloseWithoutContext_def RedisClient_Close_def UsersDB_Start_def
      UsersDB_closes [OF assms] split: sum.split prod.split)

lemma es_wiring_laws:
  assumes "library_laws opened B"
  shows "es_laws opened (es_wiring B u c)"
  unfolding es_laws_def es_wiring_def
  by (auto simp: memstore_Build_opens [OF assms] pure_build_opens etcd_Build_def [abs_def] library_lawsD [OF assms]
      closes_only_def CloseWithoutContext_def RedisClient_Close_def)

section \<open>Configurations that cannot start\<close>

text \<open>Without a database type, which is meant to default to mysql, no gateway starts; what it had opened is
  closed again.\<close>

lemma gateway_without_dbType:
  assumes "DBType (rc_Users (gwc_Registerer c)) = []"
  shows "\<exists>err cs s'. StartServices_body (gateway_wiring B u c) s = (Inl (err, cs), s') \<and>
    \<not> (\<exists>e. err = Wrapped ''starting services'' e)"
proof -
  have "\<exists>err. build_Users (gateway_wiring B u c) s = (Inl err, s)" for s
    by (simp add: gateway_wiring_def UsersConfiguration_Build_def db_Build_without_type [OF assms])
  then obtain err where users: "\<And>s. build_Users (gateway_wiring B u c) s = (Inl (err s), s)" by metis
  show ?thesis by (auto simp: StartServices_body_def Let_def users split: prod.split sum.split)
qed

text \<open>An authentication type that is not one of the two stops the event server after it has dialled.\<close>

lemma es_unknown_auth:
  assumes "vc_Type (esc_Auth d) \<notin> {ValidatorConfigurationNoop, ValidatorConfigurationJWTRSA}"
  shows "es_build_HTTPMiddleware (es_wiring B u d) s = (Inl (Opaque ''auth not configured''), s)"
  using assms by (simp add: es_wiring_def BuildHTTPMiddleware_def)

lemma es_started_auth:
  assumes "es_StartServices (es_wiring B u d) s = (Inr svc, s')"
  shows "vc_Type (esc_Auth d) \<in> {ValidatorConfigurationNoop, ValidatorConfigurationJWTRSA}"
proof (rule ccontr)
  assume unknown: "\<not> ?thesis"
  show False
    using assms by (auto simp: es_StartServices_def es_unknown_auth [OF unknown] split: prod.splits sum.splits)
qed

section \<open>The main functions\<close>

text \<open>\<open>flag\<close> is the value that the command line gives, if any. What a \<open>main\<close> returns with \<open>Inr\<close> is what it
  launches; otherwise it has printed the line and ended.\<close>

definition gateway_configFile :: "string option \<Rightarrow> string" where
  "gateway_configFile flag = (case flag of None \<Rightarrow> ''deploy/config/gateway.yml'' | Some f \<Rightarrow> f)"

definition eventserver_configFile :: "string option \<Rightarrow> string" where
  "eventserver_configFile flag = (case flag of None \<Rightarrow> ''deploy/config/event-server.yml'' | Some f \<Rightarrow> f)"

definition gateway_main ::
  "(string \<Rightarrow> 'p result) \<Rightarrow> ('p \<Rightarrow> 'l gateway_Configuration result) \<Rightarrow> ('v, 'log) zap_lib \<Rightarrow> string option \<Rightarrow>
    string + 'l gateway_Configuration \<times> 'log" where
  "gateway_main newYAML populate Z flag =
     server_main (LoadConfig newYAML populate) gwc_Logger Z (gateway_configFile flag)"

definition eventserver_main ::
  "(string \<Rightarrow> 'p result) \<Rightarrow> ('p \<Rightarrow> 'l es_Configuration result) \<Rightarrow> ('v, 'log) zap_lib \<Rightarrow> string option \<Rightarrow>
    string + 'l es_Configuration \<times> 'log" where
  "eventserver_main newYAML populate Z flag =
     server_main (LoadConfig newYAML populate) esc_Logger Z (eventserver_configFile flag)"

lemma gateway_main_launches:
  "gateway_main newYAML populate Z flag = Inr (c, log) \<Longrightarrow>
     \<exists>p. newYAML (gateway_configFile flag) = Inr p \<and> populate p = Inr c \<and> logger_Build Z (gwc_Logger c) = Inr log"
  by (auto simp: gateway_main_def server_main_def LoadConfig_def split: sum.splits)

section \<open>Concrete libraries\<close>

text \<open>The state is the set of open connections and every dial succeeds, but etcd cannot be read.\<close>

definition ref_libraries :: "(conn set, unit, unit, unit, unit, unit) libraries" where
  "ref_libraries =
     \<lparr>redis_Ping = (\<lambda>_ _ _ _ s. (None, insert MemStoreConn s)), redis_client_Close = (\<lambda>s. (None, s - {MemStoreConn})),
      gorm_Open = (\<lambda>_ s. (Inr (), insert UsersConn s)), gorm_AutoMigrate = (\<lambda>_ _ s. (None, s)),
      gorm_DB = (\<lambda>_ s. Some ()), sql_Close = (\<lambda>_ s. (None, s - {UsersConn})),
      clientv3_New = (\<lambda>_ _ _ _ s. (Inr (), insert EtcdConn s)), clientv3_Close = (\<lambda>_ s. (None, s - {EtcdConn})),
      clientv3_Get = (\<lambda>_ _ _. Inl (Opaque ''etcd down'')), run_watch = (\<lambda>_ _ _ s. s), stop_watch = (\<lambda>_ s. s),
      stop_beats = (\<lambda>_ _ s. (None, s)), lib_jwt = \<lparr>jwt_SignedString = (\<lambda>_ _. Inr []),
        jwt_ParseWithClaims = (\<lambda>_ _ _. Inl (Opaque [])), jwt_Validate = (\<lambda>_ _. None)\<rparr>,
      lib_private_keys = ref_keys, lib_public_keys = ref_keys, lib_now = (\<lambda>_. 0)\<rparr>"

lemma ref_libraries_laws: "library_laws id ref_libraries"
  by (auto simp: library_laws_def ref_libraries_def opens_def)

definition ref_db_config :: db_Configuration where
  "ref_db_config = \<lparr>DBType = ''mysql'', DataSourceName = [], Host = ''db'', Port = 3306, Database = ''occa'',
     Username = ''u'', Password = ''p''\<rparr>"

definition ref_auth_config :: ValidatorConfiguration where
  "ref_auth_config = \<lparr>vc_Type = ''noop'', vc_PublicKeyPath = []\<rparr>"

definition ref_gateway_config :: "string \<Rightarrow> unit gateway_Configuration" where
  "ref_gateway_config dbType =
     \<lparr>gwc_Logger = \<lparr>Level = [], Component = [], DevelopmentMode = False\<rparr>, gwc_HTTPListenAddress = None,
      gwc_MemStore = \<lparr>ms_Address = [], ms_User = [], ms_Password = [], ms_Prefix = []\<rparr>, gwc_Auth = ref_auth_config,
      gwc_Registerer = \<lparr>rc_Users = ref_db_config\<lparr>DBType := dbType\<rparr>, rc_PrivateKeyPath = ''key.pem''\<rparr>,
      gwc_Etcd = \<lparr>et_Username = [], et_Password = [], et_Endpoints = []\<rparr>\<rparr>"

definition ref_es_config :: "string \<Rightarrow> unit es_Configuration" where
  "ref_es_config authType =
     \<lparr>esc_Logger = \<lparr>Level = [], Component = [], DevelopmentMode = False\<rparr>, esc_Auth = ref_auth_config\<lparr>vc_Type := authType\<rparr>,
      esc_HTTPListenAddress = None, esc_GRPCListenAddress = None,
      esc_Etcd = \<lparr>et_Username = [], et_Password = [], et_Endpoints = []\<rparr>,
      esc_MemStore = \<lparr>ms_Address = [], ms_User = [], ms_Password = [], ms_Prefix = []\<rparr>, esc_ServerID = ''es-1''\<rparr>"

text \<open>A Redis server that refuses the password: the reply to \<open>PING\<close> is an error, on a connection that stays.\<close>

definition refusing_libraries :: "(conn set, unit, unit, unit, unit, unit) libraries" where
  "refusing_libraries =
     ref_libraries\<lparr>redis_Ping := (\<lambda>_ _ _ _ s. (Some (Opaque ''WRONGPASS''), insert MemStoreConn s))\<rparr>"

lemma refusing_libraries_laws: "library_laws id refusing_libraries"
  by (auto simp: library_laws_def refusing_libraries_def ref_libraries_def opens_def)

text \<open>Environments in which every listener can be bound, the gateway is asked to close, and joining the cluster
  succeeds.\<close>

definition ref_gateway_env :: "(conn set, 'svc, unit) gateway_env" where
  "ref_gateway_env =
     \<lparr>ge_Configure = (\<lambda>_ s. (Inr (), s)), ge_Listener = (\<lambda>s. (None, insert HTTPListener s)),
      ge_listener_Close = (\<lambda>s. s - {HTTPListener}), ge_run = (\<lambda>_ s. (CloseRequested, s)), ge_Shutdown = (\<lambda>s. (None, s))\<rparr>"

definition ref_es_env :: "(conn set, 'svc, unit, unit) es_env" where
  "ref_es_env =
     \<lparr>ee_HTTPListener = (\<lambda>s. (None, insert HTTPListener s)), ee_httpListener_Close = (\<lambda>s. s - {HTTPListener}),
      ee_http_Configure = (\<lambda>_ s. (Inr (), s)),
      ee_GRPCListener = (\<lambda>s. (None, insert GRPCListener s)), ee_grpcListener_Close = (\<lambda>s. s - {GRPCListener}),
      ee_grpc_Configure = (\<lambda>_ s. (Inr (), s)), ee_GRPCAddress = (\<lambda>_. ''10.0.0.1:9000''), ee_HTTPAddress = (\<lambda>_. ''10.0.0.1:8080''),
      ee_JoinCluster = (\<lambda>_ _ s. (None, s)), ee_InitiateShutdown = (\<lambda>_ _ s. (None, s)), ee_LeaveCluster = (\<lambda>_ _ s. (None, s)),
      ee_GracefulStop = (\<lambda>_ s. s), ee_Shutdown = (\<lambda>_ _ s. (None, s))\<rparr>"

lemma ref_gateway_env_laws: "gateway_env_laws id ref_gateway_env"
  by (auto simp: gateway_env_laws_def ref_gateway_env_def opens_none_def binds_def)

lemma ref_es_env_laws: "es_env_laws id ref_es_env (=)"
  by (auto simp: es_env_laws_def ref_es_env_def opens_none_def binds_def)

definition ref_append :: appender where
  "ref_append x y = (case x of Some e \<Rightarrow> e | None \<Rightarrow> (case y of Some e \<Rightarrow> e | None \<Rightarrow> Opaque []))"

lemmas ref_parts = ref_libraries_def ref_gateway_config_def ref_es_config_def ref_auth_config_def ref_db_config_def
  gateway_wiring_def es_wiring_def

abbreviation ref_gateway_of :: "string \<Rightarrow> (conn set, RedisClient, (Principal option, conn set) middleware,
    int \<Rightarrow> Principal \<Rightarrow> string result, unit, unit) gateway_parts" where
  "ref_gateway_of dbType \<equiv> gateway_wiring ref_libraries 1 (ref_gateway_config dbType)"

abbreviation ref_es_of :: "string \<Rightarrow> (conn set, RedisClient, (Principal option, conn set) middleware,
    (unit, conn set) interceptor, unit) es_parts" where
  "ref_es_of authType \<equiv> es_wiring ref_libraries 1 (ref_es_config authType)"

lemma ref_gateway_fails:
  "\<exists>err. gateway_StartServices ref_append (ref_gateway_of ''mysql'') {} =
     (Inl err, {EtcdConn})"
  by (simp add: gateway_StartServices_def StartServices_body_def Let_def ref_parts memstore_Build_def BuildHTTPMiddleware_def
      ValidatorConfigurationNoop_def TokenIssuerConfiguration_Build_def ReadPrivateKey_def ref_keys_def
      UsersConfiguration_Build_def db_Build_def validateAndSetDefaults_def createDialector_def etcd_Build_def
      UsersDB_Start_def UsersDB_Close_def registry_Start_def Closers_Close_def CloseWithoutContext_def
      RedisClient_Close_def pool_Close_def) auto

lemma ref_es_unknown_auth:
  "es_StartServices (ref_es_of ''oauth'') {} =
     (Inl (Wrapped ''building HTTP auth middleware'' (Opaque ''auth not configured'')), {EtcdConn, MemStoreConn})"
  by (auto simp: es_StartServices_def ref_parts etcd_Build_def memstore_Build_def BuildHTTPMiddleware_def
      ValidatorConfigurationNoop_def ValidatorConfigurationJWTRSA_def)

lemma ref_es_starts:
  "\<exists>svc s'. es_setup ref_append ''es-1'' (ref_es_of ''noop'') ref_es_env {} = (Inr (svc, (), ()), s')"
  by (simp add: es_setup_def es_Validate_def es_StartServices_def Let_def ref_parts ref_es_env_def memstore_Build_def
      BuildHTTPMiddleware_def BuildGRPCStreamInterceptor_def ValidatorConfigurationNoop_def etcd_Build_def)

lemma ref_es_ends:
  "\<exists>s'. es_Start ref_append ''es-1'' (ref_es_of ''noop'') ref_es_env (=) {} None s'"
proof -
  obtain svc s1 where started: "es_setup ref_append ''es-1'' (ref_es_of ''noop'') ref_es_env {} =
      (Inr (svc, (), ()), s1)"
    using ref_es_starts by blast
  obtain logged s' where down: "es_takedown ref_append ref_es_env True (svc, (), ()) s1 = (logged, s')" by (metis surj_pair)
  obtain n t where "run n run_start t" "main_pc t = Returned None" using closed_run_reached by blast
  from es_Start_ends [where world = "(=)", OF started refl this down] show ?thesis by blast
qed

lemma refusing_gateway:
  "\<exists>err e. StartServices_body (gateway_wiring refusing_libraries 1 (ref_gateway_config ''mysql'')) {} =
      (Inl (Wrapped ''building redis client'' e, []), {MemStoreConn}) \<and>
    gateway_StartServices ref_append (gateway_wiring refusing_libraries 1 (ref_gateway_config ''mysql'')) {} =
      (Inl err, {MemStoreConn})"
proof -
  have body: "StartServices_body (gateway_wiring refusing_libraries 1 (ref_gateway_config ''mysql'')) {} =
      (Inl (Wrapped ''building redis client'' (Wrapped ''connecting to redis'' (Opaque ''WRONGPASS'')), []), {MemStoreConn})"
    by (simp add: StartServices_body_def refusing_libraries_def ref_parts memstore_Build_def)
  then show ?thesis by (simp add: gateway_StartServices_def Closers_Close_def)
qed

section \<open>The property\<close>

text \<open>C39: What the configured servers leave open. When the services of a gateway fail to start, what
  had been dialled before is closed, but not the client of a dial that itself failed, which may have
  left a connection: a Redis server that answers the ping with an error does. When it is the starting of the
  services that fails, it is the etcd client that stays open; so it does after the closers of a gateway
  that started, also under a timeout and whatever errors they meet; and when \<open>Start\<close> of a gateway whose services started has
  returned, for whatever reason, nothing but the etcd client can be open. \<open>Start\<close> of an event
  server leaves nothing open when it returns, neither connections nor listeners, however its setup fails or its run ends;
  unless its services fail to start: then every connection made so far stays open, and perhaps that of
  the failed dial. A gateway without a database type never starts, although the type is meant to default to mysql, nor does an
  event server with an unknown authentication type, which is found out after it has dialled.\<close>

theorem configured_servers_connections:
  assumes "library_laws opened B" and "gateway_env_laws opened G" and "es_env_laws opened E world" and "opened s = {}"
    and P: "P = gateway_wiring B u c" and Q: "Q = es_wiring B u d"
  shows "(case gateway_StartServices app P s of
      (Inl err, s') \<Rightarrow> \<exists>err0 c' x. StartServices_body P s = (Inl (err0, c'), x) \<and> opened s' \<subseteq> gateway_may_leave err0 \<and>
        ((\<exists>e. err0 = Wrapped ''starting services'' e) \<longrightarrow>
           opened s' = {EtcdConn} \<and> DBType (rc_Users (gwc_Registerer c)) \<noteq> [])
    | (Inr svc, s') \<Rightarrow> DBType (rc_Users (gwc_Registerer c)) \<noteq> [] \<and> opened s' = {MemStoreConn, UsersConn, EtcdConn} \<and>
        opened (snd (CloseWithTimeout app (gs_Closers svc) timeout s')) = {EtcdConn}) \<and>
    (opened (snd (gateway_Start app P G s)) \<subseteq> {EtcdConn} \<or>
      (\<exists>err. gateway_StartServices app P s = (Inl err, snd (gateway_Start app P G s)))) \<and>
    (case es_StartServices Q s of
      (Inl err, s') \<Rightarrow> opened s' \<subseteq> {EtcdConn, MemStoreConn} \<and>
        ((\<exists>e. err = Wrapped ''building etcd client'' e) \<longrightarrow> MemStoreConn \<notin> opened s') \<and>
        ((\<nexists>e. err = Wrapped ''building etcd client'' e) \<longrightarrow> EtcdConn \<in> opened s' \<and>
          ((\<nexists>e. err = Wrapped ''building memstore client'' e) \<longrightarrow> MemStoreConn \<in> opened s'))
    | (Inr svc, s') \<Rightarrow> vc_Type (esc_Auth d) \<in> {ValidatorConfigurationNoop, ValidatorConfigurationJWTRSA} \<and>
        opened s' = {EtcdConn, MemStoreConn} \<and>
        opened (snd (CloseWithTimeout app (ess_Closers svc) timeout s')) = {}) \<and>
    (es_Start app (esc_ServerID d) Q E world s e s' \<longrightarrow>
      opened s' = {} \<or> (\<exists>err. e = Some err \<and> es_StartServices Q s = (Inl err, s')))"
proof (intro conjI impI)
  have P_laws: "gateway_laws opened P" unfolding P by (rule gateway_wiring_laws [OF assms(1)])
  have Q_laws: "es_laws opened Q" unfolding Q by (rule es_wiring_laws [OF assms(1)])
  note gateway = gateway_connections [OF P_laws assms(4), of app timeout]
  have type: "DBType (rc_Users (gwc_Registerer c)) \<noteq> []"
    if "StartServices_body P s = (res, x)"
      and "(\<exists>e c'. res = Inl (Wrapped ''starting services'' e, c')) \<or> (\<exists>svc. res = Inr svc)" for res x
    using that gateway_without_dbType [of c B u s] unfolding P by force
  obtain res s1 where gw: "gateway_StartServices app P s = (res, s1)" by (metis surj_pair)
  show "case gateway_StartServices app P s of
      (Inl err, s') \<Rightarrow> \<exists>err0 c' x. StartServices_body P s = (Inl (err0, c'), x) \<and> opened s' \<subseteq> gateway_may_leave err0 \<and>
        ((\<exists>e. err0 = Wrapped ''starting services'' e) \<longrightarrow>
           opened s' = {EtcdConn} \<and> DBType (rc_Users (gwc_Registerer c)) \<noteq> [])
    | (Inr svc, s') \<Rightarrow> DBType (rc_Users (gwc_Registerer c)) \<noteq> [] \<and> opened s' = {MemStoreConn, UsersConn, EtcdConn} \<and>
        opened (snd (CloseWithTimeout app (gs_Closers svc) timeout s')) = {EtcdConn}"
  proof (cases res)
    case (Inl err)
    then obtain err0 c' x where "StartServices_body P s = (Inl (err0, c'), x)" "opened s1 \<subseteq> gateway_may_leave err0"
      "(\<exists>e. err0 = Wrapped ''starting services'' e) \<longrightarrow> opened s1 = {EtcdConn}"
      using gateway gw by auto
    then show ?thesis using gw Inl type [of "Inl (err0, c')" x] by auto
  next
    case (Inr svc)
    then have "StartServices_body P s = (Inr svc, s1)"
      using gw by (auto simp: gateway_StartServices_def split: prod.splits sum.splits)
    then show ?thesis using gateway gw Inr type by simp
  qed
  show "opened (snd (gateway_Start app P G s)) \<subseteq> {EtcdConn} \<or>
      (\<exists>err. gateway_StartServices app P s = (Inl err, snd (gateway_Start app P G s)))"
    by (rule gateway_Start_leaves [OF P_laws assms(2,4) prod.collapse [symmetric]])
  show "case es_StartServices Q s of
      (Inl err, s') \<Rightarrow> opened s' \<subseteq> {EtcdConn, MemStoreConn} \<and>
        ((\<exists>e. err = Wrapped ''building etcd client'' e) \<longrightarrow> MemStoreConn \<notin> opened s') \<and>
        ((\<nexists>e. err = Wrapped ''building etcd client'' e) \<longrightarrow> EtcdConn \<in> opened s' \<and>
          ((\<nexists>e. err = Wrapped ''building memstore client'' e) \<longrightarrow> MemStoreConn \<in> opened s'))
    | (Inr svc, s') \<Rightarrow> vc_Type (esc_Auth d) \<in> {ValidatorConfigurationNoop, ValidatorConfigurationJWTRSA} \<and>
        opened s' = {EtcdConn, MemStoreConn} \<and>
        opened (snd (CloseWithTimeout app (ess_Closers svc) timeout s')) = {}"
    by (rule es_connections [OF Q_laws assms(4)], rule es_started_auth, unfold Q)
  show "opened s' = {} \<or> (\<exists>err. e = Some err \<and> es_StartServices Q s = (Inl err, s'))"
    if "es_Start app (esc_ServerID d) Q E world s e s'"
    by (rule es_Start_leaves [OF Q_laws assms(3,4) that])
qed

theorem configured_servers_connections_witness:
  "snd (gateway_StartServices ref_append (ref_gateway_of ''mysql'') {}) = {EtcdConn} \<and>
   snd (gateway_StartServices ref_append (gateway_wiring refusing_libraries 1 (ref_gateway_config ''mysql'')) {}) =
     {MemStoreConn} \<and>
   snd (es_StartServices (ref_es_of ''oauth'') {}) = {EtcdConn, MemStoreConn} \<and>
   (\<exists>s'. es_Start ref_append ''es-1'' (ref_es_of ''noop'') ref_es_env (=) {} None s' \<and> s' = {})"
proof -
  have empty: "id ({} :: conn set) = {}" by simp
  obtain err e where refused: "StartServices_body (gateway_wiring refusing_libraries 1 (ref_gateway_config ''mysql'')) {} =
      (Inl (Wrapped ''building redis client'' e, []), {MemStoreConn})"
    "gateway_StartServices ref_append (gateway_wiring refusing_libraries 1 (ref_gateway_config ''mysql'')) {} =
      (Inl err, {MemStoreConn})"
    using refusing_gateway by blast
  obtain s' where ends: "es_Start ref_append ''es-1'' (ref_es_of ''noop'') ref_es_env (=) {} None s'"
    using ref_es_ends by blast
  moreover have "s' = {}"
    using configured_servers_connections [where Q = "ref_es_of ''noop''" and e = None and s' = s' and app = ref_append,
        OF ref_libraries_laws ref_gateway_env_laws ref_es_env_laws empty refl refl,
        THEN conjunct2, THEN conjunct2, THEN conjunct2] ends
    by (simp add: ref_es_config_def)
  ultimately have "\<exists>s'. es_Start ref_append ''es-1'' (ref_es_of ''noop'') ref_es_env (=) {} None s' \<and> s' = {}" by blast
  moreover have "snd (gateway_StartServices ref_append (ref_gateway_of ''mysql'') {}) = {EtcdConn}"
    using ref_gateway_fails by (metis snd_conv)
  ultimately show ?thesis by (simp add: refused(2) ref_es_unknown_auth)
qed

end
