(* ===== verification/Containers.thy ===== *)
theory Containers
  imports Wiring
begin

text \<open>
  The containers of the integration tests, \<open>integration/containers\<close>: a registry shared by all tests of a
  process, in which a container is created once per name and counted by the tests that hold it, and the
  three containers with what the tests read off them. Docker is a parameter. The registry keeps pointers:
  the containers live in a heap, and a pointer is a position in it.
\<close>

section \<open>Docker\<close>

record container_request =
  cr_Name :: string
  cr_Image :: string
  cr_Cmd :: "string list"
  cr_ExposedPorts :: "string list"
  cr_WaitingFor :: string
  cr_Env :: "(string \<times> string) list"
  cr_Started :: bool
  cr_Reuse :: bool

text \<open>\<open>'c\<close> is the library's handle of a container, \<open>'p\<close> a port of its network library.\<close>

record ('c, 'p, 's) docker_lib =
  tc_GenericContainer :: "container_request \<Rightarrow> 's \<Rightarrow> 'c result \<times> 's"
  tc_MappedPort :: "'c \<Rightarrow> 'p \<Rightarrow> 's \<Rightarrow> int result"
  nat_NewPort :: "string \<Rightarrow> string \<Rightarrow> 'p result"
  tc_Name :: "'c \<Rightarrow> 's \<Rightarrow> string result"
  tc_Terminate :: "'c \<Rightarrow> 's \<Rightarrow> go_error option \<times> 's"

definition resolveMappedPort :: "('c, 'p, 's) docker_lib \<Rightarrow> 'c \<Rightarrow> string \<Rightarrow> 's \<Rightarrow> int result" where
  "resolveMappedPort D c port s =
     (case nat_NewPort D ''tcp'' port of Inl err \<Rightarrow> Inl err | Inr natPort \<Rightarrow> tc_MappedPort D c natPort s)"

section \<open>registry.go\<close>

text \<open>The three types of registered containers have the same fields.\<close>

datatype container_kind = MySQLContainer | RedisContainer | EtcdContainer

record 'c registered_container =
  rgc_kind :: container_kind
  rgc_c :: 'c
  rgc_refCount :: int
  rgc_Username :: string
  rgc_Password :: string
  rgc_Port :: int

text \<open>\<open>tr_cleanups\<close> are the pointers whose cleanup was registered with a test and has not run.\<close>

record 'c test_registry =
  tr_containers :: "string \<rightharpoonup> nat"
  tr_heap :: "'c registered_container list"
  tr_cleanups :: "nat list"

definition empty_registry :: "'c test_registry" where
  "empty_registry = \<lparr>tr_containers = Map.empty, tr_heap = [], tr_cleanups = []\<rparr>"

definition add_refs :: "int \<Rightarrow> nat \<Rightarrow> 'c test_registry \<Rightarrow> 'c test_registry" where
  "add_refs k i r = r\<lparr>tr_heap := (tr_heap r)[i := (tr_heap r ! i)\<lparr>rgc_refCount := rgc_refCount (tr_heap r ! i) + k\<rparr>]\<rparr>"

definition IncRef :: "nat \<Rightarrow> 'c test_registry \<Rightarrow> 'c test_registry" where "IncRef i r = add_refs 1 i r"

text \<open>\<open>create\<close> makes a new object; \<open>kind\<close> is the type that the caller asserts.\<close>

type_synonym ('c, 's) create_fn = "'s \<Rightarrow> 'c registered_container result \<times> 's"

text \<open>Storing the object and its pointer.\<close>

definition add_container :: "string \<Rightarrow> 'c registered_container \<Rightarrow> 'c test_registry \<Rightarrow> 'c test_registry" where
  "add_container name c r =
     r\<lparr>tr_heap := tr_heap r @ [c], tr_containers := (tr_containers r)(name \<mapsto> length (tr_heap r))\<rparr>"

definition find_or_create ::
  "string \<Rightarrow> ('c, 's) create_fn \<Rightarrow> 'c test_registry \<Rightarrow> 's \<Rightarrow> nat result \<times> 'c test_registry \<times> 's" where
  "find_or_create name create r s =
     (case tr_containers r name of
        Some i \<Rightarrow> (Inr i, r, s)
      | None \<Rightarrow>
          (case create s of
             (Inl err, s') \<Rightarrow> (Inl (Wrapped (''creating container '' @ name) err), r, s')
           | (Inr c, s') \<Rightarrow>
               (Inr (length (tr_heap r)),
                add_container name c r, s')))"

definition resolve ::
  "container_kind \<Rightarrow> string \<Rightarrow> ('c, 's) create_fn \<Rightarrow> 'c test_registry \<Rightarrow> 's \<Rightarrow> (nat result \<times> 'c test_registry \<times> 's) go" where
  "resolve kind name create r s =
     (case find_or_create name create r s of
        (Inl err, r', s') \<Rightarrow> Ret (Inl err, r', s')
      | (Inr i, r', s') \<Rightarrow>
          (let r'' = (IncRef i r')\<lparr>tr_cleanups := i # tr_cleanups r'\<rparr> in
           if rgc_kind (tr_heap r' ! i) = kind then Ret (Inr i, r'', s')
           else Panic ''interface conversion: containers.registeredContainer''))"

text \<open>\<open>cleanUp\<close> tells whether the environment variable is set. The name is only printed.\<close>

definition Terminate ::
  "bool \<Rightarrow> ('c, 'p, 's) docker_lib \<Rightarrow> nat \<Rightarrow> 'c test_registry \<Rightarrow> 's \<Rightarrow> go_error option \<times> 'c test_registry \<times> 's" where
  "Terminate cleanUp D i r s =
     (let r' = add_refs (- 1) i r in
      if rgc_refCount (tr_heap r' ! i) = 0
      then if \<not> cleanUp then (None, r', s)
           else (case tc_Terminate D (rgc_c (tr_heap r' ! i)) s of (e, s') \<Rightarrow> (e, r', s'))
      else (None, r', s))"

section \<open>etcd.go, redis.go\<close>

definition etcd_request :: container_request where
  "etcd_request =
     \<lparr>cr_Name = ''occa-etcd-test'', cr_Image = ''quay.io/coreos/etcd:v3.4.15'',
      cr_Cmd = [''etcd'', ''--advertise-client-urls'', ''http://0.0.0.0:2379'', ''--listen-client-urls'', ''http://0.0.0.0:2379''],
      cr_ExposedPorts = [''2379/tcp''], cr_WaitingFor = ''serving insecure client requests'', cr_Env = [],
      cr_Started = True, cr_Reuse = True\<rparr>"

definition redis_request :: container_request where
  "redis_request =
     \<lparr>cr_Name = ''occa-redis-test'', cr_Image = ''redis:7.2.3'', cr_Cmd = [], cr_ExposedPorts = [''6379/tcp''],
      cr_WaitingFor = ''Ready to accept connections tcp'', cr_Env = [],
      cr_Started = True, cr_Reuse = True\<rparr>"

text \<open>What the three constructors have in common: starting the container and asking for its port.\<close>

definition create_container ::
  "('c, 'p, 's) docker_lib \<Rightarrow> container_kind \<Rightarrow> container_request \<Rightarrow> string \<Rightarrow> string \<Rightarrow> string \<Rightarrow> ('c, 's) create_fn" where
  "create_container D kind req username password port s =
     (case tc_GenericContainer D req s of
        (Inl err, s1) \<Rightarrow> (Inl err, s1)
      | (Inr c, s1) \<Rightarrow>
          (case resolveMappedPort D c port s1 of
             Inl err \<Rightarrow> (Inl (Wrapped ''resolving mapped port'' err), s1)
           | Inr mappedPort \<Rightarrow>
               (Inr \<lparr>rgc_kind = kind, rgc_c = c, rgc_refCount = 0, rgc_Username = username, rgc_Password = password,
                  rgc_Port = mappedPort\<rparr>, s1)))"

definition create_etcd :: "('c, 'p, 's) docker_lib \<Rightarrow> ('c, 's) create_fn" where
  "create_etcd D = create_container D EtcdContainer etcd_request [] [] ''2379''"

definition create_redis :: "('c, 'p, 's) docker_lib \<Rightarrow> ('c, 's) create_fn" where
  "create_redis D = create_container D RedisContainer redis_request [] [] ''6379''"

definition WithEtcd where "WithEtcd D r s = resolve EtcdContainer ''etcd'' (create_etcd D) r s"

definition WithRedis where "WithRedis D r s = resolve RedisContainer ''redis'' (create_redis D) r s"

definition Endpoints :: "'c registered_container \<Rightarrow> string list" where
  "Endpoints c = [''http://localhost:'' @ show_int (rgc_Port c)]"

section \<open>mysql.go\<close>

definition mysql_request :: container_request where
  "mysql_request =
     \<lparr>cr_Name = ''occa-mysql-test'', cr_Image = ''mysql:8.2'', cr_Cmd = [], cr_ExposedPorts = [''3306/tcp''],
      cr_WaitingFor = ''ready for connections'', cr_Env = [(''MYSQL_ROOT_PASSWORD'', ''root'')],
      cr_Started = True, cr_Reuse = True\<rparr>"

text \<open>
  The library for SQL: opening, executing a statement, closing; and sleeping. The logger of the driver, which is
  silent while the container is created, is left out.
\<close>

record ('d, 's) sql_lib =
  sl_Open :: "string \<Rightarrow> 's \<Rightarrow> 'd result \<times> 's"
  sl_Exec :: "'d \<Rightarrow> string \<Rightarrow> 's \<Rightarrow> go_error option \<times> 's"
  sl_Close :: "'d \<Rightarrow> 's \<Rightarrow> 's"
  sl_Sleep :: "duration \<Rightarrow> 's \<Rightarrow> 's"

definition container_DSN :: "'c registered_container \<Rightarrow> string \<Rightarrow> string" where
  "container_DSN c database = MysqlDNS (rgc_Username c) (rgc_Password c) ''localhost'' (rgc_Port c) database"

definition health_check :: "('d, 's) sql_lib \<Rightarrow> 'c registered_container \<Rightarrow> 's \<Rightarrow> go_error option \<times> 's" where
  "health_check Q c s =
     (case sl_Open Q (container_DSN c []) s of
        (Inl err, s1) \<Rightarrow> (Some (Wrapped ''opening mysql connection'' err), s1)
      | (Inr db, s1) \<Rightarrow>
          (case sl_Exec Q db ''SELECT 1'' s1 of
             (Some err, s2) \<Rightarrow> (Some (Wrapped ''executing health check'' err), sl_Close Q db s2)
           | (None, s2) \<Rightarrow> (None, sl_Close Q db s2)))"

definition retryCount :: nat where "retryCount = 10"

text \<open>The loop, with the rounds that are left; \<open>Millisecond\<close> is a thousandth of a second.\<close>

definition Millisecond :: duration where "Millisecond = 1000000"

fun health_loop ::
  "('d, 's) sql_lib \<Rightarrow> 'c registered_container \<Rightarrow> nat \<Rightarrow> go_error \<Rightarrow> 's \<Rightarrow> go_error option \<times> 's" where
  "health_loop Q c 0 lastErr s = (Some (Wrapped ''timed out, last error'' lastErr), s)"
| "health_loop Q c (Suc n) lastErr s =
     (case health_check Q c s of
        (None, s') \<Rightarrow> (None, s')
      | (Some err, s') \<Rightarrow> health_loop Q c n err (sl_Sleep Q (500 * Millisecond) s'))"

text \<open>The initial \<open>lastErr\<close> is nil, but there is at least one round.\<close>

definition waitForHealthy :: "('d, 's) sql_lib \<Rightarrow> 'c registered_container \<Rightarrow> 's \<Rightarrow> go_error option \<times> 's" where
  "waitForHealthy Q c s = health_loop Q c retryCount (Opaque ''%!w(<nil>)'') (sl_Sleep Q (1 * Second) s)"

definition create_mysql :: "('c, 'p, 's) docker_lib \<Rightarrow> ('d, 's) sql_lib \<Rightarrow> ('c, 's) create_fn" where
  "create_mysql D Q s =
     (case create_container D MySQLContainer mysql_request ''root'' ''root'' ''3306'' s of
        (Inl err, s1) \<Rightarrow> (Inl err, s1)
      | (Inr mysql, s1) \<Rightarrow>
          (case waitForHealthy Q mysql s1 of (Some err, s2) \<Rightarrow> (Inl err, s2) | (None, s2) \<Rightarrow> (Inr mysql, s2)))"

definition WithMysql where "WithMysql D Q r s = resolve MySQLContainer ''mysql'' (create_mysql D Q) r s"

text \<open>\<open>n\<close> is the random number of the name. The database is not dropped by any cleanup.\<close>

definition WithTemporaryDatabase ::
  "('d, 's) sql_lib \<Rightarrow> 'c registered_container \<Rightarrow> string \<Rightarrow> int \<Rightarrow> 's \<Rightarrow> string result \<times> 's" where
  "WithTemporaryDatabase Q c pre n s =
     (case sl_Open Q (container_DSN c []) s of
        (Inl err, s1) \<Rightarrow> (Inl (Wrapped ''opening database connection'' err), s1)
      | (Inr db, s1) \<Rightarrow>
          (let databaseName = pre @ ''_'' @ show_int n in
           case sl_Exec Q db (''CREATE DATABASE '' @ databaseName) s1 of
             (Some err, s2) \<Rightarrow> (Inl (Wrapped ''creating database'' err), sl_Close Q db s2)
           | (None, s2) \<Rightarrow> (Inr databaseName, sl_Close Q db s2)))"

section \<open>Waiting for MySQL\<close>

text \<open>\<open>rounds k\<close> is the state in which round \<open>k\<close> of the loop begins when all before it failed.\<close>

fun rounds :: "('d, 's) sql_lib \<Rightarrow> 'c registered_container \<Rightarrow> nat \<Rightarrow> 's \<Rightarrow> 's" where
  "rounds Q c 0 s = s"
| "rounds Q c (Suc k) s = rounds Q c k (sl_Sleep Q (500 * Millisecond) (snd (health_check Q c s)))"

lemma health_loop_healthy:
  "fst (health_loop Q c n e s) = None \<longleftrightarrow> (\<exists>k < n. fst (health_check Q c (rounds Q c k s)) = None)"
proof (induction n arbitrary: e s)
  case (Suc n)
  obtain r s' where check: "health_check Q c s = (r, s')" by (metis surj_pair)
  show ?case
  proof (cases r)
    case None
    then show ?thesis using check by (auto intro: exI [of _ 0])
  next
    case (Some err)
    have "(\<exists>k < Suc n. fst (health_check Q c (rounds Q c k s)) = None) \<longleftrightarrow>
        (\<exists>k < n. fst (health_check Q c (rounds Q c (Suc k) s)) = None)"
      using check Some by (metis fst_conv less_Suc_eq_0_disj option.distinct(1) rounds.simps(1))
    then show ?thesis using check Some Suc.IH by simp
  qed
qed simp

lemma waitForHealthy_iff:
  "fst (waitForHealthy Q c s) = None \<longleftrightarrow>
     (\<exists>k < 10. fst (health_check Q c (rounds Q c k (sl_Sleep Q Second s))) = None)"
  by (simp add: waitForHealthy_def health_loop_healthy retryCount_def)

section \<open>The tests of a process\<close>

text \<open>The three exported functions by the type of their container, and the names they resolve.\<close>

fun container_name :: "container_kind \<Rightarrow> string" where
  "container_name MySQLContainer = ''mysql''"
| "container_name RedisContainer = ''redis''"
| "container_name EtcdContainer = ''etcd''"

fun create_kind :: "('c, 'p, 's) docker_lib \<Rightarrow> ('d, 's) sql_lib \<Rightarrow> container_kind \<Rightarrow> ('c, 's) create_fn" where
  "create_kind D Q MySQLContainer = create_mysql D Q"
| "create_kind D Q RedisContainer = create_redis D"
| "create_kind D Q EtcdContainer = create_etcd D"

fun With_container where
  "With_container D Q MySQLContainer r s = WithMysql D Q r s"
| "With_container D Q RedisContainer r s = WithRedis D r s"
| "With_container D Q EtcdContainer r s = WithEtcd D r s"

lemma With_container_resolve: "With_container D Q k r s = resolve k (container_name k) (create_kind D Q k) r s"
  by (cases k) (simp_all add: WithMysql_def WithRedis_def WithEtcd_def)

lemma container_name_inj [simp]: "container_name k = container_name k' \<longleftrightarrow> k = k'"
  by (cases k; cases k') simp_all

text \<open>
  What the tests do to the registry: one asks for a container, or one of the registered cleanups runs. The
  cleanups of one test run in reverse, but tests run in parallel, so any of them may be next. Everything
  else, the containers stopping by themselves included, happens in between.
\<close>

inductive ct_step ::
  "bool \<Rightarrow> ('c, 'p, 's) docker_lib \<Rightarrow> ('d, 's) sql_lib \<Rightarrow> 'c test_registry \<times> 's \<Rightarrow> 'c test_registry \<times> 's \<Rightarrow> bool"
  for cleanUp D Q where
  ct_with: "With_container D Q k r s = Ret (res, r', s') \<Longrightarrow> ct_step cleanUp D Q (r, s) (r', s')"
| ct_cleanup: "tr_cleanups r = pre @ i # post \<Longrightarrow> Terminate cleanUp D i r s = (e, r', s') \<Longrightarrow>
    ct_step cleanUp D Q (r, s) (r'\<lparr>tr_cleanups := pre @ post\<rparr>, s')"
| ct_outside: "ct_step cleanUp D Q (r, s) (r, s')"

text \<open>The containers are counted by their pending cleanups, and there is one of each kind at most.\<close>

definition counted :: "'c test_registry \<Rightarrow> bool" where
  "counted r \<longleftrightarrow> (\<forall>i < length (tr_heap r). rgc_refCount (tr_heap r ! i) = int (count_list (tr_cleanups r) i)) \<and>
     (\<forall>i \<in> set (tr_cleanups r). i < length (tr_heap r))"

definition registered_once :: "'c test_registry \<Rightarrow> bool" where
  "registered_once r \<longleftrightarrow> (\<forall>k i. tr_containers r (container_name k) = Some i \<longleftrightarrow>
     i < length (tr_heap r) \<and> rgc_kind (tr_heap r ! i) = k)"

lemma counted_empty: "counted empty_registry" by (simp add: counted_def empty_registry_def)

lemma registered_once_empty: "registered_once empty_registry"
  by (simp add: registered_once_def empty_registry_def)

lemma tr_containers_add_refs [simp]: "tr_containers (add_refs k i r) = tr_containers r"
  by (simp add: add_refs_def)

lemma tr_cleanups_add_refs [simp]: "tr_cleanups (add_refs k i r) = tr_cleanups r"
  by (simp add: add_refs_def)

lemma length_add_refs [simp]: "length (tr_heap (add_refs k i r)) = length (tr_heap r)"
  by (simp add: add_refs_def)

lemma kind_add_refs [simp]: "rgc_kind (tr_heap (add_refs k i r) ! j) = rgc_kind (tr_heap r ! j)"
  by (cases "i < length (tr_heap r)") (auto simp: add_refs_def nth_list_update list_update_beyond)

lemma c_add_refs [simp]: "rgc_c (tr_heap (add_refs k i r) ! j) = rgc_c (tr_heap r ! j)"
  by (cases "i < length (tr_heap r)") (auto simp: add_refs_def nth_list_update list_update_beyond)

lemma count_add_refs [simp]:
  "i < length (tr_heap r) \<Longrightarrow>
   rgc_refCount (tr_heap (add_refs k i r) ! j) = rgc_refCount (tr_heap r ! j) + (if i = j then k else 0)"
  by (auto simp: add_refs_def nth_list_update)

lemma registered_once_cong:
  "tr_containers r' = tr_containers r \<Longrightarrow> length (tr_heap r') = length (tr_heap r) \<Longrightarrow>
   (\<And>i. rgc_kind (tr_heap r' ! i) = rgc_kind (tr_heap r ! i)) \<Longrightarrow> registered_once r' = registered_once r"
  by (simp add: registered_once_def)

subsection \<open>A new container\<close>

lemma create_container_new:
  "create_container D kind req u p port s = (Inr c, s') \<Longrightarrow> rgc_kind c = kind \<and> rgc_refCount c = 0"
  by (auto simp: create_container_def split: prod.splits sum.splits)

lemma create_kind_new: "create_kind D Q k s = (Inr c, s') \<Longrightarrow> rgc_kind c = k \<and> rgc_refCount c = 0"
  by (cases k) (auto simp: create_mysql_def create_redis_def create_etcd_def dest: create_container_new
      split: prod.splits sum.splits option.splits)

lemma find_or_create_cases:
  assumes "find_or_create name create r s = (res, r', s')"
  shows "(\<exists>j. tr_containers r name = Some j \<and> res = Inr j \<and> r' = r) \<or> (\<exists>err. res = Inl err \<and> r' = r) \<or>
    (\<exists>c. tr_containers r name = None \<and> create s = (Inr c, s') \<and> res = Inr (length (tr_heap r)) \<and>
      r' = add_container name c r)"
  using assms by (auto simp: find_or_create_def split: option.splits prod.splits sum.splits)

lemma registered_once_add:
  assumes once: "registered_once r" and "tr_containers r (container_name k) = None" and "rgc_kind c = k"
  shows "registered_once (add_container (container_name k) c r)"
proof -
  have old: "tr_containers r (container_name k') = Some i \<longleftrightarrow> i < length (tr_heap r) \<and> rgc_kind (tr_heap r ! i) = k'" for k' i
    using once by (simp add: registered_once_def)
  have none: "\<not> (i < length (tr_heap r) \<and> rgc_kind (tr_heap r ! i) = k)" for i
    using assms(2) by (simp flip: old)
  show ?thesis
    unfolding registered_once_def
  proof (intro allI)
    fix k' i
    show "tr_containers (add_container (container_name k) c r) (container_name k') = Some i \<longleftrightarrow>
        i < length (tr_heap (add_container (container_name k) c r)) \<and>
        rgc_kind (tr_heap (add_container (container_name k) c r) ! i) = k'"
      using old [of k' i] none [of i] assms(3)
      by (cases "k' = k"; cases "i = length (tr_heap r)") (auto simp: add_container_def nth_append less_Suc_eq)
  qed
qed

lemma find_or_create_keeps:
  assumes "find_or_create (container_name k) (create_kind D Q k) r s = (res, r', s')"
    and counted: "counted r" and once: "registered_once r"
  shows "counted r'" and "registered_once r'"
    and "res = Inr i \<Longrightarrow> i < length (tr_heap r') \<and> rgc_kind (tr_heap r' ! i) = k"
proof -
  have zero: "count_list (tr_cleanups r) (length (tr_heap r)) = 0"
    using counted by (force simp: counted_def count_list_0_iff)
  consider (old) j where "tr_containers r (container_name k) = Some j" "res = Inr j" "r' = r"
    | (failed) err where "res = Inl err" "r' = r"
    | (new) c where "tr_containers r (container_name k) = None" "rgc_kind c = k" "rgc_refCount c = 0"
        "res = Inr (length (tr_heap r))" "r' = add_container (container_name k) c r"
    using find_or_create_cases [OF assms(1)] create_kind_new by metis
  note cases = this
  show "counted r'"
    using cases
  proof cases
    case new
    then show ?thesis using counted zero
      by (auto simp: counted_def add_container_def nth_append less_Suc_eq)
  qed (use counted in simp_all)
  show "registered_once r'"
    using cases
  proof cases
    case new
    then show ?thesis using registered_once_add [OF once] by simp
  qed (use once in simp_all)
  show "res = Inr i \<Longrightarrow> i < length (tr_heap r') \<and> rgc_kind (tr_heap r' ! i) = k"
    using cases
  proof cases
    case (old j)
    assume "res = Inr i"
    then show ?thesis using old once by (simp add: registered_once_def)
  qed (auto simp: add_container_def)
qed

subsection \<open>The steps keep the invariant\<close>

lemma counted_holds:
  assumes "counted r" and "i < length (tr_heap r)"
  shows "counted ((IncRef i r)\<lparr>tr_cleanups := i # tr_cleanups r\<rparr>)"
  using assms by (auto simp: counted_def IncRef_def)

lemma counted_releases:
  assumes "counted r" and "tr_cleanups r = pre @ i # post"
  shows "counted ((add_refs (- 1) i r)\<lparr>tr_cleanups := pre @ post\<rparr>)"
  using assms by (auto simp: counted_def)

lemma with_container_result:
  assumes "counted r" and "registered_once r"
  shows "\<exists>res r' s'. With_container D Q k r s = Ret (res, r', s') \<and> counted r' \<and> registered_once r' \<and>
    (\<forall>i. res = Inr i \<longrightarrow> i \<in> set (tr_cleanups r') \<and> tr_containers r' (container_name k) = Some i)"
proof -
  obtain res r1 s' where found: "find_or_create (container_name k) (create_kind D Q k) r s = (res, r1, s')"
    by (metis surj_pair)
  note keeps = find_or_create_keeps [OF found assms]
  show ?thesis
  proof (cases res)
    case (Inl err)
    then show ?thesis using found keeps(1, 2) by (simp add: With_container_resolve resolve_def)
  next
    case (Inr i)
    let ?r = "(IncRef i r1)\<lparr>tr_cleanups := i # tr_cleanups r1\<rparr>"
    have i: "i < length (tr_heap r1)" "rgc_kind (tr_heap r1 ! i) = k" using keeps(3) Inr by simp_all
    have "With_container D Q k r s = Ret (Inr i, ?r, s')"
      using found Inr i by (simp add: With_container_resolve resolve_def Let_def)
    moreover have "registered_once ?r"
      using keeps(2) registered_once_cong [of ?r r1] by (simp add: IncRef_def)
    moreover have "tr_containers ?r (container_name k) = Some i"
      using keeps(2) i by (simp add: registered_once_def IncRef_def)
    ultimately show ?thesis using counted_holds [OF keeps(1) i(1)] by auto
  qed
qed

lemma Terminate_registry: "fst (snd (Terminate cleanUp D i r s)) = add_refs (- 1) i r"
  by (simp add: Terminate_def Let_def split: prod.splits)

lemma ct_step_keeps:
  assumes "ct_step cleanUp D Q x y" and "counted (fst x) \<and> registered_once (fst x)"
  shows "counted (fst y) \<and> registered_once (fst y)"
  using assms
proof cases
  case (ct_with k r s res r' s')
  then show ?thesis using assms(2) with_container_result [of r D Q k s] by auto
next
  case (ct_cleanup r pre i post s e r' s')
  have "r' = add_refs (- 1) i r" using ct_cleanup(4) Terminate_registry [of cleanUp D i r s] by simp
  then show ?thesis
    using ct_cleanup assms(2) counted_releases [of r pre i post]
      registered_once_cong [of "(add_refs (- 1) i r)\<lparr>tr_cleanups := pre @ post\<rparr>" r] by simp
qed simp

lemma reachable_registry:
  assumes "(ct_step cleanUp D Q)\<^sup>*\<^sup>* (empty_registry, s0) (r, s)"
  shows "counted r" and "registered_once r"
proof -
  have "counted (fst y) \<and> registered_once (fst y)" if "(ct_step cleanUp D Q)\<^sup>*\<^sup>* (empty_registry, s0) y" for y
    using that by induction (auto simp: counted_empty registered_once_empty dest: ct_step_keeps)
  from this [OF assms] show "counted r" and "registered_once r" by simp_all
qed

lemma Terminate_state:
  assumes "counted r" and "tr_cleanups r = pre @ i # post"
  shows "snd (snd (Terminate cleanUp D i r s)) =
    (if cleanUp \<and> i \<notin> set (pre @ post) then snd (tc_Terminate D (rgc_c (tr_heap r ! i)) s) else s)"
proof -
  have "i < length (tr_heap r)" and "rgc_refCount (tr_heap r ! i) = 1 + int (count_list (pre @ post) i)"
    using assms by (auto simp: counted_def)
  moreover have "int (count_list (pre @ post) i) = 0 \<longleftrightarrow> i \<notin> set (pre @ post)"
    by (simp only: of_nat_eq_0_iff count_list_0_iff)
  ultimately show ?thesis by (simp add: Terminate_def Let_def del: count_list_append set_append split: prod.splits)
qed

text \<open>A container that is registered is handed out without any call to Docker, whatever became of it.\<close>

lemma registered_is_handed_out:
  assumes "registered_once r" and "tr_containers r (container_name k) = Some i"
  shows "With_container D Q k r s = Ret (Inr i, (IncRef i r)\<lparr>tr_cleanups := i # tr_cleanups r\<rparr>, s)"
proof -
  have "rgc_kind (tr_heap r ! i) = k" using assms by (simp add: registered_once_def)
  then show ?thesis using assms(2) by (simp add: With_container_resolve resolve_def find_or_create_def Let_def)
qed

section \<open>A Docker for the witness\<close>

text \<open>Its state counts what it was asked: one for a container that is started, a hundred for one that is terminated.\<close>

definition ref_docker :: "(nat, nat, nat) docker_lib" where
  "ref_docker = \<lparr>tc_GenericContainer = (\<lambda>req s. (Inr s, Suc s)), tc_MappedPort = (\<lambda>c p s. Inr 32768),
     nat_NewPort = (\<lambda>proto port. Inr 0), tc_Name = (\<lambda>c s. Inr ''/occa''), tc_Terminate = (\<lambda>c s. (None, s + 100))\<rparr>"

definition ref_sql :: "(unit, nat) sql_lib" where
  "ref_sql = \<lparr>sl_Open = (\<lambda>dsn s. (Inr (), s)), sl_Exec = (\<lambda>db q s. (None, s)), sl_Close = (\<lambda>db s. s),
     sl_Sleep = (\<lambda>d s. s)\<rparr>"

abbreviation held_redis :: "nat test_registry" where
  "held_redis \<equiv>
     \<lparr>tr_containers = [''redis'' \<mapsto> 0],
      tr_heap = [\<lparr>rgc_kind = RedisContainer, rgc_c = 0, rgc_refCount = 1, rgc_Username = [], rgc_Password = [], rgc_Port = 32768\<rparr>],
      tr_cleanups = [0]\<rparr>"

lemma redis_held: "ct_step True ref_docker ref_sql (empty_registry, 0) (held_redis, 1)"
proof (rule ct_with [where k = RedisContainer and res = "Inr 0"])
  show "With_container ref_docker ref_sql RedisContainer empty_registry 0 = Ret (Inr 0, held_redis, 1)"
    by (simp add: WithRedis_def resolve_def find_or_create_def empty_registry_def create_redis_def create_container_def
        ref_docker_def resolveMappedPort_def add_container_def IncRef_def add_refs_def Let_def)
qed

section \<open>The property\<close>

text \<open>C17: In every state that the tests of a process can reach, asking for one of the three containers does not
  panic; there is at most one container of each type, and its count is the number of cleanups that are still
  to run. A cleanup calls Docker exactly if it is the last one of its container and the environment
  variable is set. The container stays registered, though: the next test that asks for it is handed the
  same one with no call to Docker, even if it was just terminated.
\<close>

theorem containers_counted_and_kept:
  assumes "(ct_step cleanUp D Q)\<^sup>*\<^sup>* (empty_registry, s0) (r, s)"
  shows "(\<forall>k. \<exists>res r' s'. With_container D Q k r s = Ret (res, r', s')) \<and>
    (\<forall>i < length (tr_heap r). rgc_refCount (tr_heap r ! i) = int (count_list (tr_cleanups r) i)) \<and>
    (\<forall>i < length (tr_heap r). \<forall>j < length (tr_heap r). rgc_kind (tr_heap r ! i) = rgc_kind (tr_heap r ! j) \<longrightarrow> i = j) \<and>
    (\<forall>pre i post. tr_cleanups r = pre @ i # post \<longrightarrow>
      snd (snd (Terminate cleanUp D i r s)) =
        (if cleanUp \<and> i \<notin> set (pre @ post) then snd (tc_Terminate D (rgc_c (tr_heap r ! i)) s) else s) \<and>
      (\<forall>e r' s'. Terminate cleanUp D i r s = (e, r', s') \<longrightarrow>
        (\<exists>r''. With_container D Q (rgc_kind (tr_heap r ! i)) (r'\<lparr>tr_cleanups := pre @ post\<rparr>) s' = Ret (Inr i, r'', s'))))"
proof (intro conjI allI impI)
  note counted = reachable_registry(1) [OF assms] and once = reachable_registry(2) [OF assms]
  show "\<exists>res r' s'. With_container D Q k r s = Ret (res, r', s')" for k
    using with_container_result [OF counted once, of D Q k s] by auto
  show "rgc_refCount (tr_heap r ! i) = int (count_list (tr_cleanups r) i)" if "i < length (tr_heap r)" for i
    using counted that by (simp add: counted_def)
  show "i = j" if "i < length (tr_heap r)" "j < length (tr_heap r)" "rgc_kind (tr_heap r ! i) = rgc_kind (tr_heap r ! j)" for i j
    using once that unfolding registered_once_def by (metis option.inject)
  fix pre i post
  assume pending: "tr_cleanups r = pre @ i # post"
  show "snd (snd (Terminate cleanUp D i r s)) =
      (if cleanUp \<and> i \<notin> set (pre @ post) then snd (tc_Terminate D (rgc_c (tr_heap r ! i)) s) else s)"
    by (rule Terminate_state [OF counted pending])
  fix e r' s'
  assume "Terminate cleanUp D i r s = (e, r', s')"
  then have r': "r' = add_refs (- 1) i r" using Terminate_registry [of cleanUp D i r s] by simp
  let ?r = "r'\<lparr>tr_cleanups := pre @ post\<rparr>" and ?k = "rgc_kind (tr_heap r ! i)"
  have "registered_once ?r" using once registered_once_cong [of ?r r] r' by simp
  moreover have "tr_containers ?r (container_name ?k) = Some i"
    using once counted pending r' by (simp add: registered_once_def counted_def)
  ultimately show "\<exists>r''. With_container D Q ?k ?r s' = Ret (Inr i, r'', s')"
    using registered_is_handed_out [of ?r ?k i D Q s'] by simp
qed

theorem containers_counted_and_kept_witness:
  "snd (snd (Terminate True ref_docker 0 held_redis 1)) = 101 \<and>
   (\<exists>r''. With_container ref_docker ref_sql RedisContainer
      ((fst (snd (Terminate True ref_docker 0 held_redis 1)))\<lparr>tr_cleanups := []\<rparr>) 101 = Ret (Inr 0, r'', 101))"
proof -
  have reached: "(ct_step True ref_docker ref_sql)\<^sup>*\<^sup>* (empty_registry, 0) (held_redis, 1)"
    by (rule r_into_rtranclp) (rule redis_held)
  have pending: "tr_cleanups held_redis = [] @ 0 # []" by simp
  note last = containers_counted_and_kept [OF reached, THEN conjunct2, THEN conjunct2, THEN conjunct2, rule_format, OF pending]
  have state: "snd (snd (Terminate True ref_docker 0 held_redis 1)) = 101"
    using last by (simp add: ref_docker_def)
  obtain e r' s' where ended: "Terminate True ref_docker 0 held_redis 1 = (e, r', s')" by (metis surj_pair)
  have "\<exists>r''. With_container ref_docker ref_sql (rgc_kind (tr_heap held_redis ! 0)) (r'\<lparr>tr_cleanups := [] @ []\<rparr>) s' =
      Ret (Inr 0, r'', s')"
    using last ended by blast
  then show ?thesis using state ended by simp
qed

end
