(* ===== verification/TestParams.thy ===== *)
theory TestParams
  imports TestKeys Containers
begin

text \<open>
  The servers that the integration tests start: \<open>integration/gateway/params.go\<close> and
  \<open>integration/eventserver/params.go\<close>, which put the containers, the keys and two free ports together to a
  configuration. Of the parameters only the configuration is kept: the logger is the tests' own, and the
  channel that ends the server is closed by a cleanup of the test.
\<close>

section \<open>A test\<close>

text \<open>
  A step of a test works on the registry of containers and on the state of the libraries; None ends the test.
\<close>

type_synonym ('a, 'c, 's) test_run = "'c test_registry \<Rightarrow> 's \<Rightarrow> ('a option \<times> 'c test_registry \<times> 's) go"

definition test_bind :: "('a, 'c, 's) test_run \<Rightarrow> ('a \<Rightarrow> ('b, 'c, 's) test_run) \<Rightarrow> ('b, 'c, 's) test_run" where
  "test_bind m f r s =
     go_bind (m r s) (\<lambda>(x, r', s'). case x of None \<Rightarrow> Ret (None, r', s') | Some a \<Rightarrow> f a r' s')"

definition test_return :: "'a \<Rightarrow> ('a, 'c, 's) test_run" where "test_return x r s = Ret (Some x, r, s)"

text \<open>Requiring that the last component of a result is no error.\<close>

definition test_require :: "('s \<Rightarrow> ('a result \<times> 's) go) \<Rightarrow> ('a, 'c, 's) test_run" where
  "test_require f r s =
     go_bind (f s) (\<lambda>(res, s'). case res of Inl err \<Rightarrow> Ret (None, r, s') | Inr x \<Rightarrow> Ret (Some x, r, s'))"

text \<open>The container behind the pointer that \<open>With...\<close> returns; its fields are not written again.\<close>

definition the_container ::
  "('c, 'p, 's) docker_lib \<Rightarrow> ('d, 's) sql_lib \<Rightarrow> container_kind \<Rightarrow> ('c registered_container, 'c, 's) test_run" where
  "the_container D Q k r s =
     go_bind (With_container D Q k r s) (\<lambda>(res, r', s').
       case res of Inl err \<Rightarrow> Ret (None, r', s') | Inr i \<Rightarrow> Ret (Some (tr_heap r' ! i), r', s'))"

definition bound_address :: "(string \<Rightarrow> 's \<Rightarrow> 'l result \<times> 's) \<Rightarrow> string \<Rightarrow> 's \<Rightarrow> ('l ListenAddr option result \<times> 's) go" where
  "bound_address net_Listen address s =
     go_bind (ListenAddr_Listener net_Listen (ListenAddrFromAddress address) s) (\<lambda>(res, addr, s').
       case res of Inl err \<Rightarrow> Ret (Inl err, s') | Inr l \<Rightarrow> Ret (Inr addr, s'))"

lemma test_bind_Some:
  "test_bind m f r s = Ret (Some b, r', s') \<longleftrightarrow>
     (\<exists>a r1 s1. m r s = Ret (Some a, r1, s1) \<and> f a r1 s1 = Ret (Some b, r', s'))"
  by (cases "m r s") (auto simp: test_bind_def split: option.splits)

lemma test_require_Some:
  "test_require f r s = Ret (Some x, r', s') \<longleftrightarrow> f s = Ret (Inr x, s') \<and> r' = r"
  by (cases "f s") (auto simp: test_require_def split: sum.splits)

lemma test_return_Some: "test_return x r s = Ret (Some y, r', s') \<longleftrightarrow> y = x \<and> r' = r \<and> s' = s"
  by (auto simp: test_return_def)

section \<open>params.go of the gateway\<close>

definition test_memstore :: "uuid_lib \<Rightarrow> uuid \<Rightarrow> 'c registered_container \<Rightarrow> memstore_Configuration" where
  "test_memstore L u redis =
     \<lparr>ms_Address = ''localhost:'' @ show_int (rgc_Port redis), ms_User = rgc_Username redis,
      ms_Password = rgc_Password redis, ms_Prefix = uuid_String L u\<rparr>"

definition test_auth :: "string \<Rightarrow> ValidatorConfiguration" where
  "test_auth pubKey = \<lparr>vc_Type = ValidatorConfigurationJWTRSA, vc_PublicKeyPath = pubKey\<rparr>"

definition zero_logger_config :: logger_Configuration where
  "zero_logger_config = \<lparr>Level = [], Component = [], DevelopmentMode = False\<rparr>"

text \<open>\<open>n\<close> is the random number of the database's name, \<open>u\<close> the random prefix of the store.\<close>

definition gateway_DefaultParams ::
  "('c, 'p, 's) docker_lib \<Rightarrow> ('d, 's) sql_lib \<Rightarrow> (string \<Rightarrow> 's \<Rightarrow> 'l result \<times> 's) \<Rightarrow> ('sk, 'pk, 's) key_files \<Rightarrow> uuid_lib \<Rightarrow>
    int \<Rightarrow> uuid \<Rightarrow> ('l gateway_Configuration, 'c, 's) test_run" where
  "gateway_DefaultParams D Q net_Listen F L n u =
     test_bind (the_container D Q MySQLContainer) (\<lambda>db.
     test_bind (the_container D Q RedisContainer) (\<lambda>redis.
     test_bind (the_container D Q EtcdContainer) (\<lambda>etcd.
     test_bind (test_require (bound_address net_Listen ''0.0.0.0:0'')) (\<lambda>listenAddr.
     test_bind (test_require (\<lambda>s. Ret (WithTemporaryDatabase Q db ''auth_users'' n s))) (\<lambda>authDatabase.
     test_bind (test_require (GetRSAPairPaths F)) (\<lambda>(pubKey, privKey).
       test_return
         \<lparr>gwc_Logger = zero_logger_config, gwc_HTTPListenAddress = listenAddr, gwc_MemStore = test_memstore L u redis,
          gwc_Auth = test_auth pubKey,
          gwc_Registerer =
            \<lparr>rc_Users = \<lparr>DBType = ''mysql'', DataSourceName = container_DSN db authDatabase, Host = [], Port = 0,
                Database = [], Username = [], Password = []\<rparr>,
             rc_PrivateKeyPath = privKey\<rparr>,
          gwc_Etcd = \<lparr>et_Username = rgc_Username etcd, et_Password = rgc_Password etcd, et_Endpoints = Endpoints etcd\<rparr>\<rparr>))))))"

section \<open>params.go of the event server\<close>

definition es_DefaultParams ::
  "('c, 'p, 's) docker_lib \<Rightarrow> ('d, 's) sql_lib \<Rightarrow> (string \<Rightarrow> 's \<Rightarrow> 'l result \<times> 's) \<Rightarrow> ('sk, 'pk, 's) key_files \<Rightarrow> uuid_lib \<Rightarrow>
    uuid \<Rightarrow> ('l es_Configuration, 'c, 's) test_run" where
  "es_DefaultParams D Q net_Listen F L u =
     test_bind (the_container D Q EtcdContainer) (\<lambda>etcd.
     test_bind (the_container D Q RedisContainer) (\<lambda>redis.
     test_bind (test_require (bound_address net_Listen ''0.0.0.0:0'')) (\<lambda>httpListenAddr.
     test_bind (test_require (bound_address net_Listen ''0.0.0.0:0'')) (\<lambda>grpcListenAddr.
     test_bind (test_require (GetRSAPairPaths F)) (\<lambda>(pubKey, _).
       test_return
         \<lparr>esc_Logger = zero_logger_config, esc_Auth = test_auth pubKey, esc_HTTPListenAddress = httpListenAddr,
          esc_GRPCListenAddress = grpcListenAddr,
          esc_Etcd =
            \<lparr>et_Username = rgc_Username etcd, et_Password = rgc_Password etcd,
             et_Endpoints = [''http://localhost:'' @ show_int (rgc_Port etcd)]\<rparr>,
          esc_MemStore = test_memstore L u redis, esc_ServerID = ''test_server_1''\<rparr>)))))"

section \<open>What the two configurations say\<close>

lemma key_paths:
  assumes "test_require (GetRSAPairPaths F) r s = Ret (Some paths, r', s')" and "key_file_laws F view"
  shows "paths = (publicPath F, privatePath F)"
proof -
  have "GetRSAPairPaths F s = Ret (Inr paths, s')" using assms(1) by (simp add: test_require_Some)
  then show ?thesis by (rule GetRSAPairPaths_result(1) [OF assms(2)])
qed

lemma gateway_DefaultParams_keys:
  assumes "key_file_laws F view" and "gateway_DefaultParams D Q net_Listen F L n u r s = Ret (Some cfg, r', s')"
  shows "gwc_Auth cfg = test_auth (publicPath F)" and "rc_PrivateKeyPath (gwc_Registerer cfg) = privatePath F"
  using assms(2) by (auto simp: gateway_DefaultParams_def test_bind_Some test_return_Some dest!: key_paths [OF _ assms(1)])

lemma es_DefaultParams_keys:
  assumes "key_file_laws F view" and "es_DefaultParams D Q net_Listen F L u r s = Ret (Some cfg, r', s')"
  shows "esc_Auth cfg = test_auth (publicPath F)"
  using assms(2) by (auto simp: es_DefaultParams_def test_bind_Some test_return_Some dest!: key_paths [OF _ assms(1)])

text \<open>The gateway opens the database that was created, on the container, whatever the defaults.\<close>

lemma gateway_DefaultParams_database:
  fixes D :: "('c, 'p, 's) docker_lib"
  assumes "gateway_DefaultParams D Q net_Listen F L n u r s = Ret (Some cfg, r', s')"
  shows "\<exists>(db :: 'c registered_container) s1 s2. WithTemporaryDatabase Q db ''auth_users'' n s1 = (Inr (''auth_users_'' @ show_int n), s2) \<and>
    (\<forall>gorm_Open g. db_Build gorm_Open (rc_Users (gwc_Registerer cfg)) g =
       gorm_Open (MysqlOpen (container_DSN db (''auth_users_'' @ show_int n))) g)"
proof -
  obtain db :: "'c registered_container" and authDatabase s1 s2
    where created: "WithTemporaryDatabase Q db ''auth_users'' n s1 = (Inr authDatabase, s2)"
    and users: "rc_Users (gwc_Registerer cfg) = \<lparr>DBType = ''mysql'', DataSourceName = container_DSN db authDatabase,
      Host = [], Port = 0, Database = [], Username = [], Password = []\<rparr>"
    using assms by (clarsimp simp: gateway_DefaultParams_def test_bind_Some test_return_Some test_require_Some)
  have name: "authDatabase = ''auth_users_'' @ show_int n"
    using created by (auto simp: WithTemporaryDatabase_def Let_def split: prod.splits sum.splits option.splits)
  have "container_DSN db authDatabase \<noteq> []" by (simp add: container_DSN_def MysqlDNS_def)
  then have opens: "db_Build gorm_Open (rc_Users (gwc_Registerer cfg)) g = gorm_Open (MysqlOpen (container_DSN db authDatabase)) g"
    for gorm_Open :: "dialector \<Rightarrow> 'x \<Rightarrow> 'y result \<times> 'x" and g
    by (simp add: users db_Build_def validateAndSetDefaults_def createDialector_def Let_def)
  show ?thesis using created
    by - (rule exI [of _ db], rule exI [of _ s1], rule exI [of _ s2], simp add: opens name)
qed

section \<open>One pair of keys for all\<close>

lemma test_auth_Build:
  assumes "pair_on_disk F s sk"
  shows "BuildHTTPMiddleware J (public_keys F s) clock u (test_auth (publicPath F)) =
      Inr (HTTPTokenAuthorizationMiddleware (JWTValidator_Validate J (rsa_PublicKey F sk) clock))"
    and "BuildGRPCStreamInterceptor J (public_keys F s) clock (test_auth (publicPath F)) =
      Inr (GRPCStreamTokenAuthorizationInterceptor (JWTValidator_Validate J (rsa_PublicKey F sk) clock))"
    and "TokenIssuerConfiguration_Build J (private_keys F s) (privatePath F) = Inr (JWTIssuer_Issue J sk)"
  using assms
  by (simp_all add: test_auth_def BuildHTTPMiddleware_def BuildGRPCStreamInterceptor_def JWTValidatorConfiguration_Build_def
      TokenIssuerConfiguration_Build_def pair_on_disk_def ValidatorConfigurationNoop_def ValidatorConfigurationJWTRSA_def)

text \<open>\<open>admits\<close>: a middleware and an interceptor let the bearer of the token through, over HTTP as the principal.\<close>

definition admits ::
  "(Principal option, 's) middleware \<Rightarrow> ('req, 's) interceptor \<Rightarrow> string \<Rightarrow> Principal \<Rightarrow> 's \<Rightarrow> bool" where
  "admits mw ic token p s \<longleftrightarrow>
     (\<forall>h r w. header_Get ''Authorization'' (rq_headers r) = ''Bearer '' @ token \<longrightarrow>
        mw h r (w, s) = h (r\<lparr>rq_ctx := Some p\<rparr>) (w, s)) \<and>
     (\<forall>g req. ic g (tester_metadata token) req s = g req s)"

lemma valid_token_admitted:
  assumes "v token s = Inr p"
  shows "admits (HTTPTokenAuthorizationMiddleware v) (GRPCStreamTokenAuthorizationInterceptor v) token p s"
proof -
  have "strip_bearer (''Bearer '' @ token) = token" by (simp add: strip_bearer_def bearer_def)
  then show ?thesis using assms
    by (simp add: admits_def tester_metadata_def HTTPTokenAuthorizationMiddleware_def authorizeRequest_def
        GRPCStreamTokenAuthorizationInterceptor_def ContextWithPrincipal_def Let_def)
qed

lemma issued_token_admitted:
  assumes "jwt_laws J sk pk" and "valid_utf8 (p_UserName p)" and "JWTIssuer_Issue J sk now p = Inr token"
    and "clock t < (now + tokenDuration) div Second * Second"
  shows "admits (HTTPTokenAuthorizationMiddleware (JWTValidator_Validate J pk clock))
      (GRPCStreamTokenAuthorizationInterceptor (JWTValidator_Validate J pk clock)) token p t"
  by (rule valid_token_admitted) (rule issued_token_validity(1) [OF assms(1-3), of clock t, OF assms(4)])

section \<open>A world for the witness\<close>

text \<open>The state is the content of the two files; the other libraries leave it alone.\<close>

type_synonym ref_world = "string \<rightharpoonup> string"

definition ref_key_files :: "(unit, unit, ref_world) key_files" where
  "ref_key_files =
     \<lparr>os_TempDir = ''/tmp'', os_MkdirAll = (\<lambda>p s. (None, s)), os_Remove = (\<lambda>p s. s),
      os_Stat = (\<lambda>p s. case s p of None \<Rightarrow> Inl (True, Opaque ''no such file'') | Some b \<Rightarrow> Inr (int (length b))),
      os_ReadFile = (\<lambda>p s. case s p of None \<Rightarrow> Inl (Opaque ''no such file'') | Some b \<Rightarrow> Inr b),
      os_WriteFile = (\<lambda>p b s. (None, s(p \<mapsto> b))), rsa_GenerateKey = (\<lambda>n s. (Inr (), s)), rsa_PublicKey = (\<lambda>k. ()),
      x509_MarshalPKCS8PrivateKey = (\<lambda>k. Inr ''k''), x509_MarshalPKIXPublicKey = (\<lambda>k. Inr ''k''),
      x509_ParsePKCS8PrivateKey = (\<lambda>b. Inr (Inr ())), x509_ParsePKIXPublicKey = (\<lambda>b. Inr (Inr ())),
      pem_EncodeToMemory = (\<lambda>t b. CHR ''-'' # b), pem_Decode = (\<lambda>b. if b = [] then None else Some (tl b))\<rparr>"

lemma ref_key_file_laws: "key_file_laws ref_key_files (\<lambda>s. s)"
  by (auto simp: key_file_laws_def ref_key_files_def split: option.splits)

definition ref_world_docker :: "(nat, nat, ref_world) docker_lib" where
  "ref_world_docker = \<lparr>tc_GenericContainer = (\<lambda>req s. (Inr 0, s)), tc_MappedPort = (\<lambda>c p s. Inr 32768),
     nat_NewPort = (\<lambda>proto port. Inr 0), tc_Name = (\<lambda>c s. Inr ''/occa''), tc_Terminate = (\<lambda>c s. (None, s))\<rparr>"

definition ref_world_sql :: "(unit, ref_world) sql_lib" where
  "ref_world_sql = \<lparr>sl_Open = (\<lambda>dsn s. (Inr (), s)), sl_Exec = (\<lambda>db q s. (None, s)), sl_Close = (\<lambda>db s. s),
     sl_Sleep = (\<lambda>d s. s)\<rparr>"

definition ref_listen :: "string \<Rightarrow> ref_world \<Rightarrow> unit result \<times> ref_world" where "ref_listen a s = (Inr (), s)"

lemma ref_key_files_simps [simp]:
  "os_MkdirAll ref_key_files p s = (None, s)" "os_WriteFile ref_key_files p b s = (None, s(p \<mapsto> b))"
  "rsa_GenerateKey ref_key_files n s = (Inr (), s)" "x509_MarshalPKCS8PrivateKey ref_key_files k = Inr ''k''"
  "x509_MarshalPKIXPublicKey ref_key_files k' = Inr ''k''"
  by (simp_all add: ref_key_files_def)

lemma ref_keys_found:
  "\<exists>s'. GetRSAPairPaths ref_key_files s = Ret (Inr (publicPath ref_key_files, privatePath ref_key_files), s')"
proof -
  have "\<exists>b. isValidFile ref_key_files p s = Ret b" for p
    by (auto simp: isValidFile_def ref_key_files_def split: option.split)
  then obtain b c where "isValidFile ref_key_files (publicPath ref_key_files) s = Ret b"
    "isValidFile ref_key_files (privatePath ref_key_files) s = Ret c" by metis
  then show ?thesis by (cases b; cases c) (simp_all add: GetRSAPairPaths_def write_pair_def)
qed

lemma ref_container_created: "\<exists>c. create_kind ref_world_docker ref_world_sql k s = (Inr c, s)"
proof -
  have "health_check ref_world_sql c s = (None, s)" for c :: "nat registered_container" and s
    by (simp add: health_check_def ref_world_sql_def)
  then have "waitForHealthy ref_world_sql c s = (None, s)" for c :: "nat registered_container" and s
    by (simp add: waitForHealthy_def retryCount_def ref_world_sql_def numeral_eq_Suc)
  then show ?thesis
    by (cases k) (simp_all add: create_mysql_def create_redis_def create_etcd_def create_container_def
        resolveMappedPort_def ref_world_docker_def)
qed

lemma ref_container:
  assumes "counted r" and "registered_once r"
  shows "\<exists>c r'. the_container ref_world_docker ref_world_sql k r s = Ret (Some c, r', s) \<and> counted r' \<and> registered_once r'"
proof -
  obtain res r' s' where got: "With_container ref_world_docker ref_world_sql k r s = Ret (res, r', s')"
    "counted r'" "registered_once r'"
    using with_container_result [OF assms, of ref_world_docker ref_world_sql k s] by auto
  obtain c where "create_kind ref_world_docker ref_world_sql k s = (Inr c, s)" using ref_container_created by blast
  then have "\<exists>i. res = Inr i" and "s' = s"
    using got(1) by (auto simp: With_container_resolve resolve_def find_or_create_def Let_def split: option.splits if_splits)
  then show ?thesis using got by (auto simp: the_container_def)
qed

lemma ref_bound_address: "\<exists>addr. bound_address ref_listen a s = Ret (Inr addr, s)"
  by (simp add: bound_address_def ListenAddr_Listener_def ListenAddrFromAddress_def ref_listen_def)

lemma ref_temporary_database: "\<exists>name. WithTemporaryDatabase ref_world_sql db pre n s = (Inr name, s)"
  by (simp add: WithTemporaryDatabase_def ref_world_sql_def Let_def)

abbreviation "ref_gateway_run \<equiv>
  gateway_DefaultParams ref_world_docker ref_world_sql ref_listen ref_key_files ref_uuid 7 1 empty_registry Map.empty"

abbreviation "ref_es_run \<equiv>
  es_DefaultParams ref_world_docker ref_world_sql ref_listen ref_key_files ref_uuid 2 empty_registry Map.empty"

lemma ref_gateway_run: "\<exists>cfg r s. ref_gateway_run = Ret (Some cfg, r, s)"
proof -
  obtain db r1 where 1: "the_container ref_world_docker ref_world_sql MySQLContainer empty_registry Map.empty = Ret (Some db, r1, Map.empty)"
    "counted r1" "registered_once r1" using ref_container [OF counted_empty registered_once_empty] by blast
  obtain redis r2 where 2: "the_container ref_world_docker ref_world_sql RedisContainer r1 Map.empty = Ret (Some redis, r2, Map.empty)"
    "counted r2" "registered_once r2" using ref_container [OF 1(2,3)] by blast
  obtain etcd r3 where 3: "the_container ref_world_docker ref_world_sql EtcdContainer r2 Map.empty = Ret (Some etcd, r3, Map.empty)"
    using ref_container [OF 2(2,3)] by blast
  obtain addr where 4: "bound_address ref_listen ''0.0.0.0:0'' Map.empty = Ret (Inr addr, Map.empty)"
    using ref_bound_address by blast
  obtain name where 5: "WithTemporaryDatabase ref_world_sql db ''auth_users'' 7 Map.empty = (Inr name, Map.empty)"
    using ref_temporary_database by blast
  obtain s' where "GetRSAPairPaths ref_key_files Map.empty =
      Ret (Inr (publicPath ref_key_files, privatePath ref_key_files), s')" using ref_keys_found by blast
  with 1(1) 2(1) 3 4 5 show ?thesis
    by (simp add: gateway_DefaultParams_def test_bind_def test_require_def test_return_def)
qed

lemma ref_es_run: "\<exists>cfg r s. ref_es_run = Ret (Some cfg, r, s)"
proof -
  obtain etcd r1 where 1: "the_container ref_world_docker ref_world_sql EtcdContainer empty_registry Map.empty = Ret (Some etcd, r1, Map.empty)"
    "counted r1" "registered_once r1" using ref_container [OF counted_empty registered_once_empty] by blast
  obtain redis r2 where 2: "the_container ref_world_docker ref_world_sql RedisContainer r1 Map.empty = Ret (Some redis, r2, Map.empty)"
    using ref_container [OF 1(2,3)] by blast
  obtain addr where 3: "bound_address ref_listen ''0.0.0.0:0'' Map.empty = Ret (Inr addr, Map.empty)"
    using ref_bound_address by blast
  obtain s' where "GetRSAPairPaths ref_key_files Map.empty =
      Ret (Inr (publicPath ref_key_files, privatePath ref_key_files), s')" using ref_keys_found by blast
  with 1(1) 2(1) 3 show ?thesis
    by (simp add: es_DefaultParams_def test_bind_def test_require_def test_return_def)
qed

section \<open>The property\<close>

text \<open>C3: The servers of the integration tests share their keys. Whenever \<open>GetRSAPairPaths\<close> succeeds and the two files
  did not hold a half pair before, they hold a pair. Then what was built from the configurations of
  the two \<open>DefaultParams\<close> fits together: for a day, a token that the gateway's issuer signed is
  admitted by the gateway, as its principal, and by the event server, and so is the token
  of every gRPC tester that is made, unless signing it failed, which the tester does not notice: then its token
  is empty.
\<close>

theorem default_servers_share_keys:
  assumes laws: "key_file_laws F view"
    and gateway: "gateway_DefaultParams D Q net_Listen F L n u r s = Ret (Some gw, r1, s1)"
    and es: "es_DefaultParams D Q net_Listen F L u' r2 s2 = Ret (Some ev, r3, s3)"
  shows "(\<forall>t paths t'. pair_or_none F view t \<longrightarrow> GetRSAPairPaths F t = Ret (Inr paths, t') \<longrightarrow> (\<exists>sk. pair_on_disk F t' sk)) \<and>
    (\<forall>t sk. pair_on_disk F t sk \<longrightarrow> jwt_laws J sk (rsa_PublicKey F sk) \<longrightarrow>
      (\<exists>mw ic issue.
        BuildHTTPMiddleware J (public_keys F t) clock noop (gwc_Auth gw) = Inr mw \<and>
        BuildGRPCStreamInterceptor J (public_keys F t) clock (esc_Auth ev) = Inr (ic :: ('req, 'w) interceptor) \<and>
        TokenIssuerConfiguration_Build J (private_keys F t) (rc_PrivateKeyPath (gwc_Registerer gw)) = Inr issue \<and>
        (\<forall>now p token w. issue now p = Inr token \<longrightarrow> valid_utf8 (p_UserName p) \<longrightarrow>
           clock w < (now + tokenDuration) div Second * Second \<longrightarrow> admits mw ic token p w) \<and>
        (\<forall>now userID name t1 token t2. pair_on_disk F t1 sk \<longrightarrow>
           generateToken F J now userID name t1 = Ret (Some token, t2) \<longrightarrow>
           pair_on_disk F t2 sk \<and>
           (case issue now \<lparr>p_ID = userID, p_UserName = name\<rparr> of Inl err \<Rightarrow> token = [] | Inr t' \<Rightarrow> token = t'))))"
proof (intro conjI allI impI)
  fix t paths t'
  assume "pair_or_none F view t" and "GetRSAPairPaths F t = Ret (Inr paths, t')"
  then show "\<exists>sk. pair_on_disk F t' sk" by (rule GetRSAPairPaths_pair [OF laws])
next
  fix t sk
  assume pair: "pair_on_disk F t sk" and jwt: "jwt_laws J sk (rsa_PublicKey F sk)"
  let ?v = "JWTValidator_Validate J (rsa_PublicKey F sk) clock"
  have "case JWTIssuer_Issue J sk now \<lparr>p_ID = userID, p_UserName = name\<rparr> of Inl err \<Rightarrow> token = [] | Inr t' \<Rightarrow> token = t'"
    and "pair_on_disk F t2 sk"
    if "pair_on_disk F t1 sk" and "generateToken F J now userID name t1 = Ret (Some token, t2)" for now userID name t1 token t2
    using generateToken_signed [OF laws that] by simp_all
  moreover have "admits (HTTPTokenAuthorizationMiddleware ?v) (GRPCStreamTokenAuthorizationInterceptor ?v) token p w"
    if "JWTIssuer_Issue J sk now p = Inr token" and "valid_utf8 (p_UserName p)"
      and "clock w < (now + tokenDuration) div Second * Second" for now p token w
    by (rule issued_token_admitted [where clock = clock and t = w, OF jwt that(2,1,3)])
  ultimately show "\<exists>mw ic issue.
      BuildHTTPMiddleware J (public_keys F t) clock noop (gwc_Auth gw) = Inr mw \<and>
      BuildGRPCStreamInterceptor J (public_keys F t) clock (esc_Auth ev) = Inr (ic :: ('req, 'w) interceptor) \<and>
      TokenIssuerConfiguration_Build J (private_keys F t) (rc_PrivateKeyPath (gwc_Registerer gw)) = Inr issue \<and>
      (\<forall>now p token w. issue now p = Inr token \<longrightarrow> valid_utf8 (p_UserName p) \<longrightarrow>
         clock w < (now + tokenDuration) div Second * Second \<longrightarrow> admits mw ic token p w) \<and>
      (\<forall>now userID name t1 token t2. pair_on_disk F t1 sk \<longrightarrow>
         generateToken F J now userID name t1 = Ret (Some token, t2) \<longrightarrow>
         pair_on_disk F t2 sk \<and>
         (case issue now \<lparr>p_ID = userID, p_UserName = name\<rparr> of Inl err \<Rightarrow> token = [] | Inr t' \<Rightarrow> token = t'))"
    unfolding gateway_DefaultParams_keys [OF laws gateway] es_DefaultParams_keys [OF laws es] test_auth_Build [OF pair]
    by (intro exI conjI refl allI impI) simp_all
qed

lemma ref_pair_from_nothing:
  "\<exists>t'. GetRSAPairPaths ref_key_files Map.empty = Ret (Inr (publicPath ref_key_files, privatePath ref_key_files), t') \<and>
     pair_or_none ref_key_files (\<lambda>s. s) Map.empty"
  using ref_keys_found by (simp add: pair_or_none_def)

lemma ref_bob_token: "JWTIssuer_Issue ref_jwt () 5 \<lparr>p_ID = ID 7, p_UserName = ''bob''\<rparr> = Inr ''tok''"
  by (simp add: JWTIssuer_Issue_def ref_jwt_def ref_claims_def NewNumericDate_def tokenDuration_def Second_eq)

theorem default_servers_share_keys_witness:
  "\<exists>gw r1 s1 ev r2 s2 t mw ic. ref_gateway_run = Ret (Some gw, r1, s1) \<and> ref_es_run = Ret (Some ev, r2, s2) \<and>
     BuildHTTPMiddleware ref_jwt (public_keys ref_key_files t) (\<lambda>t. t) 1 (gwc_Auth gw) = Inr mw \<and>
     BuildGRPCStreamInterceptor ref_jwt (public_keys ref_key_files t) (\<lambda>t. t) (esc_Auth ev) = Inr (ic :: (unit, int) interceptor) \<and>
     admits mw ic ''tok'' \<lparr>p_ID = ID 7, p_UserName = ''bob''\<rparr> Second"
proof -
  obtain gw :: "unit gateway_Configuration" and r1 s1 where gw: "ref_gateway_run = Ret (Some gw, r1, s1)"
    using ref_gateway_run by blast
  obtain ev :: "unit es_Configuration" and r2 s2 where ev: "ref_es_run = Ret (Some ev, r2, s2)"
    using ref_es_run by blast
  note shared = default_servers_share_keys [OF ref_key_file_laws gw ev, of ref_jwt "\<lambda>t. t" 1]
  obtain t sk where pair: "pair_on_disk ref_key_files t sk"
    using shared [THEN conjunct1] ref_pair_from_nothing by blast
  have "jwt_laws ref_jwt sk (rsa_PublicKey ref_key_files sk)" using ref_jwt_laws by simp
  from shared [THEN conjunct2, rule_format, OF pair this]
  obtain mw and ic :: "(unit, int) interceptor" and issue
    where built: "BuildHTTPMiddleware ref_jwt (public_keys ref_key_files t) (\<lambda>t. t) 1 (gwc_Auth gw) = Inr mw"
      "BuildGRPCStreamInterceptor ref_jwt (public_keys ref_key_files t) (\<lambda>t. t) (esc_Auth ev) = Inr ic"
      "TokenIssuerConfiguration_Build ref_jwt (private_keys ref_key_files t) (rc_PrivateKeyPath (gwc_Registerer gw)) = Inr issue"
    and admitted: "\<And>now p token w. issue now p = Inr token \<Longrightarrow> valid_utf8 (p_UserName p) \<Longrightarrow>
      w < (now + tokenDuration) div Second * Second \<Longrightarrow> admits mw ic token p w"
    by blast
  have "rc_PrivateKeyPath (gwc_Registerer gw) = privatePath ref_key_files"
    by (rule gateway_DefaultParams_keys(2) [OF ref_key_file_laws gw])
  then have "issue = JWTIssuer_Issue ref_jwt sk" using built(3) test_auth_Build(3) [OF pair, of ref_jwt] by simp
  then have "issue 5 \<lparr>p_ID = ID 7, p_UserName = ''bob''\<rparr> = Inr ''tok''" using ref_bob_token by simp
  moreover have "valid_utf8 ''bob''" by (rule valid_utf8_ascii) auto
  ultimately have "admits mw ic ''tok'' \<lparr>p_ID = ID 7, p_UserName = ''bob''\<rparr> Second"
    using admitted [of 5 "\<lparr>p_ID = ID 7, p_UserName = ''bob''\<rparr>" "''tok''" Second] by (simp add: tokenDuration_def Second_eq)
  with gw ev built show ?thesis by blast
qed

end
