(* ===== verification/Spec2Isabelle.thy ===== *)
theory Spec2Isabelle
  imports Slices Clients Testers TestParams
begin

text \<open>
  OCCA, a chat system in Go: a verification library for its two servers and its clients.

  The program. The gateway (\<open>src/src/gateway\<close>) is the public HTTP server: it registers users, logs them
  in with a JSON web token, keeps a list of active users, names an event server to connect to and is
  meant to relay messages. An event server (\<open>src/src/eventserver\<close>) holds one gRPC stream per connected
  user and delivers events to it. They share Redis (\<open>src/src/pkg/memstore\<close>): a connected user's event
  server writes a record with a time to live, over and over, from which the gateway's relay learns where
  the user is. They share etcd: each event server announces its addresses under a lease, and each
  gateway follows the announcements. The terminal client (\<open>src/src/cliclient\<close>) uses the gateway
  through \<open>src/src/gateway/client\<close>.

  Theories, from the bottom up, with the sources (below \<open>src/src\<close>) that their definitions translate:

    \<^item> Prelude: outcomes of Go calls (\<open>Ret\<close>, \<open>Panic\<close>), 64-bit wrap-around, durations, decimal printing, and
      lemmas on lists and maps. It models no file.
    \<^item> Errors: \<open>pkg/errors\<close>, \<open>pkg/http/errors.go\<close>, \<open>pkg/grpc\<close>: the tree of wrapped errors, \<open>errors.As\<close>,
      and what the two transports make of an error.
    \<^item> Slices: \<open>pkg/slices\<close>. Ident: \<open>pkg/id\<close>, on 128-bit words. Json: the part of \<open>encoding/json\<close> that the
      messages need, as a scanner, an escaper and a decoder into the fields of a structure.
    \<^item> MemStore: \<open>pkg/memstore\<close>, the store over Redis. Rtconn: \<open>pkg/eventserver/rtconn\<close>, the heart beater, its
      goroutines as the step relation \<open>hb_step\<close>, and the resolver.
    \<^item> EtcdLease: \<open>pkg/etcd/lease.go\<close>, the lease, its keeper and the caller of \<open>Close\<close> as \<open>lc_step\<close>.
      Membership: \<open>pkg/eventserver/membership\<close>, the announcing manager and the following registry.
    \<^item> HttpKit: \<open>pkg/http\<close>, the router builder, JSON responses, request log, client and server wrapper.
      Auth: \<open>pkg/auth\<close> and \<open>pkg/auth/db\<close>, checking and issuing tokens, registering and logging in.
    \<^item> EventServer: \<open>eventserver/services\<close>, \<open>eventserver/grpc\<close>, \<open>eventserver/http\<close>: the calls of
      \<open>ServeConnection\<close> and the goroutines of the shutdown as \<open>es_step\<close>, and the two endpoints.
    \<^item> ActiveUsers and EventRelay: \<open>gateway/services\<close> and \<open>pkg/eventserver/client\<close>. Gateway: \<open>gateway/http\<close>, all
      routes over the services as the gateway puts them together.
    \<^item> Lifecycle: \<open>pkg/io\<close>, \<open>pkg/launch\<close> and \<open>StartServices\<close> of both servers over their parts. ServerRun:
      \<open>gateway/server.go\<close> and \<open>eventserver/server.go\<close>, with the race for \<open>closeCh\<close>, the takedown and the open
      calls as \<open>go_step\<close> and \<open>run\<close>, and the whole of the event server's \<open>Start\<close>, where it returns, as the relation \<open>es_Start\<close>.
    \<^item> Clients: \<open>gateway/client\<close>, \<open>cliclient\<close>. Config: \<open>pkg/config\<close>, \<open>pkg/db\<close>, \<open>pkg/net\<close>, \<open>pkg/logger\<close> and the builders of
      the connections. Wiring: the parts of both servers built from their configuration, and \<open>cmd\<close>.
    \<^item> Testers: \<open>pkg/test/http.go\<close> and the gateway tester of \<open>integration/gateway\<close>, a client of the theory Gateway.
      Containers: \<open>integration/containers\<close>, the shared registry of Docker containers, its users as \<open>ct_step\<close>. TestKeys:
      \<open>pkg/test/rsa.go\<close>, \<open>pkg/test/net.go\<close> and the gRPC tester. TestParams: both \<open>DefaultParams\<close>.
    \<^item> Spec2Isabelle: the property that spans the event server's and the gateway's halves.

  How the code is read. A structure is a record with the fields of the source; an error is
  a value (\<open>'a result\<close> is \<open>go_error + 'a\<close>), a panic is \<open>Panic\<close> with its message. An operation takes the
  state and returns it changed; a goroutine is a program counter in the state of a step relation, whose
  steps are the accesses that other goroutines can come between, so every interleaving is a path.
  \<open>select\<close> with several ready cases, and ranging over a map, leave the choice open: a step of its own, or
  an order as an argument. Time is a number of nanoseconds; text is a list of bytes.

  What is a parameter. The libraries the code calls are arguments of the definitions that use
  them: Redis (\<open>redis_lib\<close>), etcd (\<open>etcd_lib\<close>, \<open>get_prefix\<close>), UUIDs, JWT, bcrypt, PEM keys, gorm, Docker
  (\<open>docker_lib\<close>), the SQL driver, the file system (\<open>key_files\<close>), the request multiplexer, the HTTP transport, protobuf encoding, zap, YAML, \<open>multierr.Append\<close>, random numbers and
  the order in which a map is visited. What the code relies on is a named law (\<open>redis_laws\<close>, \<open>etcd_laws\<close>,
  \<open>uuid_laws\<close>, ...) that states documented behaviour; every law has an instance (\<open>ref_redis\<close>, \<open>ref_uuid\<close>, ...)
  for which it is proved and on which the witnesses are evaluated.

  Interfaces. \<open>store\<close> is the contract of \<open>memstore.Store\<close> (\<open>redis_store\<close>), with \<open>store_client\<close> for what its
  users derive; \<open>heart_beater\<close> is what the event server expects of its heart beater (\<open>beater\<close>);
  \<open>replica\<close> is a copy driven by events (\<open>registry\<close>); \<open>token_checker\<close> is token validation (\<open>jwt\<close>, \<open>noop\<close>);
  \<open>user_directory\<close> and \<open>server_directory\<close> are the two lookups of the relay (\<open>connections\<close>, \<open>servers\<close>), joined in
  \<open>relay_directories\<close> (\<open>relay\<close>). Each is interpreted by the model of the component that provides it.

  What is shown, by property:

    \<^item> Data: an error keeps its class and cause through any wrapping and both transports agree on it
      (C1); identifiers survive JSON (C4). Theory Slices has the loops equal to their specifications (\<open>slice_loops_correct\<close>).
    \<^item> Store and presence: what was set is what is read until it expires, and the reads of all other keys stay as they are,
      where names that contain the separator may denote the same key (C5); listing is exact, but
      \<open>ListCollectionKeys\<close> never returns a key that was set (C6). The jittered interval stays inside the time
      to live, and overflows only for durations of centuries (C8); a connected user is resolvable and is gone after the time to live (C9); the heart
      beater never panics, has one goroutine per user that was not told to stop (C10, C11), and leaves a dead one after a failed
      write, which no later launch replaces (C13). The active users refine a set (C34).
    \<^item> Cluster: the only step of the lease client that panics is a second call of \<open>Close\<close> (C14); an announced loss means the lease has
      ended, but a lease that expired is never announced as lost (C15); \<open>Close\<close> can finish (C16). The
      registry equals the key space (C18), the manager keeps that readable (C19), a server is resolved from
      joining until it has left (C20), and selection is total on a non-empty registry (C21).
    \<^item> HTTP and authentication: answers tell the class of the error (C22), the builder equals its
      reference on all nestings (C23); nothing passes unauthenticated (C24), a token is good for a day
      (C25), who registered can log in (C26), and the two transports admit the same tokens (C27).
    \<^item> Event server: a shutdown releases the connections it saw and neither panics nor blocks (C28, C30),
      but displaced and late calls stay (C29), the first connection of a user gets no event in any state after a second one (C31),
      and any user may be impersonated (C33). The message endpoint delivers (C32).
    \<^item> Composition: events for a connected user go to the server that announced itself, whatever other servers
      join and leave (C2), yet that server
      has no route for them (C35), and the gateway's own route panics because the relay is not handed over
      (C36). Registration, login and presence work end to end (C37), and all answers are JSON (C38).
    \<^item> Starting and stopping: an interrupted process ends within fifteen seconds (C12); which connections and
      listeners are left open, for any configuration, up to the end of \<open>Start\<close>, among them those of a failed dial (C39); the run of the
      event server ends within seventeen steps, gRPC calls aside, with the server returned, unless every report was swallowed by a
      forwarder or a call is open that \<open>GracefulStop\<close> waits for, as calls of the kind of C29 make it do (C40).
    \<^item> Integration tests: the session that the gateway's test runs meets its requirements for every user name,
      password and prior content of the store, as the client reads the bytes (C7); the servers of the
      tests share one key pair, so that the gateway's and the testers' tokens are admitted (C3); the containers
      are counted by their pending cleanups, but a terminated one is handed out again (C17).

  Bounds and fuel. The JSON parser has fuel of twice the length of its input and two: more
  of it never changes the result (\<open>parse_fuel_enough\<close>), and nesting ends at 10000 levels as in the library. \<open>closeCh\<close> has the capacity of the source, ten, of which four are ever needed. The menu of the
  terminal client and the recursive \<open>RegistererImpl.Close\<close> may not return: they are \<open>partial_function\<close>s, and it is
  proved when they do not. All other loops are structural or have a measure.

  Not modelled: generated code (protobuf, gRPC stubs, mocks); the functions \<open>Test...\<close> but for the session of
  \<open>TestGateway_ActiveUsers\<close>, and the running of a test process (leak detector, stack printer, the tests' logger);
  the HTTP metrics middleware, which only hands a handler to a library (it is a parameter where routes are
  configured); the wall clock and the pair of handles that is called instrumentation; log lines, but
  for the request log and what \<open>WaitForInterrupt\<close> reports; the parsing of flags. Memory faults below the level of
  maps and channels, and data races on fields that the source reads without its mutex, are not visible
  in the models.
\<close>

section \<open>A connected user's events\<close>

text \<open>
  The parts that have to agree for an event to find its recipient: the heart beater of the event
  server writes the connection record, the manager announces the server, the registry of the gateway
  follows the announcements, and the relay asks for both. \<open>store_of\<close> and \<open>registry_of\<close> are what the
  relay sees of the store and of the registry.
\<close>

lemma relay_sends_to_resolved:
  assumes "resolveUser u s = Inr \<lparr>ServerID = sid\<rparr>" and "resolveServer sid s = Inr i"
  shows "relay_Forward resolveUser resolveServer H pb u event s =
    (case client_Send H pb (NewClient (srv_HTTPAddress i)) event s of
       (Some err, s1) \<Rightarrow> (Some (Wrapped ''sending event'' err), s1) | (None, s1) \<Rightarrow> (None, s1))"
  using assms by (simp add: relay_Forward_def ClientForServer_def)

text \<open>C2: The gateway sends the events for a connected user to the server that holds his connection: while
  the heartbeat of the connection runs, at any moment up to its next beat and after any number of
  beats, and with a registry that has followed the cluster up to any moment after that server joined it,
  whatever other servers joined, refreshed or left since, as long as the key of the server was only
  refreshed with the same addresses, the relay posts to the address that the server announced. Once the
  heartbeats have stopped for their time to live, forwarding fails before anything is sent.\<close>

theorem events_go_to_the_users_server:
  assumes "redis_laws R up view" and "clock_laws up view pass" and "up s0" and "Intn_ok intn"
    and "addJitter intn heartBeatInterval = Ret period"
    and "ConnectionInfo_Marshall \<lparr>conn_ServerID = srv_ID i\<rparr> = Inr d" and "0 \<le> t"
    and "heartBeat (redis_Store R c) pass period (ID_String L u) d (replicate n Ticked) s0 = (r, s1)"
    and "etcd_laws E eview env" and "JoinCluster E mg (Inr i) e0 = (None, mg', e1)" and "utf8_ServerInfo i"
    and "stays_announced i later" and "caught_up (registry_of s) (kv_after (ev_log (eview e1) @ later))"
    and "store_of s = pass t s1"
  shows "(t \<le> period \<longrightarrow>
      relay_Forward (\<lambda>u s. ServerResolver_Resolve L (redis_Store R c) u (store_of s))
        (\<lambda>sid s. registry_Resolve sid (registry_of s)) H pb u event s =
      (case client_Send H pb (NewClient (srv_HTTPAddress i)) event s of
         (Some err, s') \<Rightarrow> (Some (Wrapped ''sending event'' err), s') | (None, s') \<Rightarrow> (None, s'))) \<and>
    (heartBeatTTL \<le> t \<longrightarrow>
      (\<exists>err. relay_Forward (\<lambda>u s. ServerResolver_Resolve L (redis_Store R c) u (store_of s))
        (\<lambda>sid s. registry_Resolve sid (registry_of s)) H pb u event s = (Some err, s)))"
proof -
  have utf8: "valid_utf8 (srv_ID i)" using assms(11) by (simp add: utf8_ServerInfo_def)
  note user = beating_user [OF assms(1-5) utf8 assms(6-8)]
  have server: "registry_Resolve (srv_ID i) (registry_of s) = Inr i"
    by (rule joined_resolved [OF assms(9-13)])
  show ?thesis
  proof (intro conjI impI)
    assume "t \<le> period"
    then have "ServerResolver_Resolve L (redis_Store R c) u (store_of s) = Inr \<lparr>ServerID = srv_ID i\<rparr>"
      using user assms(14) by simp
    then show "relay_Forward (\<lambda>u s. ServerResolver_Resolve L (redis_Store R c) u (store_of s))
        (\<lambda>sid s. registry_Resolve sid (registry_of s)) H pb u event s =
      (case client_Send H pb (NewClient (srv_HTTPAddress i)) event s of
         (Some err, s') \<Rightarrow> (Some (Wrapped ''sending event'' err), s') | (None, s') \<Rightarrow> (None, s'))"
      using server by (rule relay_sends_to_resolved)
  next
    assume "heartBeatTTL \<le> t"
    then obtain err where "ServerResolver_Resolve L (redis_Store R c) u (store_of s) = Inl err"
      using user assms(14) by auto
    then show "\<exists>err. relay_Forward (\<lambda>u s. ServerResolver_Resolve L (redis_Store R c) u (store_of s))
        (\<lambda>sid s. registry_Resolve sid (registry_of s)) H pb u event s = (Some err, s)"
      by (simp add: relay_Forward_def)
  qed
qed

text \<open>A transport that records the address it is asked for.\<close>

definition recording_http :: "(ref_server \<times> ServerRegistry \<times> string list) http_lib" where
  "recording_http =
     \<lparr>lib_NewRequest = (\<lambda>meth url. None),
      lib_Do = (\<lambda>meth url body headers (st, reg, urls). (Inr (200, Inr []), st, reg, urls @ [url]))\<rparr>"

text \<open>A second server joins, the first one refreshes its key, and the second leaves again.\<close>

definition ref_later :: "etcd_event list" where
  "ref_later =
     [EvPut (eventServersNamespace @ ''es-2'') (render (ServerInfo_tree (ref_info\<lparr>srv_ID := ''es-2''\<rparr>))), ref_put,
      EvDelete (eventServersNamespace @ ''es-2'')]"

theorem events_go_to_the_users_server_witness:
  "\<exists>s. fst (snd s) = \<lparr>reg_servers = registry_abs (kv_after (re_log ref_joined @ ref_later)), reg_closed = False\<rparr> \<and>
     snd (snd (snd (relay_Forward (\<lambda>u s. ServerResolver_Resolve ref_uuid (redis_Store ref_redis (NewRedisClient [])) u (fst s))
       (\<lambda>sid s. registry_Resolve sid (fst (snd s))) recording_http (\<lambda>e. Inr []) (ID 7)
       \<lparr>dm_SenderId = [], dm_Message = ''hi''\<rparr> s))) = [''http://'' @ srv_HTTPAddress ref_info @ ''/send-event'']"
proof -
  let ?st = "redis_Store ref_redis (NewRedisClient [])"
  let ?d = "render (JObj [(''serverID'', json_string ''es-1'')])"
  have ok: "Intn_ok (\<lambda>n. 0)" by (simp add: Intn_ok_def)
  have jitter: "addJitter (\<lambda>n. 0) heartBeatInterval = Ret (10 * Second)" by code_simp
  have up: "ref_up ([], 0)" by (simp add: ref_up_def)
  have data: "ConnectionInfo_Marshall \<lparr>conn_ServerID = srv_ID ref_info\<rparr> = Inr ?d"
    by (simp add: ConnectionInfo_Marshall_def ref_info_def)
  have nonneg: "0 \<le> 10 * Second" by (simp add: Second_def)
  obtain r s1 where run: "heartBeat ?st ref_advance (10 * Second) (ID_String ref_uuid (ID 7)) ?d
      (replicate 3 Ticked) ([], 0) = (r, s1)" by (metis surj_pair)
  define reg where "reg = \<lparr>reg_servers = registry_abs (kv_after (re_log ref_joined @ ref_later)), reg_closed = False\<rparr>"
  define s :: "ref_server \<times> ServerRegistry \<times> string list" where "s = (ref_advance (10 * Second) s1, reg, [])"
  have announced: "stays_announced ref_info ref_later"
    by (simp add: stays_announced_def ref_later_def ref_put_def ref_info_def)
  have caught: "caught_up ((\<lambda>s. fst (snd s)) s) (kv_after (ev_log (ref_etcd_view ref_joined) @ ref_later))"
    by (simp add: s_def reg_def caught_up_def ref_etcd_view_def)
  have store: "fst s = ref_advance (10 * Second) s1" by (simp add: s_def)
  note sent = events_go_to_the_users_server [where registry_of = "\<lambda>s. fst (snd s)" and store_of = fst and s = s and
      H = recording_http and pb = "\<lambda>e. Inr []" and event = "\<lparr>dm_SenderId = [], dm_Message = ''hi''\<rparr>",
      OF ref_redis_laws ref_clock_laws up ok jitter data nonneg run ref_etcd_laws ref_JoinCluster utf8_ref_info announced caught store,
      THEN conjunct1, rule_format, OF order_refl]
  have "snd (snd s) = []" by (simp add: s_def)
  then have "client_Send recording_http (\<lambda>e. Inr []) (NewClient (srv_HTTPAddress ref_info))
      \<lparr>dm_SenderId = [], dm_Message = ''hi''\<rparr> s =
    (None, fst s, fst (snd s), [''http://'' @ srv_HTTPAddress ref_info @ ''/send-event''])"
    by (simp add: client_Send_def client_Post_def client_execute_def client_url_def recording_http_def NewClient_def split_beta)
  with sent show ?thesis by (intro exI [of _ s]) (simp add: s_def reg_def)
qed

end
